(* ===== verification/Go_Prelude.thy ===== *)
theory Go_Prelude
  imports
    Main
    "HOL-Library.AList"
    "HOL-Library.Multiset"
    "HOL-Library.Char_ord"
    "HOL-Library.List_Lexorder"
    "HOL-Library.Monad_Syntax"
begin

text \<open>
  Shared vocabulary of the development: what the modelled Go packages use of the language and
  of its standard library.

  \<^item> Go strings are byte sequences, modelled by \<open>string\<close>; Go's \<open><\<close> on strings is the
    bytewise lexicographic order, which is the order \<open>List_Lexorder\<close> and \<open>Char_ord\<close> give.
  \<^item> Go maps whose size or iteration the code uses are association lists with distinct keys,
    read by \<open>map_of\<close>, written by \<open>AList.update\<close> and \<open>AList.delete\<close>; the order of the
    entries stands for Go's unspecified iteration order and no property depends on it.
  \<^item> A computation that may panic has an option type, with \<open>None\<close> for the panic.
  \<^item> \<open>sort_Slice\<close> models \<open>sort.Slice\<close>, \<open>sort.Sort\<close> and \<open>slices.SortFunc\<close>;
    the locale \<open>less_order\<close> is the contract those functions put on the comparison, and
    \<open>sort_unique\<close> shows that on a total comparison the result does not depend on the
    algorithm.
\<close>

section \<open>Collections of facts\<close>

named_theorems go_map \<open>rewriting Go maps modelled as association lists\<close>
named_theorems go_str \<open>rewriting the strings package\<close>

type_synonym ('k, 'v) gomap = "('k \<times> 'v) list"

section \<open>Maps\<close>

abbreviation keys_distinct :: "('k, 'v) gomap \<Rightarrow> bool" where
  "keys_distinct m \<equiv> distinct (map fst m)"

lemma length_update [go_map]:
  "length (AList.update k v m) = (if k \<in> fst ` set m then length m else Suc (length m))"
  by (induction m) auto

lemma length_delete [go_map]:
  "keys_distinct m \<Longrightarrow>
     length (AList.delete k m) = (if k \<in> fst ` set m then length m - 1 else length m)"
proof (induction m)
  case (Cons p m)
  then show ?case
    by (cases p) (auto simp: AList.delete_eq dest!: length_pos_if_in_set)
qed simp

lemma set_update_keys [go_map]:
  "keys_distinct m \<Longrightarrow> set (AList.update k v m) = insert (k, v) {p \<in> set m. fst p \<noteq> k}"
proof (induction m)
  case (Cons p m)
  then show ?case by (cases p) (auto simp: image_iff)
qed simp

lemma set_delete [go_map]: "set (AList.delete k m) = {p \<in> set m. fst p \<noteq> k}"
  by (auto simp: AList.delete_eq)

lemma keys_update [go_map]: "fst ` set (AList.update k v m) = insert k (fst ` set m)"
  by (simp add: AList.dom_update)

lemma keys_delete [go_map]: "fst ` set (AList.delete k m) = fst ` set m - {k}"
  by (auto simp: AList.delete_eq)

lemma map_of_update [go_map]: "map_of (AList.update k v m) = (map_of m)(k \<mapsto> v)"
  by (simp add: AList.update_conv')

lemma map_of_del [go_map]: "map_of (AList.delete k m) = (map_of m)(k := None)"
  by (simp add: AList.delete_conv')

lemma map_of_SomeD_key: "map_of m k = Some v \<Longrightarrow> k \<in> fst ` set m"
  by (metis map_of_eq_None_iff option.distinct(1))

lemma map_of_iff_set: "keys_distinct m \<Longrightarrow> map_of m k = Some v \<longleftrightarrow> (k, v) \<in> set m"
  by (simp add: map_of_eq_Some_iff)

section \<open>Strings\<close>

definition HasPrefix :: "string \<Rightarrow> string \<Rightarrow> bool" where
  "HasPrefix s p \<longleftrightarrow> take (length p) s = p"

definition HasSuffix :: "string \<Rightarrow> string \<Rightarrow> bool" where
  "HasSuffix s p \<longleftrightarrow> length p \<le> length s \<and> drop (length s - length p) s = p"

fun Contains :: "string \<Rightarrow> string \<Rightarrow> bool" where
  "Contains [] p = (p = [])"
| "Contains (c # cs) p = (HasPrefix (c # cs) p \<or> Contains cs p)"

fun Join :: "string list \<Rightarrow> string \<Rightarrow> string" where
  "Join [] sep = []"
| "Join [x] sep = x"
| "Join (x # y # zs) sep = x @ sep @ Join (y # zs) sep"

text \<open>\<open>strings.Split(s, sep)\<close> for a one-byte separator.\<close>

fun SplitChar :: "char \<Rightarrow> string \<Rightarrow> string list" where
  "SplitChar c [] = [[]]"
| "SplitChar c (x # xs) =
     (if x = c then [] # SplitChar c xs
      else (case SplitChar c xs of [] \<Rightarrow> [[x]] | y # ys \<Rightarrow> (x # y) # ys))"

lemma HasPrefix_append [go_str]: "HasPrefix s p \<longleftrightarrow> (\<exists>r. s = p @ r)"
proof
  assume "HasPrefix s p"
  then have "s = p @ drop (length p) s"
    unfolding HasPrefix_def by (metis append_take_drop_id)
  then show "\<exists>r. s = p @ r" ..
qed (auto simp: HasPrefix_def)

lemma HasSuffix_append [go_str]: "HasSuffix s p \<longleftrightarrow> (\<exists>r. s = r @ p)"
proof
  assume "HasSuffix s p"
  then have "s = take (length s - length p) s @ p"
    unfolding HasSuffix_def by (metis append_take_drop_id)
  then show "\<exists>r. s = r @ p" ..
qed (auto simp: HasSuffix_def)

lemma Contains_append [go_str]: "Contains s p \<longleftrightarrow> (\<exists>a b. s = a @ p @ b)"
proof (induction s)
  case (Cons c cs)
  have "(\<exists>a b. c # cs = a @ p @ b) \<longleftrightarrow> (\<exists>b. c # cs = p @ b) \<or> (\<exists>a b. cs = a @ p @ b)"
    by (metis Cons_eq_append_conv append_Cons append_Nil)
  with Cons.IH show ?case by (simp add: HasPrefix_append)
qed auto

lemma SplitChar_ne [simp]: "SplitChar c s \<noteq> []"
  by (induction s) (auto split: list.splits)

lemma Join_SplitChar: "Join (SplitChar c s) [c] = s"
proof (induction s)
  case (Cons x xs)
  then show ?case
    by (cases "SplitChar c xs") (auto, (metis Join.simps(2,3) append_Cons list.exhaust)+)
qed simp

lemma SplitChar_no_sep: "w \<in> set (SplitChar c s) \<Longrightarrow> c \<notin> set w"
  by (induction s arbitrary: w) (fastforce split: if_splits list.splits)+

text \<open>Cutting a string at the first occurrence of a byte.\<close>

lemma takeWhile_until: "c \<notin> set xs \<Longrightarrow> takeWhile (\<lambda>x. x \<noteq> c) (xs @ c # ys) = xs"
  by (induction xs) auto

lemma dropWhile_until: "c \<notin> set xs \<Longrightarrow> dropWhile (\<lambda>x. x \<noteq> c) (xs @ c # ys) = c # ys"
  by (induction xs) auto

lemma takeWhile_none: "c \<notin> set xs \<Longrightarrow> takeWhile (\<lambda>x. x \<noteq> c) xs = xs"
  by (induction xs) auto

lemma dropWhile_none: "c \<notin> set xs \<Longrightarrow> dropWhile (\<lambda>x. x \<noteq> c) xs = []"
  by (induction xs) auto

lemmas split_at_byte = takeWhile_until dropWhile_until takeWhile_none dropWhile_none

text \<open>Decimal formatting, \<open>%d\<close>.\<close>

fun digits :: "nat \<Rightarrow> string" where
  "digits n = (if n < 10 then [char_of (48 + n)] else digits (n div 10) @ [char_of (48 + n mod 10)])"

declare digits.simps [simp del]

definition itoa :: "int \<Rightarrow> string" where
  "itoa i = (if i < 0 then CHR ''-'' # digits (nat (- i)) else digits (nat i))"

section \<open>Sorting with a comparison\<close>

fun insert_by :: "('a \<Rightarrow> 'a \<Rightarrow> bool) \<Rightarrow> 'a \<Rightarrow> 'a list \<Rightarrow> 'a list" where
  "insert_by lt x [] = [x]"
| "insert_by lt x (y # ys) = (if lt y x then y # insert_by lt x ys else x # y # ys)"

definition sort_Slice :: "('a \<Rightarrow> 'a \<Rightarrow> bool) \<Rightarrow> 'a list \<Rightarrow> 'a list" where
  "sort_Slice lt xs = foldr (insert_by lt) xs []"

abbreviation sorted_by :: "('a \<Rightarrow> 'a \<Rightarrow> bool) \<Rightarrow> 'a list \<Rightarrow> bool" where
  "sorted_by lt \<equiv> sorted_wrt (\<lambda>a b. \<not> lt b a)"

lemma sort_Slice_simps [simp]:
  "sort_Slice lt [] = []"
  "sort_Slice lt (x # xs) = insert_by lt x (sort_Slice lt xs)"
  by (simp_all add: sort_Slice_def)

lemma mset_insert_by [simp]: "mset (insert_by lt x xs) = add_mset x (mset xs)"
  by (induction xs) auto

lemma mset_sort_Slice [simp]: "mset (sort_Slice lt xs) = mset xs"
  by (induction xs) auto

lemma set_sort_Slice [simp]: "set (sort_Slice lt xs) = set xs"
  by (metis mset_sort_Slice set_mset_mset)

lemma length_sort_Slice [simp]: "length (sort_Slice lt xs) = length xs"
  by (metis mset_sort_Slice size_mset)

lemma distinct_sort_Slice [simp]: "distinct (sort_Slice lt xs) = distinct xs"
  by (metis mset_sort_Slice mset_eq_imp_distinct_iff)

lemma distinct_map_sort_Slice [simp]:
  "distinct (map f (sort_Slice lt xs)) = distinct (map f xs)"
  by (metis mset_sort_Slice mset_map mset_eq_imp_distinct_iff)

text \<open>
  The contract of Go's sorting functions: the comparison is a strict weak order (asymmetric,
  and \<open>\<not> lt\<close> is transitive). Inside it: the result is ordered, and an already ordered
  list is left alone.
\<close>

locale less_order =
  fixes lt :: "'a \<Rightarrow> 'a \<Rightarrow> bool"
  assumes asym: "lt a b \<Longrightarrow> \<not> lt b a"
    and neg_trans: "\<not> lt a b \<Longrightarrow> \<not> lt b c \<Longrightarrow> \<not> lt a c"
begin

lemma irrefl [simp]: "\<not> lt a a"
  using asym by blast

lemma trans_lt: "lt a b \<Longrightarrow> lt b c \<Longrightarrow> lt a c"
  using asym neg_trans by blast

lemma sorted_insert_by: "sorted_by lt xs \<Longrightarrow> sorted_by lt (insert_by lt x xs)"
proof (induction xs)
  case (Cons y ys)
  have set_ins: "set (insert_by lt x ys) = insert x (set ys)"
    by (metis mset_insert_by set_mset_add_mset_insert set_mset_mset)
  show ?case
  proof (cases "lt y x")
    case True
    with Cons show ?thesis by (auto simp: set_ins dest: asym)
  next
    case False
    with Cons.prems show ?thesis by (auto dest: neg_trans)
  qed
qed simp

lemma sorted_sort_Slice: "sorted_by lt (sort_Slice lt xs)"
  by (induction xs) (auto intro: sorted_insert_by)

lemma sort_Slice_id: "sorted_by lt xs \<Longrightarrow> sort_Slice lt xs = xs"
proof (induction xs)
  case (Cons x xs)
  then show ?case by (cases xs) auto
qed simp

lemma sort_Slice_idem [simp]: "sort_Slice lt (sort_Slice lt xs) = sort_Slice lt xs"
  by (rule sort_Slice_id) (rule sorted_sort_Slice)

lemma hd_minimal: "sorted_by lt (x # xs) \<Longrightarrow> y \<in> set (x # xs) \<Longrightarrow> \<not> lt y x"
  by auto

lemma sort_unique:
  assumes "sorted_by lt xs" "sorted_by lt ys" "mset xs = mset ys"
    and "\<And>a b. a \<in> set xs \<Longrightarrow> b \<in> set xs \<Longrightarrow> a \<noteq> b \<Longrightarrow> lt a b \<or> lt b a"
  shows "xs = ys"
  using assms
proof (induction xs arbitrary: ys)
  case Nil
  then show ?case by simp
next
  case (Cons x xs)
  then obtain y ys' where ys: "ys = y # ys'" by (cases ys) auto
  have sets: "set (x # xs) = set (y # ys')"
    using Cons.prems(3) ys by (metis set_mset_mset)
  have "\<not> lt y x"
    using Cons.prems(1) sets by (intro hd_minimal [of x xs]) auto
  moreover have "\<not> lt x y"
    using Cons.prems(2) sets unfolding ys by (metis hd_minimal list.set_intros(1))
  ultimately have "x = y"
    using Cons.prems(4) [of x y] sets by (metis list.set_intros(1))
  with Cons ys show ?case by simp
qed

end

text \<open>A comparison of a key in a linear order is such a comparison.\<close>

lemma insert_by_cong:
  "(\<And>y. y \<in> set ys \<Longrightarrow> lt y x = lt' y x) \<Longrightarrow> insert_by lt x ys = insert_by lt' x ys"
  by (induction ys) auto

lemma sort_Slice_cong:
  "distinct xs \<Longrightarrow> (\<And>a b. a \<in> set xs \<Longrightarrow> b \<in> set xs \<Longrightarrow> a \<noteq> b \<Longrightarrow> lt a b = lt' a b) \<Longrightarrow>
     sort_Slice lt xs = sort_Slice lt' xs"
proof (induction xs)
  case (Cons x xs)
  then have "sort_Slice lt xs = sort_Slice lt' xs" by auto
  moreover have "insert_by lt x (sort_Slice lt' xs) = insert_by lt' x (sort_Slice lt' xs)"
    using Cons.prems by (intro insert_by_cong) auto
  ultimately show ?case by simp
qed simp

lemma less_order_key: "less_order (\<lambda>a b. (f a :: 'b :: linorder) < f b)"
  by unfold_locales auto

lemma map_le_iff: "m \<subseteq>\<^sub>m m' \<longleftrightarrow> (\<forall>k v. m k = Some v \<longrightarrow> m' k = Some v)"
  by (metis domD domI map_le_def)

section \<open>Signed 64-bit arithmetic\<close>

text \<open>The value of an \<open>int64\<close> result: two's complement wrap-around, and division truncated to zero.\<close>

definition wrap64 :: "int \<Rightarrow> int" where
  "wrap64 x = (x + 2 ^ 63) mod 2 ^ 64 - 2 ^ 63"

definition quot :: "int \<Rightarrow> int \<Rightarrow> int" where
  "quot x y = sgn x * sgn y * (\<bar>x\<bar> div \<bar>y\<bar>)"

lemma wrap64_id: "- (2 ^ 63) \<le> x \<Longrightarrow> x < 2 ^ 63 \<Longrightarrow> wrap64 x = x"
  by (simp add: wrap64_def)

lemma wrap64_range: "- (2 ^ 63) \<le> wrap64 x \<and> wrap64 x < 2 ^ 63"
proof -
  have "0 \<le> (x + 2 ^ 63) mod 2 ^ 64" "(x + 2 ^ 63) mod 2 ^ 64 < 2 ^ 64" by simp_all
  then show ?thesis unfolding wrap64_def by simp
qed

lemma quot_nonneg: "0 \<le> x \<Longrightarrow> 0 < y \<Longrightarrow> quot x y = x div y"
  by (cases "x = 0") (simp_all add: quot_def sgn_if)

section \<open>Binary search\<close>

text \<open>\<open>sort.Search\<close>: the smallest index in \<open>[i, j)\<close> at which a monotone predicate holds.\<close>

function search_loop :: "(nat \<Rightarrow> bool) \<Rightarrow> nat \<Rightarrow> nat \<Rightarrow> nat" where
  "search_loop f i j =
     (if i < j then
        let h = (i + j) div 2 in
        if \<not> f h then search_loop f (h + 1) j else search_loop f i h
      else i)"
  by pat_completeness auto
termination by (relation "measure (\<lambda>(f, i, j). j - i)") auto

declare search_loop.simps [simp del]

definition sort_Search :: "nat \<Rightarrow> (nat \<Rightarrow> bool) \<Rightarrow> nat" where
  "sort_Search n f = search_loop f 0 n"

lemma search_loop_bounds: "i \<le> j \<Longrightarrow> i \<le> search_loop f i j \<and> search_loop f i j \<le> j"
proof (induction f i j rule: search_loop.induct)
  case (1 f i j)
  show ?case
  proof (cases "i < j")
    case True
    then have "(i + j) div 2 < j" "i \<le> (i + j) div 2" by auto
    with 1(1,2) [OF True refl] True show ?thesis
      by (subst (1 2) search_loop.simps) (auto simp: Let_def)
  next
    case False
    with 1(3) show ?thesis by (simp add: search_loop.simps)
  qed
qed

lemma search_loop_mono:
  assumes "\<And>x y. f x \<Longrightarrow> x \<le> y \<Longrightarrow> y < j \<Longrightarrow> f y" "i \<le> j"
  shows "(\<forall>x. i \<le> x \<and> x < search_loop f i j \<longrightarrow> \<not> f x) \<and>
    (\<forall>x. search_loop f i j \<le> x \<and> x < j \<longrightarrow> f x)"
  using assms
proof (induction f i j rule: search_loop.induct)
  case (1 f i j)
  show ?case
  proof (cases "i < j")
    case True
    let ?h = "(i + j) div 2"
    have h: "i \<le> ?h" "?h < j" using True by auto
    show ?thesis
    proof (cases "f ?h")
      case False
      have "x \<le> ?h \<Longrightarrow> \<not> f x" for x using 1(3) [of x ?h] h False by blast
      moreover have "search_loop f i j = search_loop f (?h + 1) j"
        by (subst search_loop.simps) (simp add: True False Let_def)
      ultimately show ?thesis
        using 1(1) [OF True refl False] 1(3) h by (metis Suc_eq_plus1 Suc_leI not_less_eq_eq)
    next
      case fh: True
      have "?h \<le> x \<Longrightarrow> x < j \<Longrightarrow> f x" for x using 1(3) fh by blast
      moreover have "search_loop f i j = search_loop f i ?h"
        by (subst search_loop.simps) (simp add: True fh Let_def)
      ultimately show ?thesis
        using 1(2) [OF True refl] fh 1(3) h by (metis less_trans not_le_imp_less)
    qed
  next
    case False
    with 1(4) have "search_loop f i j = j" by (simp add: search_loop.simps)
    with False 1(4) show ?thesis by auto
  qed
qed

lemma sort_Search_le: "sort_Search n f \<le> n"
  using search_loop_bounds [of 0 n f] by (simp add: sort_Search_def)

lemma sort_Search_mono:
  assumes "\<And>x y. f x \<Longrightarrow> x \<le> y \<Longrightarrow> y < n \<Longrightarrow> f y"
  shows "x < sort_Search n f \<Longrightarrow> \<not> f x" and "sort_Search n f \<le> x \<Longrightarrow> x < n \<Longrightarrow> f x"
  using search_loop_mono [of f n 0] assms by (auto simp: sort_Search_def)

section \<open>Errors and results\<close>

text \<open>A Go call returning a value and an error: \<open>Inl\<close> is the error.\<close>

lemma sum_case_if [simp]:
  "(case (if b then Inl x else Inr y) of Inl e \<Rightarrow> f e | Inr v \<Rightarrow> g v) = (if b then f x else g y)"
  by simp

end
