(* ===== verification/Cache_Metrics.thy ===== *)
theory Cache_Metrics
  imports Go_Prelude
begin

text \<open>
  The errors of \<open>cache/errors.go\<close>, the store options of \<open>cache/store.go\<close> and the
  metrics calls of \<open>cache/metrics.go\<close>, shared by the caches.

  Prometheus is a third-party package: the model keeps the sequence of calls that the code
  makes on the \<open>cacheMetrics\<close> object, most recent first. A cache without a registerer has no
  metrics object (\<open>None\<close>) and records nothing.
\<close>

section \<open>Errors\<close>

record CacheErrorReason =
  reason :: string
  msg :: string

definition ErrNotFound :: CacheErrorReason where
  "ErrNotFound = \<lparr>reason = ''NotFound'', msg = ''object not found''\<rparr>"

definition ErrCacheClosed :: CacheErrorReason where
  "ErrCacheClosed = \<lparr>reason = ''CacheClosed'', msg = ''cache is closed''\<rparr>"

definition ErrCacheFull :: CacheErrorReason where
  "ErrCacheFull = \<lparr>reason = ''CacheFull'', msg = ''cache is full''\<rparr>"

definition ErrInvalidSize :: CacheErrorReason where
  "ErrInvalidSize = \<lparr>reason = ''InvalidSize'', msg = ''invalid size''\<rparr>"

lemmas cache_error_defs = ErrNotFound_def ErrCacheClosed_def ErrCacheFull_def ErrInvalidSize_def

section \<open>Metrics\<close>

datatype request_status = StatusSuccess | StatusFailure

datatype cache_event_type = CacheEventTypeMiss | CacheEventTypeHit

record InvolvedObject =
  ioKind :: string
  ioName :: string
  ioNamespace :: string
  ioOperation :: string

datatype metric_call =
    IncRequests request_status
  | IncEvictions
  | DecItems
  | IncItems
  | IncEvents cache_event_type InvolvedObject
  | DelEvents cache_event_type InvolvedObject

type_synonym cacheMetrics = "metric_call list option"

definition record_call :: "metric_call \<Rightarrow> cacheMetrics \<Rightarrow> cacheMetrics" where
  "record_call c m = map_option ((#) c) m"

definition recordRequest :: "cacheMetrics \<Rightarrow> request_status \<Rightarrow> cacheMetrics" where
  "recordRequest m s = record_call (IncRequests s) m"

definition recordEviction :: "cacheMetrics \<Rightarrow> cacheMetrics" where
  "recordEviction m = record_call IncEvictions m"

definition recordDecrement :: "cacheMetrics \<Rightarrow> cacheMetrics" where
  "recordDecrement m = record_call DecItems m"

definition recordItemIncrement :: "cacheMetrics \<Rightarrow> cacheMetrics" where
  "recordItemIncrement m = record_call IncItems m"

definition recordCacheEvent :: "cacheMetrics \<Rightarrow> cache_event_type \<Rightarrow> InvolvedObject \<Rightarrow> cacheMetrics" where
  "recordCacheEvent m e obj = record_call (IncEvents e obj) m"

definition deleteCacheEvent :: "cacheMetrics \<Rightarrow> cache_event_type \<Rightarrow> InvolvedObject \<Rightarrow> cacheMetrics" where
  "deleteCacheEvent m e obj = record_call (DelEvents e obj) m"

lemmas record_defs = record_call_def recordRequest_def recordEviction_def recordDecrement_def
  recordItemIncrement_def recordCacheEvent_def deleteCacheEvent_def

text \<open>The value of the cached-items gauge after a sequence of calls.\<close>

fun items_gauge :: "metric_call list \<Rightarrow> int" where
  "items_gauge [] = 0"
| "items_gauge (IncItems # cs) = items_gauge cs + 1"
| "items_gauge (DecItems # cs) = items_gauge cs - 1"
| "items_gauge (_ # cs) = items_gauge cs"

definition gauge :: "cacheMetrics \<Rightarrow> int" where
  "gauge m = (case m of None \<Rightarrow> 0 | Some cs \<Rightarrow> items_gauge cs)"

lemma gauge_record [simp]:
  "gauge (recordRequest m s) = gauge m"
  "gauge (recordEviction m) = gauge m"
  "gauge (recordCacheEvent m e obj) = gauge m"
  "gauge (deleteCacheEvent m e obj) = gauge m"
  "gauge (recordDecrement m) = (if m = None then 0 else gauge m - 1)"
  "gauge (recordItemIncrement m) = (if m = None then 0 else gauge m + 1)"
  by (auto simp: gauge_def record_defs split: option.splits)

lemma record_None_iff [simp]:
  "recordRequest m s = None \<longleftrightarrow> m = None"
  "recordEviction m = None \<longleftrightarrow> m = None"
  "recordDecrement m = None \<longleftrightarrow> m = None"
  "recordItemIncrement m = None \<longleftrightarrow> m = None"
  "recordCacheEvent m e obj = None \<longleftrightarrow> m = None"
  by (auto simp: record_defs)

section \<open>Store options\<close>

text \<open>
  The fields of \<open>storeOptions\<close> that the caches read: the clean-up interval, whether a
  registerer is set, the maximum token duration (nanoseconds) and the involved object.
  An option is a function that updates them or fails.
\<close>

record storeOptions =
  interval :: int
  registerer :: bool
  maxDuration :: int
  involvedObject :: "InvolvedObject option"

type_synonym 'e Options = "storeOptions \<Rightarrow> 'e + storeOptions"

definition defaultInterval :: int where
  "defaultInterval = 60 * 1000000000"

definition zeroOptions :: storeOptions where
  "zeroOptions = \<lparr>interval = 0, registerer = False, maxDuration = 0, involvedObject = None\<rparr>"

text \<open>
  \<open>storeOptions.apply\<close> stops at the first failing option; the options are modified in
  place, so the caller that ignores the error keeps what was applied before it.
\<close>

fun apply_options :: "'e Options list \<Rightarrow> storeOptions \<Rightarrow> 'e option \<times> storeOptions" where
  "apply_options [] o' = (None, o')"
| "apply_options (opt # opts) o' =
     (case opt o' of Inl e \<Rightarrow> (Some e, o') | Inr o'' \<Rightarrow> apply_options opts o'')"

definition makeOptions :: "'e Options list \<Rightarrow> 'e + storeOptions" where
  "makeOptions opts =
     (case apply_options opts zeroOptions of
        (Some e, _) \<Rightarrow> Inl e
      | (None, opt) \<Rightarrow>
          Inr (if interval opt \<le> 0 then opt\<lparr>interval := defaultInterval\<rparr> else opt))"

definition WithCleanupInterval :: "int \<Rightarrow> 'e Options" where
  "WithCleanupInterval i = (\<lambda>o'. Inr (o'\<lparr>interval := i\<rparr>))"

definition WithMetricsRegisterer :: "bool \<Rightarrow> 'e Options" where
  "WithMetricsRegisterer r = (\<lambda>o'. Inr (o'\<lparr>registerer := r\<rparr>))"

definition WithMaxDuration :: "int \<Rightarrow> 'e Options" where
  "WithMaxDuration d = (\<lambda>o'. Inr (o'\<lparr>maxDuration := d\<rparr>))"

definition WithInvolvedObject :: "string \<Rightarrow> string \<Rightarrow> string \<Rightarrow> string \<Rightarrow> 'e Options" where
  "WithInvolvedObject kind name namespace operation = (\<lambda>o'. Inr (o'\<lparr>involvedObject :=
     Some \<lparr>ioKind = kind, ioName = name, ioNamespace = namespace, ioOperation = operation\<rparr>\<rparr>))"

lemma makeOptions_interval: "makeOptions opts = Inr opt \<Longrightarrow> 0 < interval opt"
  by (auto simp: makeOptions_def defaultInterval_def split: prod.splits option.splits if_splits)

end
