(* ===== verification/LRU_Cache.thy ===== *)
theory LRU_Cache
  imports Cache_Metrics
begin

text \<open>
  The least-recently-used cache of \<open>cache/lru.go\<close>: a Go map from keys to nodes and a doubly
  linked list of nodes between two sentinels. Nodes live in an explicit heap, because the
  same node is reached from the map and from its neighbours and is mutated through both.

  A \<open>None\<close> result is a nil-pointer panic. All methods run under the cache's mutex, so a
  method is one atomic step. The last section is the abstract specification, a recency list;
  theory \<open>LRU_Refinement\<close> proves that the methods implement it.
\<close>

section \<open>State\<close>

type_synonym addr = nat

record 'v node =
  val :: 'v
  key :: string
  prev :: "addr option"
  nxt :: "addr option"

type_synonym 'v heap = "addr \<Rightarrow> 'v node option"

record 'v LRU =
  cells :: "'v heap"
  fresh :: addr
  cache :: "(string, addr) gomap"
  capacity :: int
  metrics :: cacheMetrics
  head :: addr
  tail :: addr

section \<open>Heap accesses\<close>

definition deref :: "'v heap \<Rightarrow> addr option \<Rightarrow> 'v node option" where
  "deref h p = Option.bind p h"

definition addNext :: "addr option \<Rightarrow> addr option \<Rightarrow> 'v heap \<Rightarrow> 'v heap option" where
  "addNext n node h =
     (case n of None \<Rightarrow> None
      | Some a \<Rightarrow> map_option (\<lambda>nd. h(a \<mapsto> nd\<lparr>nxt := node\<rparr>)) (h a))"

definition addPrev :: "addr option \<Rightarrow> addr option \<Rightarrow> 'v heap \<Rightarrow> 'v heap option" where
  "addPrev n node h =
     (case n of None \<Rightarrow> None
      | Some a \<Rightarrow> map_option (\<lambda>nd. h(a \<mapsto> nd\<lparr>prev := node\<rparr>)) (h a))"

definition alloc :: "string \<Rightarrow> 'v \<Rightarrow> 'v LRU \<Rightarrow> addr \<times> 'v LRU" where
  "alloc k v c =
     (fresh c, c\<lparr>cells := (cells c)(fresh c \<mapsto> \<lparr>val = v, key = k, prev = None, nxt = None\<rparr>),
                 fresh := Suc (fresh c)\<rparr>)"

section \<open>Operations\<close>

definition NewLRU :: "'v \<Rightarrow> int \<Rightarrow> 'e Options list \<Rightarrow> 'e + 'v LRU" where
  "NewLRU zero cap opts =
     (case makeOptions opts of
        Inl e \<Rightarrow> Inl e
      | Inr opt \<Rightarrow>
          Inr \<lparr>cells = [0 \<mapsto> \<lparr>val = zero, key = [], prev = None, nxt = Some 1\<rparr>,
                        1 \<mapsto> \<lparr>val = zero, key = [], prev = Some 0, nxt = None\<rparr>],
               fresh = 2, cache = [], capacity = cap,
               metrics = (if registerer opt then Some [] else None), head = 0, tail = 1\<rparr>)"

definition LRU_delete :: "addr option \<Rightarrow> 'v LRU \<Rightarrow> 'v LRU option" where
  "LRU_delete node c = do {
     nd \<leftarrow> deref (cells c) node;
     h1 \<leftarrow> addNext (prev nd) (nxt nd) (cells c);
     h2 \<leftarrow> addPrev (nxt nd) (prev nd) h1;
     h3 \<leftarrow> addNext node None h2;
     h4 \<leftarrow> addPrev node None h3;
     Some (c\<lparr>cells := h4, cache := AList.delete (key nd) (cache c)\<rparr>)
   }"

definition LRU_add :: "addr \<Rightarrow> 'v LRU \<Rightarrow> (bool \<times> 'v LRU) option" where
  "LRU_add node c = do {
     tl' \<leftarrow> deref (cells c) (Some (tail c));
     h1 \<leftarrow> addNext (prev tl') (Some node) (cells c);
     h2 \<leftarrow> addPrev (Some (tail c)) (Some node) h1;
     h3 \<leftarrow> addPrev (Some node) (prev tl') h2;
     h4 \<leftarrow> addNext (Some node) (Some (tail c)) h3;
     nd \<leftarrow> deref h4 (Some node);
     let c1 = c\<lparr>cells := h4, cache := AList.update (key nd) node (cache c)\<rparr>;
     if int (length (cache c1)) > capacity c1 then do {
       hd' \<leftarrow> deref (cells c1) (Some (head c1));
       c2 \<leftarrow> LRU_delete (nxt hd') c1;
       Some (True, c2)
     } else Some (False, c1)
   }"

definition LRU_Set :: "string \<Rightarrow> 'v \<Rightarrow> 'v LRU \<Rightarrow> (CacheErrorReason option \<times> 'v LRU) option" where
  "LRU_Set k v c =
     (case map_of (cache c) k of
        Some n \<Rightarrow> do {
          c1 \<leftarrow> LRU_delete (Some n) c;
          let (a, c2) = alloc k v c1;
          (_, c3) \<leftarrow> LRU_add a c2;
          Some (None, c3\<lparr>metrics := recordRequest (metrics c3) StatusSuccess\<rparr>)
        }
      | None \<Rightarrow> do {
          let (a, c1) = alloc k v c;
          (evicted, c2) \<leftarrow> LRU_add a c1;
          let c3 = c2\<lparr>metrics := recordRequest (metrics c2) StatusSuccess\<rparr>;
          if evicted then Some (None, c3\<lparr>metrics := recordEviction (metrics c3)\<rparr>)
          else Some (None, c3\<lparr>metrics := recordItemIncrement (metrics c3)\<rparr>)
        })"

definition LRU_Get :: "string \<Rightarrow> 'v LRU \<Rightarrow> ((CacheErrorReason + 'v) \<times> 'v LRU) option" where
  "LRU_Get k c =
     (case map_of (cache c) k of
        None \<Rightarrow> Some (Inl ErrNotFound, c\<lparr>metrics := recordRequest (metrics c) StatusSuccess\<rparr>)
      | Some n \<Rightarrow> do {
          c1 \<leftarrow> LRU_delete (Some n) c;
          (_, c2) \<leftarrow> LRU_add n c1;
          nd \<leftarrow> deref (cells c2) (Some n);
          Some (Inr (val nd), c2\<lparr>metrics := recordRequest (metrics c2) StatusSuccess\<rparr>)
        })"

definition LRU_Delete :: "string \<Rightarrow> 'v LRU \<Rightarrow> (CacheErrorReason option \<times> 'v LRU) option" where
  "LRU_Delete k c = do {
     hd' \<leftarrow> deref (cells c) (Some (head c));
     tl' \<leftarrow> deref (cells c) (Some (tail c));
     if k = key hd' \<or> k = key tl' then
       Some (None, c\<lparr>metrics := recordRequest (metrics c) StatusSuccess\<rparr>)
     else (case map_of (cache c) k of
         None \<Rightarrow> Some (None, c\<lparr>metrics := recordRequest (metrics c) StatusSuccess\<rparr>)
       | Some n \<Rightarrow> do {
           c1 \<leftarrow> LRU_delete (Some n) c;
           Some (None, c1\<lparr>metrics :=
             recordDecrement (recordRequest (metrics c1) StatusSuccess)\<rparr>)
         })
   }"

definition LRU_ListKeys :: "'v LRU \<Rightarrow> string list \<times> 'v LRU" where
  "LRU_ListKeys c =
     (map fst (cache c), c\<lparr>metrics := recordRequest (metrics c) StatusSuccess\<rparr>)"

text \<open>The eviction loop of \<open>Resize\<close>: \<open>n\<close> rounds of removing the front node.\<close>

fun LRU_evict :: "nat \<Rightarrow> 'v LRU \<Rightarrow> 'v LRU option" where
  "LRU_evict 0 c = Some c"
| "LRU_evict (Suc n) c = do {
     hd' \<leftarrow> deref (cells c) (Some (head c));
     c1 \<leftarrow> LRU_delete (nxt hd') c;
     LRU_evict n (c1\<lparr>metrics := recordEviction (metrics c1)\<rparr>)
   }"

definition LRU_Resize :: "int \<Rightarrow> 'v LRU \<Rightarrow> ((CacheErrorReason + int) \<times> 'v LRU) option" where
  "LRU_Resize size' c =
     (if size' \<le> 0 then
        Some (Inl ErrInvalidSize, c\<lparr>metrics := recordRequest (metrics c) StatusFailure\<rparr>)
      else
        let overflow = int (length (cache c)) - size'; c1 = c\<lparr>capacity := size'\<rparr> in
        if overflow \<le> 0 then
          Some (Inr 0, c1\<lparr>metrics := recordRequest (metrics c1) StatusSuccess\<rparr>)
        else do {
          c2 \<leftarrow> LRU_evict (nat overflow) c1;
          Some (Inr overflow, c2\<lparr>metrics := recordRequest (metrics c2) StatusSuccess\<rparr>)
        })"

text \<open>
  \<open>GetIfOrSet\<close>: the caller's \<open>condition\<close> and \<open>fetch\<close> are parameters; \<open>fetch\<close>
  is the result its one call would give (an error or a value). The deferred function records
  the metrics: it applies the options, ignoring their error, for the involved object. Its debug
  logging is left out.
\<close>

definition LRU_finish ::
  "'e Options list \<Rightarrow> bool \<Rightarrow> bool \<Rightarrow> bool \<Rightarrow> bool \<Rightarrow> 'v LRU \<Rightarrow> 'v LRU" where
  "LRU_finish opts failed ok existed evicted c =
     (let o' = snd (apply_options opts zeroOptions);
          m1 = recordRequest (metrics c) (if failed then StatusFailure else StatusSuccess);
          m2 = (case involvedObject o' of None \<Rightarrow> m1
                | Some ob \<Rightarrow> recordCacheEvent m1 (if ok then CacheEventTypeHit else CacheEventTypeMiss) ob);
          m3 = (if evicted then recordEviction m2
                else if \<not> existed \<and> \<not> failed then recordItemIncrement m2 else m2)
      in c\<lparr>metrics := m3\<rparr>)"

definition LRU_GetIfOrSet ::
  "string \<Rightarrow> ('v \<Rightarrow> bool) \<Rightarrow> ('e + 'v) \<Rightarrow> 'e Options list \<Rightarrow> 'v LRU \<Rightarrow>
     (('e + 'v \<times> bool) \<times> 'v LRU) option" where
  "LRU_GetIfOrSet k cond fetch opts c = do {
     (hit, c1) \<leftarrow> (case map_of (cache c) k of
         None \<Rightarrow> Some (None, c)
       | Some n \<Rightarrow> do {
           c1 \<leftarrow> LRU_delete (Some n) c;
           nd \<leftarrow> deref (cells c1) (Some n);
           if cond (val nd) then do { (_, c2) \<leftarrow> LRU_add n c1; Some (Some (val nd), c2) }
           else Some (None, c1)
         });
     let existed = (map_of (cache c) k \<noteq> None);
     case hit of
       Some v \<Rightarrow> Some (Inr (v, True), LRU_finish opts False True existed False c1)
     | None \<Rightarrow>
         (case fetch of
            Inl e \<Rightarrow> Some (Inl e, LRU_finish opts True False existed False c1)
          | Inr v \<Rightarrow> do {
              let (a, c2) = alloc k v c1;
              (evicted, c3) \<leftarrow> LRU_add a c2;
              Some (Inr (v, False), LRU_finish opts False False existed evicted c3)
            })
   }"

section \<open>Abstract specification\<close>

text \<open>A recency list of entries, least recently used first, with distinct keys.\<close>

type_synonym 'v alru = "(string \<times> 'v) list"

definition alru_del :: "string \<Rightarrow> 'v alru \<Rightarrow> 'v alru" where
  "alru_del k xs = filter (\<lambda>p. fst p \<noteq> k) xs"

definition alru_push :: "int \<Rightarrow> string \<Rightarrow> 'v \<Rightarrow> 'v alru \<Rightarrow> bool \<times> 'v alru" where
  "alru_push cap k v xs =
     (let ys = xs @ [(k, v)] in if int (length ys) > cap then (True, tl ys) else (False, ys))"

definition alru_set :: "int \<Rightarrow> string \<Rightarrow> 'v \<Rightarrow> 'v alru \<Rightarrow> 'v alru" where
  "alru_set cap k v xs = snd (alru_push cap k v (alru_del k xs))"

definition alru_get_if_or_set ::
  "int \<Rightarrow> string \<Rightarrow> ('v \<Rightarrow> bool) \<Rightarrow> ('e + 'v) \<Rightarrow> 'v alru \<Rightarrow> ('e + 'v \<times> bool) \<times> 'v alru" where
  "alru_get_if_or_set cap k cond fetch xs =
     (case map_of xs k of
        Some v \<Rightarrow>
          if cond v then (Inr (v, True), alru_del k xs @ [(k, v)])
          else (case fetch of Inl e \<Rightarrow> (Inl e, alru_del k xs)
                | Inr w \<Rightarrow> (Inr (w, False), alru_set cap k w xs))
      | None \<Rightarrow>
          (case fetch of Inl e \<Rightarrow> (Inl e, xs)
           | Inr w \<Rightarrow> (Inr (w, False), alru_set cap k w xs)))"

end
