(* ===== verification/LRU_Refinement.thy ===== *)
theory LRU_Refinement
  imports LRU_Cache
begin

text \<open>
  The methods of \<open>cache/lru.go\<close> implement the recency list of \<open>LRU_Cache\<close>.

  \<open>lru_rep c xs\<close> says that the heap structure of \<open>c\<close> (sentinels, forward and backward
  links, map) represents the list \<open>xs\<close> of entries, least recently used first. Every method is
  shown not to panic on a represented state and to act on \<open>xs\<close> as the abstract operations
  do; the items gauge is followed along (\<open>lru_sim\<close>).
\<close>

section \<open>Heap structure\<close>

text \<open>The heap is read through three functions: successor, predecessor and entry of a cell.\<close>

definition nx :: "'v heap \<Rightarrow> addr \<Rightarrow> addr option" where
  "nx h a = Option.bind (h a) nxt"

definition pv :: "'v heap \<Rightarrow> addr \<Rightarrow> addr option" where
  "pv h a = Option.bind (h a) prev"

definition ent :: "'v heap \<Rightarrow> addr \<Rightarrow> (string \<times> 'v) option" where
  "ent h a = map_option (\<lambda>n. (key n, val n)) (h a)"

fun linked :: "(addr \<Rightarrow> addr option) \<Rightarrow> (addr \<Rightarrow> addr option) \<Rightarrow> addr list \<Rightarrow> bool" where
  "linked f g (a # b # as) = (f a = Some b \<and> g b = Some a \<and> linked f g (b # as))"
| "linked f g _ = True"

lemma linked_append:
  "linked f g (xs @ a # ys) \<longleftrightarrow> linked f g (xs @ [a]) \<and> linked f g (a # ys)"
  by (induction xs rule: induct_list012) auto

lemma linked_frame:
  assumes "\<And>x. x \<in> set (butlast xs) \<Longrightarrow> f x = f' x" "\<And>x. x \<in> set (tl xs) \<Longrightarrow> g x = g' x"
  shows "linked f g xs = linked f' g' xs"
  using assms by (induction xs rule: induct_list012) auto

text \<open>Unlinking a middle cell, and inserting a cell before the last one.\<close>

lemma linked_unlink:
  assumes "linked f g (xs @ p # a # n # ys)" "distinct (xs @ p # a # n # ys)"
  shows "linked (f(p := Some n, a := None)) (g(n := Some p, a := None)) (xs @ p # n # ys)"
proof -
  let ?f = "f(p := Some n, a := None)" and ?g = "g(n := Some p, a := None)"
  have "linked f g (xs @ [p])" "linked f g (n # ys)"
    using assms(1) by (simp_all add: linked_append [of f g xs p "a # n # ys"])
  moreover have "linked ?f ?g (xs @ [p]) = linked f g (xs @ [p])"
    using assms(2) by (intro linked_frame) (auto simp: butlast_append dest: list.set_sel(2) [rotated] split: if_splits)
  moreover have "linked ?f ?g (n # ys) = linked f g (n # ys)"
    using assms(2) by (intro linked_frame) (auto dest: in_set_butlastD split: if_splits)
  ultimately show ?thesis
    using assms(2) by (auto simp: linked_append [of ?f ?g xs p "n # ys"])
qed

lemma linked_insert:
  assumes "linked f g (xs @ [p, t])" "distinct (xs @ [p, t])" "a \<notin> set (xs @ [p, t])"
  shows "linked (f(p := Some a, a := Some t)) (g(t := Some a, a := Some p)) (xs @ [p, a, t])"
proof -
  let ?f = "f(p := Some a, a := Some t)" and ?g = "g(t := Some a, a := Some p)"
  have "linked f g (xs @ [p])"
    using assms(1) by (simp add: linked_append [of f g xs p "[t]"])
  moreover have "linked ?f ?g (xs @ [p]) = linked f g (xs @ [p])"
    using assms(2,3) by (intro linked_frame) (auto simp: butlast_append dest: list.set_sel(2) [rotated] split: if_splits)
  ultimately show ?thesis
    using assms(2,3) by (auto simp: linked_append [of ?f ?g xs p "[a, t]"])
qed

lemma linked_neighbours:
  assumes "linked f g (xs @ p # a # n # ys)"
  shows "f a = Some n" "g a = Some p"
  using assms by (simp_all add: linked_append [of f g xs p "a # n # ys"])

lemma addNext_ok:
  assumes "ent h a \<noteq> None"
  shows "\<exists>h'. addNext (Some a) q h = Some h' \<and> nx h' = (nx h)(a := q) \<and>
     pv h' = pv h \<and> ent h' = ent h"
proof -
  from assms obtain nd where "h a = Some nd" by (auto simp: ent_def)
  then show ?thesis
    by (intro exI [of _ "h(a \<mapsto> nd\<lparr>nxt := q\<rparr>)"])
      (auto simp: addNext_def ent_def nx_def pv_def fun_eq_iff)
qed

lemma addPrev_ok:
  assumes "ent h a \<noteq> None"
  shows "\<exists>h'. addPrev (Some a) q h = Some h' \<and> pv h' = (pv h)(a := q) \<and>
     nx h' = nx h \<and> ent h' = ent h"
proof -
  from assms obtain nd where "h a = Some nd" by (auto simp: ent_def)
  then show ?thesis
    by (intro exI [of _ "h(a \<mapsto> nd\<lparr>prev := q\<rparr>)"])
      (auto simp: addPrev_def ent_def nx_def pv_def fun_eq_iff)
qed

lemma deref_ok:
  "ent h a = Some (k, v) \<Longrightarrow> \<exists>nd. deref h (Some a) = Some nd \<and> key nd = k \<and> val nd = v \<and>
     nxt nd = nx h a \<and> prev nd = pv h a"
  by (auto simp: ent_def deref_def nx_def pv_def)

section \<open>Representation\<close>

text \<open>
  \<open>lru_cells c as\<close>: the cells \<open>as\<close> form the list between the sentinels, the map is the
  inverse of their keys, and the allocation pointer is above every used cell.
\<close>

definition lru_cells :: "'v LRU \<Rightarrow> addr list \<Rightarrow> bool" where
  "lru_cells c as \<longleftrightarrow>
     distinct (head c # as @ [tail c]) \<and>
     linked (nx (cells c)) (pv (cells c)) (head c # as @ [tail c]) \<and>
     (\<forall>a \<in> set (head c # as @ [tail c]). a < fresh c \<and> ent (cells c) a \<noteq> None) \<and>
     map_option fst (ent (cells c) (head c)) = Some [] \<and>
     map_option fst (ent (cells c) (tail c)) = Some [] \<and>
     keys_distinct (cache c) \<and>
     set (cache c) = (\<lambda>a. (fst (the (ent (cells c) a)), a)) ` set as"

definition entries :: "'v LRU \<Rightarrow> addr list \<Rightarrow> 'v alru" where
  "entries c as = map (\<lambda>a. the (ent (cells c) a)) as"

definition lru_rep :: "'v LRU \<Rightarrow> 'v alru \<Rightarrow> bool" where
  "lru_rep c xs \<longleftrightarrow> (\<exists>as. lru_cells c as \<and> xs = entries c as) \<and>
     int (length xs) \<le> max 0 (capacity c)"

lemma lru_cellsD:
  assumes "lru_cells c as"
  shows "distinct (head c # as @ [tail c])"
    and "linked (nx (cells c)) (pv (cells c)) (head c # as @ [tail c])"
    and "\<And>a. a \<in> set (head c # as @ [tail c]) \<Longrightarrow> a < fresh c \<and> ent (cells c) a \<noteq> None"
    and "keys_distinct (cache c)"
    and "set (cache c) = (\<lambda>a. (fst (the (ent (cells c) a)), a)) ` set as"
  using assms by (auto simp: lru_cells_def)

lemma lru_cells_metrics [simp]: "lru_cells (c\<lparr>metrics := m\<rparr>) as = lru_cells c as"
  by (simp add: lru_cells_def)

lemma lru_cells_capacity [simp]: "lru_cells (c\<lparr>capacity := n\<rparr>) as = lru_cells c as"
  by (simp add: lru_cells_def)

lemma entries_metrics [simp]:
  "entries (c\<lparr>metrics := m\<rparr>) as = entries c as" "entries (c\<lparr>capacity := n\<rparr>) as = entries c as"
  by (simp_all add: entries_def)

lemma entries_simps [simp]:
  "length (entries c as) = length as" "entries c [] = []"
  "entries c (a # as) = the (ent (cells c) a) # entries c as"
  "entries c (as @ bs) = entries c as @ entries c bs"
  by (simp_all add: entries_def)

lemma lru_cells_length: "lru_cells c as \<Longrightarrow> length (cache c) = length as"
proof -
  assume c: "lru_cells c as"
  have "length (cache c) = card (set (cache c))"
    using lru_cellsD(4) [OF c] by (metis distinct_card distinct_map)
  also have "\<dots> = card (set as)"
    using lru_cellsD(5) [OF c] by (auto simp: inj_on_def intro: card_image)
  finally show ?thesis using lru_cellsD(1) [OF c] by (simp add: distinct_card)
qed

lemma lru_cells_lookup:
  "lru_cells c as \<Longrightarrow>
     map_of (cache c) k = Some a \<longleftrightarrow> a \<in> set as \<and> fst (the (ent (cells c) a)) = k"
  using lru_cellsD(4,5) [of c as] by (auto simp: map_of_iff_set)

lemma lru_cells_keys: "lru_cells c as \<Longrightarrow> fst ` set (cache c) = fst ` set (entries c as)"
  using lru_cellsD(5) [of c as] by (simp add: entries_def image_image)

lemma lru_cells_inj:
  assumes "lru_cells c as" "a \<in> set as" "b \<in> set as"
    and "fst (the (ent (cells c) a)) = fst (the (ent (cells c) b))"
  shows "a = b"
  using lru_cells_lookup [OF assms(1)] assms(2-4) by (metis option.inject)

lemma lru_cells_distinct_keys: "lru_cells c as \<Longrightarrow> keys_distinct (entries c as)"
  using lru_cellsD(1) [of c as] lru_cells_inj [of c as]
  by (auto simp: entries_def distinct_map inj_on_def)

lemma lru_cells_change:
  assumes "lru_cells c as" "ent h = ent (cells c)"
    and "distinct (head c # bs @ [tail c])" "linked (nx h) (pv h) (head c # bs @ [tail c])"
    and "\<And>a. a \<in> set bs \<Longrightarrow> a < fresh c \<and> ent (cells c) a \<noteq> None"
    and "keys_distinct m" "set m = (\<lambda>a. (fst (the (ent (cells c) a)), a)) ` set bs"
  shows "lru_cells (c\<lparr>cells := h, cache := m\<rparr>) bs"
  using assms unfolding lru_cells_def by (simp del: append.simps)

text \<open>What the list operations leave alone.\<close>

definition same_frame :: "'v LRU \<Rightarrow> 'v LRU \<Rightarrow> bool" where
  "same_frame c c' \<longleftrightarrow> ent (cells c') = ent (cells c) \<and> capacity c' = capacity c \<and>
     metrics c' = metrics c \<and> fresh c' = fresh c \<and> head c' = head c \<and> tail c' = tail c"

lemma same_frame_entries: "same_frame c c' \<Longrightarrow> entries c' as = entries c as"
  by (simp add: same_frame_def entries_def)

text \<open>Removing a cell: no panic, and the list loses exactly that cell.\<close>

lemma LRU_delete_ok:
  assumes c: "lru_cells c (as @ a # bs)"
  obtains c' where "LRU_delete (Some a) c = Some c'" "lru_cells c' (as @ bs)" "same_frame c c'"
    "cache c' = AList.delete (fst (the (ent (cells c) a))) (cache c)"
proof -
  obtain xs p where xs: "head c # as = xs @ [p]" by (metis list.distinct(1) rev_exhaust)
  obtain n ys where ys: "bs @ [tail c] = n # ys" by (cases bs) auto
  have L: "head c # (as @ a # bs) @ [tail c] = xs @ p # a # n # ys"
    using xs ys by (metis Cons_eq_appendI append_Cons append_assoc append_Nil)
  have L': "head c # (as @ bs) @ [tail c] = xs @ p # n # ys"
    using xs ys by (metis Cons_eq_appendI append_Cons append_assoc append_Nil)
  note D = lru_cellsD [OF c, unfolded L]
  obtain k v where kv: "ent (cells c) a = Some (k, v)" using D(3) [of a] by auto
  note nb = linked_neighbours [OF D(2)]
  obtain nd where nd: "deref (cells c) (Some a) = Some nd" "key nd = k" "nxt nd = Some n"
    "prev nd = Some p"
    using nb deref_ok [OF kv] by auto
  obtain h1 where h1: "addNext (Some p) (Some n) (cells c) = Some h1"
    "nx h1 = (nx (cells c))(p := Some n)" "pv h1 = pv (cells c)" "ent h1 = ent (cells c)"
    using addNext_ok [of "cells c" p "Some n"] D(3) [of p] by auto
  obtain h2 where h2: "addPrev (Some n) (Some p) h1 = Some h2"
    "pv h2 = (pv h1)(n := Some p)" "nx h2 = nx h1" "ent h2 = ent h1"
    using addPrev_ok [of h1 n "Some p"] D(3) [of n] h1(4) by auto
  obtain h3 where h3: "addNext (Some a) None h2 = Some h3"
    "nx h3 = (nx h2)(a := None)" "pv h3 = pv h2" "ent h3 = ent h2"
    using addNext_ok [of h2 a None] kv h1(4) h2(4) by auto
  obtain h4 where h4: "addPrev (Some a) None h3 = Some h4"
    "pv h4 = (pv h3)(a := None)" "nx h4 = nx h3" "ent h4 = ent h3"
    using addPrev_ok [of h3 a None] kv h1(4) h2(4) h3(4) by auto
  note heaps = h1 h2 h3 h4
  let ?c = "c\<lparr>cells := h4, cache := AList.delete k (cache c)\<rparr>"
  have E: "ent h4 = ent (cells c)" using heaps by simp
  have "LRU_delete (Some a) c = Some ?c"
    using nd heaps by (simp add: LRU_delete_def)
  moreover have "lru_cells ?c (as @ bs)"
  proof (rule lru_cells_change [OF c E])
    show "distinct (head c # (as @ bs) @ [tail c])"
      using lru_cellsD(1) [OF c] by auto
    show "linked (nx h4) (pv h4) (head c # (as @ bs) @ [tail c])"
      unfolding L' using linked_unlink [OF D(2,1)] heaps by simp
    show "x < fresh c \<and> ent (cells c) x \<noteq> None" if "x \<in> set (as @ bs)" for x
      using lru_cellsD(3) [OF c, of x] that by auto
    show "keys_distinct (AList.delete k (cache c))"
      using D(4) by (rule distinct_delete)
    show "set (AList.delete k (cache c)) =
        (\<lambda>a. (fst (the (ent (cells c) a)), a)) ` set (as @ bs)"
      using lru_cells_inj [OF c, of _ a] kv lru_cellsD(1) [OF c]
      by (auto simp: set_delete D(5)) force+
  qed
  ultimately show ?thesis
    using kv E by (intro that [of ?c]) (simp_all add: same_frame_def)
qed

lemma LRU_front:
  assumes "lru_cells c (a # as)"
  obtains hd' where "deref (cells c) (Some (head c)) = Some hd'" "nxt hd' = Some a"
proof -
  from assms have "nx (cells c) (head c) = Some a" "ent (cells c) (head c) \<noteq> None"
    by (auto simp: lru_cells_def)
  then show ?thesis using deref_ok [of "cells c" "head c"] that by auto
qed

text \<open>Linking a detached cell at the back, before any eviction.\<close>

lemma LRU_link_ok:
  assumes c: "lru_cells c as" and a: "a \<notin> set (head c # as @ [tail c])" "a < fresh c"
    and kv: "ent (cells c) a = Some (k, v)" and k: "k \<notin> fst ` set (cache c)"
  obtains h c1 where
    "LRU_add a c = (if int (length (cache c1)) > capacity c1 then do {
       hd' \<leftarrow> deref (cells c1) (Some (head c1));
       c2 \<leftarrow> LRU_delete (nxt hd') c1;
       Some (True, c2)
     } else Some (False, c1))"
    "c1 = c\<lparr>cells := h, cache := AList.update k a (cache c)\<rparr>"
    "ent h = ent (cells c)" "lru_cells c1 (as @ [a])"
proof -
  obtain xs p where xs: "head c # as = xs @ [p]" by (metis list.distinct(1) rev_exhaust)
  let ?t = "tail c"
  have L: "head c # as @ [?t] = xs @ [p, ?t]" "head c # (as @ [a]) @ [?t] = xs @ [p, a, ?t]"
    using arg_cong [OF xs, of "\<lambda>l. l @ [?t]"] arg_cong [OF xs, of "\<lambda>l. l @ [a, ?t]"] by simp_all
  note D = lru_cellsD [OF c, unfolded L(1)]
  have pt: "pv (cells c) ?t = Some p"
    using D(2) by (simp add: linked_append [of _ _ xs p "[?t]"])
  obtain tk tv where t: "ent (cells c) ?t = Some (tk, tv)" using D(3) [of ?t] by auto
  obtain td where td: "deref (cells c) (Some ?t) = Some td" "prev td = Some p"
    using pt deref_ok [OF t] by auto
  obtain h1 where h1: "addNext (Some p) (Some a) (cells c) = Some h1"
    "nx h1 = (nx (cells c))(p := Some a)" "pv h1 = pv (cells c)" "ent h1 = ent (cells c)"
    using addNext_ok [of "cells c" p "Some a"] D(3) [of p] by auto
  obtain h2 where h2: "addPrev (Some ?t) (Some a) h1 = Some h2"
    "pv h2 = (pv h1)(?t := Some a)" "nx h2 = nx h1" "ent h2 = ent h1"
    using addPrev_ok [of h1 ?t "Some a"] t h1(4) by auto
  obtain h3 where h3: "addPrev (Some a) (Some p) h2 = Some h3"
    "pv h3 = (pv h2)(a := Some p)" "nx h3 = nx h2" "ent h3 = ent h2"
    using addPrev_ok [of h2 a "Some p"] kv h1(4) h2(4) by auto
  obtain h4 where h4: "addNext (Some a) (Some ?t) h3 = Some h4"
    "nx h4 = (nx h3)(a := Some ?t)" "pv h4 = pv h3" "ent h4 = ent h3"
    using addNext_ok [of h3 a "Some ?t"] kv h1(4) h2(4) h3(4) by auto
  note heaps = h1 h2 h3 h4
  have E: "ent h4 = ent (cells c)" using heaps by simp
  obtain nd where nd: "deref h4 (Some a) = Some nd" "key nd = k"
    using deref_ok [of h4 a k v] kv E by auto
  let ?c = "c\<lparr>cells := h4, cache := AList.update k a (cache c)\<rparr>"
  have add: "LRU_add a c = (if int (length (cache ?c)) > capacity ?c then do {
       hd' \<leftarrow> deref (cells ?c) (Some (head ?c));
       c2 \<leftarrow> LRU_delete (nxt hd') ?c;
       Some (True, c2)
     } else Some (False, ?c))"
    using td nd heaps by (simp add: LRU_add_def Let_def)
  have "lru_cells ?c (as @ [a])"
  proof (rule lru_cells_change [OF c E])
    show "distinct (head c # (as @ [a]) @ [tail c])"
      using lru_cellsD(1) [OF c] a by auto
    show "linked (nx h4) (pv h4) (head c # (as @ [a]) @ [tail c])"
      unfolding L(2) using linked_insert [OF D(2,1)] a L(1) heaps by simp
    show "x < fresh c \<and> ent (cells c) x \<noteq> None" if "x \<in> set (as @ [a])" for x
      using lru_cellsD(3) [OF c, of x] a kv that by auto
    show "keys_distinct (AList.update k a (cache c))"
      using D(4) by (rule distinct_update)
    show "set (AList.update k a (cache c)) =
        (\<lambda>a. (fst (the (ent (cells c) a)), a)) ` set (as @ [a])"
      using k kv by (auto simp: set_update_keys [OF D(4)] D(5))
  qed
  from that [OF add refl E this] show ?thesis .
qed

lemma alru_del_absent: "k \<notin> fst ` set xs \<Longrightarrow> alru_del k xs = xs"
  by (auto simp: alru_del_def filter_id_conv)

lemma alru_del_middle:
  assumes "keys_distinct (xs @ (k, v) # ys)"
  shows "alru_del k (xs @ (k, v) # ys) = xs @ ys"
proof -
  have "alru_del k (xs @ (k, v) # ys) = alru_del k xs @ alru_del k ys"
    by (simp add: alru_del_def)
  moreover from assms have "k \<notin> fst ` set xs" "k \<notin> fst ` set ys" by auto
  ultimately show ?thesis by (metis alru_del_absent)
qed

text \<open>Unlinking the cell the map gives for a key.\<close>

lemma LRU_delete_key:
  assumes c: "lru_cells c as" and k: "map_of (cache c) k = Some a"
  obtains c' bs v where "LRU_delete (Some a) c = Some c'" "lru_cells c' bs" "same_frame c c'"
    "entries c' bs = alru_del k (entries c as)" "ent (cells c') a = Some (k, v)"
    "map_of (entries c as) k = Some v" "k \<notin> fst ` set (cache c')"
    "a \<notin> set (head c' # bs @ [tail c'])" "a < fresh c'" "Suc (length bs) = length as"
proof -
  from k lru_cells_lookup [OF c] have a: "a \<in> set as" "fst (the (ent (cells c) a)) = k" by auto
  then obtain xs ys where as: "as = xs @ a # ys" by (meson split_list)
  obtain v where v: "ent (cells c) a = Some (k, v)"
    using lru_cellsD(3) [OF c, of a] a by (auto simp: fst_def split: prod.splits)
  obtain c' where c': "LRU_delete (Some a) c = Some c'" "lru_cells c' (xs @ ys)"
    "same_frame c c'" "cache c' = AList.delete k (cache c)"
    using LRU_delete_ok [OF c [unfolded as]] a(2) by metis
  have E: "entries c as = entries c xs @ (k, v) # entries c ys" using v as by simp
  have dk: "keys_distinct (entries c xs @ (k, v) # entries c ys)"
    using lru_cells_distinct_keys [OF c] E by metis
  show ?thesis
  proof (rule that [OF c'(1-3)])
    show "entries c' (xs @ ys) = alru_del k (entries c as)"
      using alru_del_middle [OF dk] same_frame_entries [OF c'(3)] by (simp add: E)
    show "map_of (entries c as) k = Some v"
      unfolding E using dk by (subst map_of_eq_Some_iff) auto
    show "k \<notin> fst ` set (cache c')" by (simp add: c'(4) keys_delete)
    show "a \<notin> set (head c' # (xs @ ys) @ [tail c'])" "Suc (length (xs @ ys)) = length as"
      using lru_cellsD(1) [OF c] as c'(3) by (auto simp: same_frame_def)
    show "a < fresh c'" "ent (cells c') a = Some (k, v)"
      using lru_cellsD(3) [OF c, of a] a v c'(3) by (simp_all add: same_frame_def)
  qed
qed

text \<open>Appending a cell, with the eviction of the front cell when the capacity is exceeded.\<close>

lemma LRU_add_ok:
  assumes c: "lru_cells c as" "a \<notin> set (head c # as @ [tail c])" "a < fresh c"
    "ent (cells c) a = Some (k, v)" "k \<notin> fst ` set (cache c)"
  obtains ev c' bs where "LRU_add a c = Some (ev, c')" "lru_cells c' bs" "same_frame c c'"
    "alru_push (capacity c) k v (entries c as) = (ev, entries c' bs)"
proof -
  obtain h c1 where add: "LRU_add a c = (if int (length (cache c1)) > capacity c1 then do {
       hd' \<leftarrow> deref (cells c1) (Some (head c1));
       c2 \<leftarrow> LRU_delete (nxt hd') c1;
       Some (True, c2)
     } else Some (False, c1))"
    and c1: "c1 = c\<lparr>cells := h, cache := AList.update k a (cache c)\<rparr>" "ent h = ent (cells c)"
      "lru_cells c1 (as @ [a])"
    using LRU_link_ok [OF c] by metis
  have fr: "same_frame c c1" using c1 by (simp add: same_frame_def)
  have E: "entries c1 (as @ [a]) = entries c as @ [(k, v)]"
    using same_frame_entries [OF fr, of as] c(4) fr by (simp add: same_frame_def)
  have len: "int (length (cache c1)) = int (length (entries c as @ [(k, v)]))"
    using lru_cells_length [OF c1(3)] by simp
  have cap: "capacity c1 = capacity c" using c1 by simp
  show ?thesis
  proof (cases "int (length (cache c1)) > capacity c1")
    case False
    then show ?thesis
      using that [of False c1 "as @ [a]"] add c1(3) fr E len cap by (simp add: alru_push_def)
  next
    case True
    obtain b bs where bs: "as @ [a] = b # bs" by (cases as) auto
    note cb = c1(3) [unfolded bs]
    obtain hd' where hd: "deref (cells c1) (Some (head c1)) = Some hd'" "nxt hd' = Some b"
      using LRU_front [OF cb] by blast
    obtain c2 where c2: "LRU_delete (Some b) c1 = Some c2" "lru_cells c2 bs" "same_frame c1 c2"
      using LRU_delete_ok [of c1 "[]" b bs] cb by (metis append_Nil)
    have fr2: "same_frame c c2" using fr c2(3) by (simp add: same_frame_def)
    have "tl (entries c as @ [(k, v)]) = entries c2 bs"
      using E bs same_frame_entries [OF c2(3)] by (metis entries_simps(3) list.sel(3))
    then show ?thesis
      using that [of True c2 bs] add True hd c2 fr2 len cap by (simp add: alru_push_def)
  qed
qed

text \<open>A fresh cell.\<close>

lemma alloc_ok:
  assumes c: "lru_cells c as" and al: "alloc k v c = (a, c1)"
  shows "lru_cells c1 as" "a \<notin> set (head c1 # as @ [tail c1])" "a < fresh c1"
    "ent (cells c1) a = Some (k, v)" "cache c1 = cache c" "entries c1 as = entries c as"
    "capacity c1 = capacity c" "metrics c1 = metrics c" "fresh c1 = Suc (fresh c)"
    "head c1 = head c" "tail c1 = tail c"
proof -
  have a: "a = fresh c" and c1: "c1 = c\<lparr>cells := (cells c)(a \<mapsto>
      \<lparr>val = v, key = k, prev = None, nxt = None\<rparr>), fresh := Suc a\<rparr>"
    using al by (auto simp: alloc_def)
  have nin: "a \<notin> set (head c # as @ [tail c])" using lru_cellsD(3) [OF c, of a] a by auto
  have nx: "nx (cells c1) = (nx (cells c))(a := None)" "pv (cells c1) = (pv (cells c))(a := None)"
    "ent (cells c1) = (ent (cells c))(a := Some (k, v))"
    by (auto simp: c1 nx_def pv_def ent_def fun_eq_iff)
  have lk: "linked (nx (cells c1)) (pv (cells c1)) (head c # as @ [tail c])"
    using lru_cellsD(2) [OF c] nin unfolding nx
    by (subst linked_frame [where f' = "nx (cells c)" and g' = "pv (cells c)"])
      (auto dest: in_set_butlastD split: if_splits)
  have keep: "ent (cells c1) x = ent (cells c) x" if "x \<in> set (head c # as @ [tail c])" for x
    using nin nx(3) that by (auto simp: fun_eq_iff)
  then have img: "(\<lambda>a. (fst (the (ent (cells c1) a)), a)) ` set as =
      (\<lambda>a. (fst (the (ent (cells c) a)), a)) ` set as"
    by (intro image_cong) auto
  show "lru_cells c1 as"
    using c lk keep img nin a unfolding lru_cells_def c1 by (auto simp: less_Suc_eq)
  show "entries c1 as = entries c as" using keep by (simp add: entries_def)
qed (use lru_cellsD(3) [OF c, of a] al in \<open>auto simp: alloc_def ent_def\<close>)

section \<open>Refinement of the operations\<close>

text \<open>
  \<open>lru_sim c xs c' ys\<close>: after the operation the structure represents \<open>ys\<close>, the capacity is
  unchanged, and the items gauge moved by as much as the number of entries did.
\<close>

definition lru_sim :: "'v LRU \<Rightarrow> 'v alru \<Rightarrow> 'v LRU \<Rightarrow> 'v alru \<Rightarrow> bool" where
  "lru_sim c xs c' ys \<longleftrightarrow> lru_rep c' ys \<and> capacity c' = capacity c \<and>
     (metrics c \<noteq> None \<longrightarrow>
        metrics c' \<noteq> None \<and>
        gauge (metrics c') - int (length ys) = gauge (metrics c) - int (length xs))"

lemma lru_repI:
  "lru_cells c as \<Longrightarrow> xs = entries c as \<Longrightarrow> int (length xs) \<le> max 0 (capacity c) \<Longrightarrow> lru_rep c xs"
  by (auto simp: lru_rep_def)

lemma lru_repE:
  assumes "lru_rep c xs"
  obtains as where "lru_cells c as" "xs = entries c as" "int (length xs) \<le> max 0 (capacity c)"
  using assms by (auto simp: lru_rep_def)

lemma lru_rep_metrics [simp]: "lru_rep (c\<lparr>metrics := m\<rparr>) xs = lru_rep c xs"
  by (simp add: lru_rep_def)

lemma lru_rep_distinct: "lru_rep c xs \<Longrightarrow> keys_distinct xs"
  by (auto elim!: lru_repE dest: lru_cells_distinct_keys)

lemma lru_rep_lookup_None:
  "lru_cells c as \<Longrightarrow> map_of (cache c) k = None \<longleftrightarrow> k \<notin> fst ` set (entries c as)"
  by (simp add: map_of_eq_None_iff lru_cells_keys)

lemma alru_push_length:
  "alru_push cap k v xs = (ev, ys) \<Longrightarrow> int (length xs) \<le> max 0 cap \<Longrightarrow> int (length ys) \<le> max 0 cap"
  by (auto simp: alru_push_def Let_def split: if_splits)

lemma alru_push_size:
  "alru_push cap k v xs = (ev, ys) \<Longrightarrow> length ys = (if ev then length xs else Suc (length xs))"
  by (auto simp: alru_push_def Let_def split: if_splits)

lemma alru_push_room:
  "int (length xs) < cap \<Longrightarrow> alru_push cap k v xs = (False, xs @ [(k, v)])"
  by (simp add: alru_push_def)

text \<open>Allocating a node and appending it, as the write paths do.\<close>

lemma LRU_insert_ok:
  assumes c: "lru_cells c as" and k: "k \<notin> fst ` set (cache c)"
  obtains ev c' bs where "LRU_add (fst (alloc k v c)) (snd (alloc k v c)) = Some (ev, c')"
    "lru_cells c' bs" "capacity c' = capacity c" "metrics c' = metrics c"
    "alru_push (capacity c) k v (entries c as) = (ev, entries c' bs)"
proof -
  obtain a c1 where al: "alloc k v c = (a, c1)" by fastforce
  note A = alloc_ok [OF c al]
  obtain ev c' bs where "LRU_add a c1 = Some (ev, c')" "lru_cells c' bs" "same_frame c1 c'"
    "alru_push (capacity c1) k v (entries c1 as) = (ev, entries c' bs)"
    using LRU_add_ok [OF A(1-4)] A(5) k by metis
  with A al that show ?thesis by (simp add: same_frame_def)
qed

lemma NewLRU_rep:
  assumes "NewLRU z cap opts = Inr c"
  shows "lru_rep c [] \<and> capacity c = cap"
proof -
  have "lru_cells c []" "capacity c = cap"
    using assms by (auto simp: NewLRU_def lru_cells_def ent_def nx_def pv_def split: sum.splits)
  then show ?thesis by (auto simp: lru_rep_def intro!: exI [of _ "[]"])
qed

lemma LRU_Set_sim:
  assumes "lru_rep c xs"
  shows "\<exists>c'. LRU_Set k v c = Some (None, c') \<and> lru_sim c xs c' (alru_set (capacity c) k v xs)"
proof -
  from assms obtain as where c: "lru_cells c as" "xs = entries c as"
    and b: "int (length xs) \<le> max 0 (capacity c)" by (rule lru_repE)
  show ?thesis
  proof (cases "map_of (cache c) k")
    case None
    then have k: "k \<notin> fst ` set (cache c)" "alru_del k xs = xs"
      using c by (simp_all add: map_of_eq_None_iff lru_cells_keys alru_del_absent)
    obtain ev c' bs where c': "LRU_add (fst (alloc k v c)) (snd (alloc k v c)) = Some (ev, c')"
      "lru_cells c' bs" "capacity c' = capacity c" "metrics c' = metrics c"
      "alru_push (capacity c) k v (entries c as) = (ev, entries c' bs)"
      by (rule LRU_insert_ok [OF c(1) k(1)])
    have rep: "lru_rep c' (alru_set (capacity c) k v xs)"
      using c' c(2) k(2) b alru_push_length [OF c'(5)]
      by (intro lru_repI [OF c'(2)]) (simp_all add: alru_set_def)
    then show ?thesis
      using None c' c(2) k(2) alru_push_size [OF c'(5)]
      by (auto simp: LRU_Set_def lru_sim_def alru_set_def split_beta simp del: not_None_eq)
  next
    case (Some n)
    obtain c1 bs u where c1: "LRU_delete (Some n) c = Some c1" "lru_cells c1 bs" "same_frame c c1"
      "entries c1 bs = alru_del k (entries c as)" "k \<notin> fst ` set (cache c1)"
      "Suc (length bs) = length as"
      using LRU_delete_key [OF c(1) Some] by metis
    obtain ev c' ds where c': "LRU_add (fst (alloc k v c1)) (snd (alloc k v c1)) = Some (ev, c')"
      "lru_cells c' ds" "capacity c' = capacity c1" "metrics c' = metrics c1"
      "alru_push (capacity c1) k v (entries c1 bs) = (ev, entries c' ds)"
      by (rule LRU_insert_ok [OF c1(2,5)])
    have cap: "capacity c1 = capacity c" "metrics c1 = metrics c"
      using c1(3) by (simp_all add: same_frame_def)
    have room: "int (length (entries c1 bs)) < capacity c"
      using b c(2) c1(6) by (simp add: max_def split: if_splits)
    have push: "alru_push (capacity c) k v (alru_del k xs) = (False, entries c' ds)"
      using c'(5) alru_push_room [OF room] cap c1(4) c(2) by simp
    have eq: "alru_set (capacity c) k v xs = entries c' ds"
      by (simp add: alru_set_def push)
    have len: "length ds = length as"
      using alru_push_size [OF push] c1(6) arg_cong [OF c1(4), of length] c(2) by simp
    have "lru_rep c' (entries c' ds)"
      using b len c(2) c'(3) cap by (intro lru_repI [OF c'(2)]) simp_all
    moreover have "length xs = length as" using c(2) by simp
    ultimately show ?thesis
      unfolding eq using Some c1(1) c'(1,3,4) cap len
      by (auto simp: LRU_Set_def lru_sim_def split_beta simp del: not_None_eq)
  qed
qed

text \<open>Moving the node of a present key to the back, as \<open>Get\<close> and a cache hit do.\<close>

lemma LRU_touch_ok:
  assumes c: "lru_cells c as" and k: "map_of (cache c) k = Some n"
    and b: "int (length as) \<le> max 0 (capacity c)"
  obtains c1 c2 v ds where "LRU_delete (Some n) c = Some c1"
    "ent (cells c1) n = Some (k, v)" "map_of (entries c as) k = Some v"
    "LRU_add n c1 = Some (False, c2)" "lru_cells c2 ds" "same_frame c c2"
    "entries c2 ds = alru_del k (entries c as) @ [(k, v)]" "length ds = length as"
    "ent (cells c2) n = Some (k, v)"
proof -
  obtain c1 bs v where c1: "LRU_delete (Some n) c = Some c1" "lru_cells c1 bs" "same_frame c c1"
    "entries c1 bs = alru_del k (entries c as)" "ent (cells c1) n = Some (k, v)"
    "map_of (entries c as) k = Some v" "k \<notin> fst ` set (cache c1)"
    "n \<notin> set (head c1 # bs @ [tail c1])" "n < fresh c1" "Suc (length bs) = length as"
    by (rule LRU_delete_key [OF c k])
  obtain ev c2 ds where c2: "LRU_add n c1 = Some (ev, c2)" "lru_cells c2 ds" "same_frame c1 c2"
    "alru_push (capacity c1) k v (entries c1 bs) = (ev, entries c2 ds)"
    by (rule LRU_add_ok [OF c1(2,8,9,5,7)])
  have room: "int (length (entries c1 bs)) < capacity c1"
    using b c1(3,10) by (simp add: same_frame_def max_def split: if_splits)
  have push: "ev = False" "entries c2 ds = entries c1 bs @ [(k, v)]"
    using c2(4) alru_push_room [OF room] by auto
  moreover have "length ds = length as"
    using arg_cong [OF push(2), of length] c1(10) by simp
  ultimately show ?thesis
    using that [OF c1(1,5,6)] c1(3,4,5) c2 by (auto simp: same_frame_def)
qed

lemma LRU_Get_sim:
  assumes "lru_rep c xs"
  shows "\<exists>c' r. LRU_Get k c = Some (r, c') \<and>
    (case map_of xs k of
       None \<Rightarrow> r = Inl ErrNotFound \<and> lru_sim c xs c' xs
     | Some v \<Rightarrow> r = Inr v \<and> lru_sim c xs c' (alru_del k xs @ [(k, v)]))"
proof -
  from assms obtain as where c: "lru_cells c as" "xs = entries c as"
    and b: "int (length xs) \<le> max 0 (capacity c)" by (rule lru_repE)
  show ?thesis
  proof (cases "map_of (cache c) k")
    case None
    then have "map_of xs k = None"
      using lru_rep_lookup_None [OF c(1)] c(2) by (simp add: map_of_eq_None_iff)
    with None assms show ?thesis
      by (auto simp: LRU_Get_def lru_sim_def simp del: not_None_eq)
  next
    case (Some n)
    obtain c1 c2 v ds where t: "LRU_delete (Some n) c = Some c1"
      "ent (cells c1) n = Some (k, v)" "map_of (entries c as) k = Some v"
      "LRU_add n c1 = Some (False, c2)" "lru_cells c2 ds" "same_frame c c2"
      "entries c2 ds = alru_del k (entries c as) @ [(k, v)]" "length ds = length as"
      "ent (cells c2) n = Some (k, v)"
      using LRU_touch_ok [OF c(1) Some] b c(2) by (metis entries_simps(1))
    have rep: "lru_rep c2 (entries c2 ds)"
      using b t(6,8) c(2) by (intro lru_repI [OF t(5)]) (simp_all add: same_frame_def)
    obtain nd where nd: "deref (cells c2) (Some n) = Some nd" "val nd = v"
      using deref_ok [OF t(9)] by auto
    have "length (alru_del k xs @ [(k, v)]) = length xs"
      using t(7,8) c(2) by (metis entries_simps(1))
    with Some t rep nd c(2) show ?thesis
      by (auto simp: LRU_Get_def lru_sim_def same_frame_def simp del: not_None_eq)
  qed
qed

lemma alru_del_length:
  "keys_distinct xs \<Longrightarrow>
     length (alru_del k xs) = (if k \<in> fst ` set xs then length xs - 1 else length xs)"
  using length_delete [of xs k] by (simp add: alru_del_def AList.delete_eq split_beta' eq_commute)

lemma sentinel_key:
  assumes "lru_cells c as"
  obtains hd' tl' where "deref (cells c) (Some (head c)) = Some hd'" "key hd' = []"
    "deref (cells c) (Some (tail c)) = Some tl'" "key tl' = []"
proof -
  obtain u w where "ent (cells c) (head c) = Some ([], u)" "ent (cells c) (tail c) = Some ([], w)"
    using assms by (auto simp: lru_cells_def)
  from deref_ok [OF this(1)] deref_ok [OF this(2)] that show ?thesis by blast
qed

lemma LRU_Delete_sim:
  assumes "lru_rep c xs"
  shows "\<exists>c'. LRU_Delete k c = Some (None, c') \<and>
    lru_sim c xs c' (if k = [] then xs else alru_del k xs)"
proof -
  from assms obtain as where c: "lru_cells c as" "xs = entries c as"
    and b: "int (length xs) \<le> max 0 (capacity c)" by (rule lru_repE)
  obtain hd' tl' where s: "deref (cells c) (Some (head c)) = Some hd'" "key hd' = []"
    "deref (cells c) (Some (tail c)) = Some tl'" "key tl' = []"
    by (rule sentinel_key [OF c(1)])
  show ?thesis
  proof (cases "map_of (cache c) k")
    case None
    then have "alru_del k xs = xs"
      using lru_rep_lookup_None [OF c(1)] c(2) by (simp add: alru_del_absent)
    with None assms s show ?thesis
      by (auto simp: LRU_Delete_def lru_sim_def simp del: not_None_eq)
  next
    case (Some n)
    obtain c1 bs where c1: "LRU_delete (Some n) c = Some c1" "lru_cells c1 bs" "same_frame c c1"
      "entries c1 bs = alru_del k (entries c as)" "Suc (length bs) = length as"
      using LRU_delete_key [OF c(1) Some] by metis
    have rep: "lru_rep c1 (alru_del k xs)"
      using b c1(3-5) c(2) by (intro lru_repI [OF c1(2)]) (auto simp: same_frame_def simp flip: c1(4))
    have "int (length (alru_del k xs)) = int (length xs) - 1"
      using c1(5) arg_cong [OF c1(4), of length] c(2) by simp
    with Some c1(1,3) rep s assms show ?thesis
      by (auto simp: LRU_Delete_def lru_sim_def same_frame_def simp del: not_None_eq)
  qed
qed

text \<open>
  The eviction loop removes the least recently used entries first. It does not touch the items
  gauge.
\<close>

lemma LRU_evict_ok:
  assumes "lru_cells c as" "n \<le> length as"
  shows "\<exists>c'. LRU_evict n c = Some c' \<and> lru_cells c' (drop n as) \<and> ent (cells c') = ent (cells c) \<and>
    capacity c' = capacity c \<and> gauge (metrics c') = gauge (metrics c)"
  using assms
proof (induction n arbitrary: c as)
  case 0
  then show ?case by simp
next
  case (Suc n)
  then obtain a bs where as: "as = a # bs" by (cases as) auto
  note ca = Suc.prems(1) [unfolded as]
  obtain hd' where hd: "deref (cells c) (Some (head c)) = Some hd'" "nxt hd' = Some a"
    by (rule LRU_front [OF ca])
  obtain c1 where c1: "LRU_delete (Some a) c = Some c1" "lru_cells c1 bs" "same_frame c c1"
    using LRU_delete_ok [of c "[]" a bs] ca by (metis append_Nil)
  let ?c = "c1\<lparr>metrics := recordEviction (metrics c1)\<rparr>"
  from Suc.IH [of ?c bs] c1(2) Suc.prems(2) as obtain c' where
    "LRU_evict n ?c = Some c'" "lru_cells c' (drop n bs)" "ent (cells c') = ent (cells ?c)"
    "capacity c' = capacity ?c" "gauge (metrics c') = gauge (metrics ?c)"
    by auto
  with hd c1 as show ?case by (simp add: same_frame_def)
qed

lemma LRU_Resize_sim:
  assumes "lru_rep c xs"
  shows "\<exists>r c'. LRU_Resize n c = Some (r, c') \<and> gauge (metrics c') = gauge (metrics c) \<and>
    (if n \<le> 0 then r = Inl ErrInvalidSize \<and> lru_rep c' xs \<and> capacity c' = capacity c
     else r = Inr (max 0 (int (length xs) - n)) \<and> capacity c' = n \<and>
          lru_rep c' (drop (length xs - nat n) xs))"
proof -
  from assms obtain as where c: "lru_cells c as" "xs = entries c as"
    and b: "int (length xs) \<le> max 0 (capacity c)" by (rule lru_repE)
  note len = lru_cells_length [OF c(1)]
  show ?thesis
  proof (cases "n \<le> 0 \<or> int (length as) \<le> n")
    case True
    then show ?thesis
      using assms c len b
      by (auto simp: LRU_Resize_def Let_def lru_rep_def max_def intro!: exI [of _ as])
  next
    case False
    let ?o = "length as - nat n" and ?c = "c\<lparr>capacity := n\<rparr>"
    obtain c' where c': "LRU_evict ?o ?c = Some c'" "lru_cells c' (drop ?o as)"
      "ent (cells c') = ent (cells c)" "capacity c' = n" "gauge (metrics c') = gauge (metrics c)"
      using LRU_evict_ok [of ?c as ?o] c(1) by auto
    have "nat (int (length as) - n) = ?o" using False by linarith
    moreover have "lru_rep c' (drop ?o xs)"
      using c' False c(2)
      by (intro lru_repI [OF c'(2)]) (auto simp: entries_def drop_map)
    ultimately show ?thesis
      using False c' c(2) len by (simp add: LRU_Resize_def Let_def)
  qed
qed

text \<open>
  \<open>GetIfOrSet\<close>. The items gauge is one too high after a failed refresh of a present entry:
  the entry is gone and nothing decremented the gauge.
\<close>

definition lru_sim_drift :: "int \<Rightarrow> 'v LRU \<Rightarrow> 'v alru \<Rightarrow> 'v LRU \<Rightarrow> 'v alru \<Rightarrow> bool" where
  "lru_sim_drift d c xs c' ys \<longleftrightarrow> lru_rep c' ys \<and> capacity c' = capacity c \<and>
     (metrics c \<noteq> None \<longrightarrow>
        gauge (metrics c') - int (length ys) = gauge (metrics c) - int (length xs) + d)"

lemma gauge_finish:
  "metrics c \<noteq> None \<Longrightarrow> gauge (metrics (LRU_finish opts failed ok existed evicted c)) =
     gauge (metrics c) + (if \<not> evicted \<and> \<not> existed \<and> \<not> failed then 1 else 0)"
  by (auto simp: LRU_finish_def Let_def split: option.splits simp del: not_None_eq)

lemma LRU_finish_rep [simp]:
  "lru_rep (LRU_finish opts failed ok existed evicted c) xs = lru_rep c xs"
  "capacity (LRU_finish opts failed ok existed evicted c) = capacity c"
  by (simp_all add: LRU_finish_def Let_def)

text \<open>The miss path: fetch, and store what was fetched.\<close>

lemma LRU_fetch_sim:
  assumes c: "lru_cells c as" and b: "int (length as) \<le> max 0 (capacity c)"
    and k: "k \<notin> fst ` set (cache c)" and push: "push = alru_push (capacity c) k w (entries c as)"
  obtains c' where "LRU_add (fst (alloc k w c)) (snd (alloc k w c)) = Some (fst push, c')"
    "lru_rep c' (snd push)" "capacity c' = capacity c" "metrics c' = metrics c"
proof -
  obtain ev c' bs where c': "LRU_add (fst (alloc k w c)) (snd (alloc k w c)) = Some (ev, c')"
    "lru_cells c' bs" "capacity c' = capacity c" "metrics c' = metrics c"
    "alru_push (capacity c) k w (entries c as) = (ev, entries c' bs)"
    by (rule LRU_insert_ok [OF c k])
  have "lru_rep c' (entries c' bs)"
    using alru_push_length [OF c'(5)] b c'(3) by (intro lru_repI [OF c'(2)]) simp_all
  with c' push that show ?thesis by simp
qed

lemmas get_if_or_set_defs = LRU_GetIfOrSet_def alru_get_if_or_set_def lru_sim_drift_def

lemma LRU_GetIfOrSet_absent:
  assumes rep: "lru_rep c xs" and k: "map_of (cache c) k = None"
    and spec: "alru_get_if_or_set (capacity c) k cond fetch xs = (r, ys)"
  shows "\<exists>c'. LRU_GetIfOrSet k cond fetch opts c = Some (r, c') \<and> lru_sim_drift 0 c xs c' ys"
proof -
  from rep obtain as where c: "lru_cells c as" "xs = entries c as"
    and b: "int (length xs) \<le> max 0 (capacity c)" by (rule lru_repE)
  have k': "k \<notin> fst ` set (cache c)" "map_of xs k = None" "alru_del k xs = xs"
    using lru_rep_lookup_None [OF c(1)] c k by (simp_all add: map_of_eq_None_iff alru_del_absent)
  show ?thesis
  proof (cases fetch)
    case (Inl e)
    then show ?thesis
      using k k' spec rep by (auto simp: get_if_or_set_defs gauge_finish simp del: not_None_eq)
  next
    case (Inr w)
    let ?p = "alru_push (capacity c) k w xs"
    obtain c' where c': "LRU_add (fst (alloc k w c)) (snd (alloc k w c)) = Some (fst ?p, c')"
      "lru_rep c' (snd ?p)" "capacity c' = capacity c" "metrics c' = metrics c"
      using LRU_fetch_sim [OF c(1) _ k'(1) refl] b c(2) by (metis entries_simps(1))
    have "length (snd ?p) = (if fst ?p then length xs else Suc (length xs))"
      by (rule alru_push_size [OF prod.collapse [symmetric]])
    then show ?thesis
      using k Inr k' spec c'
      by (auto simp: get_if_or_set_defs alru_set_def gauge_finish split_beta simp del: not_None_eq)
  qed
qed

lemma LRU_GetIfOrSet_hit:
  assumes rep: "lru_rep c xs" and k: "map_of (cache c) k = Some n"
    and v: "map_of xs k = Some v" "cond v"
  shows "\<exists>c'. LRU_GetIfOrSet k cond fetch opts c = Some (Inr (v, True), c') \<and>
    lru_sim_drift 0 c xs c' (alru_del k xs @ [(k, v)])"
proof -
  from rep obtain as where c: "lru_cells c as" "xs = entries c as"
    and b: "int (length xs) \<le> max 0 (capacity c)" by (rule lru_repE)
  obtain c1 c2 ds where t: "LRU_delete (Some n) c = Some c1" "ent (cells c1) n = Some (k, v)"
    "LRU_add n c1 = Some (False, c2)" "lru_cells c2 ds" "same_frame c c2"
    "entries c2 ds = alru_del k xs @ [(k, v)]" "length ds = length as"
    using LRU_touch_ok [OF c(1) k] b c(2) v(1) by (metis entries_simps(1) option.inject)
  obtain nd where nd: "deref (cells c1) (Some n) = Some nd" "val nd = v"
    using deref_ok [OF t(2)] by auto
  have len: "length (alru_del k xs @ [(k, v)]) = length xs"
    using t(6,7) c(2) by (metis entries_simps(1))
  moreover have "lru_rep c2 (alru_del k xs @ [(k, v)])"
    using b t(5,6) len by (intro lru_repI [OF t(4)]) (simp_all add: same_frame_def)
  moreover have "capacity c2 = capacity c" "metrics c2 = metrics c"
    using t(5) by (simp_all add: same_frame_def)
  ultimately show ?thesis
    using k t(1,3) nd v(2) by (auto simp: get_if_or_set_defs gauge_finish simp del: not_None_eq)
qed

lemma LRU_GetIfOrSet_stale:
  assumes rep: "lru_rep c xs" and k: "map_of (cache c) k = Some n"
    and v: "map_of xs k = Some v" "\<not> cond v"
    and spec: "alru_get_if_or_set (capacity c) k cond fetch xs = (r, ys)"
  shows "\<exists>c'. LRU_GetIfOrSet k cond fetch opts c = Some (r, c') \<and>
    lru_sim_drift (if isl r then 1 else 0) c xs c' ys"
proof -
  from rep obtain as where c: "lru_cells c as" "xs = entries c as"
    and b: "int (length xs) \<le> max 0 (capacity c)" by (rule lru_repE)
  obtain c1 bs where c1: "LRU_delete (Some n) c = Some c1" "lru_cells c1 bs" "same_frame c c1"
    "alru_del k xs = entries c1 bs" "ent (cells c1) n = Some (k, v)"
    "k \<notin> fst ` set (cache c1)" "length xs = Suc (length bs)"
    using LRU_delete_key [OF c(1) k] c(2) v(1) by (metis entries_simps(1) option.inject)
  obtain nd where nd: "deref (cells c1) (Some n) = Some nd" "val nd = v"
    using deref_ok [OF c1(5)] by auto
  have fr: "capacity c1 = capacity c" "metrics c1 = metrics c"
    using c1(3) by (simp_all add: same_frame_def)
  have len: "length (alru_del k xs) = length bs" using c1(4) by simp
  have b1: "int (length bs) < capacity c" using b c1(7) by (simp add: max_def split: if_splits)
  show ?thesis
  proof (cases fetch)
    case (Inl e)
    have "lru_rep c1 (alru_del k xs)"
      using b1 fr c1(4) by (intro lru_repI [OF c1(2)]) simp_all
    then show ?thesis
      using Inl k c1(1,7) len nd v spec fr
      by (auto simp: get_if_or_set_defs gauge_finish simp del: not_None_eq)
  next
    case (Inr w)
    have push: "alru_push (capacity c) k w (alru_del k xs) = (False, alru_del k xs @ [(k, w)])"
      using b1 c1(4) by (intro alru_push_room) simp
    then obtain c' where c': "LRU_add (fst (alloc k w c1)) (snd (alloc k w c1)) = Some (False, c')"
      "lru_rep c' (alru_del k xs @ [(k, w)])" "capacity c' = capacity c" "metrics c' = metrics c"
      using LRU_fetch_sim [OF c1(2) _ c1(6) refl, of w] b1 fr c1(4) by auto
    show ?thesis
      using Inr k c1(1,7) len nd v spec fr c' push
      by (auto simp: get_if_or_set_defs alru_set_def gauge_finish split_beta simp del: not_None_eq)
  qed
qed

lemma LRU_GetIfOrSet_sim:
  assumes rep: "lru_rep c xs" and spec: "alru_get_if_or_set (capacity c) k cond fetch xs = (r, ys)"
  shows "\<exists>c'. LRU_GetIfOrSet k cond fetch opts c = Some (r, c') \<and>
    lru_sim_drift (if isl r \<and> k \<in> fst ` set xs then 1 else 0) c xs c' ys"
proof -
  from rep obtain as where c: "lru_cells c as" "xs = entries c as" by (rule lru_repE)
  show ?thesis
  proof (cases "map_of (cache c) k")
    case None
    then have "k \<notin> fst ` set xs" using lru_rep_lookup_None [OF c(1)] c(2) by simp
    with LRU_GetIfOrSet_absent [OF rep None spec] show ?thesis by simp
  next
    case (Some n)
    then obtain v where v: "map_of xs k = Some v"
      using LRU_delete_key [OF c(1) Some] c(2) by metis
    then have "k \<in> fst ` set xs" by (rule map_of_SomeD_key)
    with v spec show ?thesis
      using LRU_GetIfOrSet_stale [OF rep Some v _ spec] LRU_GetIfOrSet_hit [OF rep Some v]
      by (cases "cond v") (auto simp: alru_get_if_or_set_def)
  qed
qed

end
