(* ===== verification/Store_Contract.thy ===== *)
theory Store_Contract
  imports Cache_Metrics
begin

text \<open>
  The contract of the \<open>Store\<close> interface of \<open>cache/store.go\<close>: what a client of \<open>Set\<close>,
  \<open>Get\<close> and \<open>Delete\<close> may rely on, whichever cache is behind the interface. A cache may drop
  entries at any time (eviction, expiry, clean-up), but it never invents, resurrects or mixes up
  values.

  The locale \<open>cache_store\<close> states the laws on one implementation; the client lemma, proved once,
  compares every run with a plain map. The LRU cache and the expiring cache interpret it.
\<close>

section \<open>Runs of a store\<close>

text \<open>
  The requests of the interface, each with the environment of the call (for the expiring cache the
  time that has passed), and housekeeping that the client does not see.
\<close>

datatype ('e, 'v, 'h) store_op =
    StoreSet 'e string 'v
  | StoreGet 'e string
  | StoreDelete 'e string
  | Housekeeping 'h

datatype 'v store_ret = Done "CacheErrorReason option" | Got "CacheErrorReason + 'v"

fun store_step ::
  "('e \<Rightarrow> string \<Rightarrow> 'v \<Rightarrow> 's \<Rightarrow> (CacheErrorReason option \<times> 's) option) \<Rightarrow>
   ('e \<Rightarrow> string \<Rightarrow> 's \<Rightarrow> ((CacheErrorReason + 'v) \<times> 's) option) \<Rightarrow>
   ('e \<Rightarrow> string \<Rightarrow> 's \<Rightarrow> (CacheErrorReason option \<times> 's) option) \<Rightarrow>
   ('h \<Rightarrow> 's \<Rightarrow> 's option) \<Rightarrow>
   ('e, 'v, 'h) store_op \<Rightarrow> 's \<Rightarrow> ('v store_ret \<times> 's) option" where
  "store_step sset sget sdel hk (StoreSet e k v) s = map_option (map_prod Done id) (sset e k v s)"
| "store_step sset sget sdel hk (StoreGet e k) s = map_option (map_prod Got id) (sget e k s)"
| "store_step sset sget sdel hk (StoreDelete e k) s = map_option (map_prod Done id) (sdel e k s)"
| "store_step sset sget sdel hk (Housekeeping h) s = map_option (Pair (Done None)) (hk h s)"

fun run_steps :: "('op \<Rightarrow> 's \<Rightarrow> ('r \<times> 's) option) \<Rightarrow> 'op list \<Rightarrow> 's \<Rightarrow> ('r list \<times> 's) option" where
  "run_steps step [] s = Some ([], s)"
| "run_steps step (x # xs) s = do {
     (r, s1) \<leftarrow> step x s;
     (rs, s2) \<leftarrow> run_steps step xs s1;
     Some (r # rs, s2)
   }"

text \<open>The reference: a plain map, updated by the requests that reported success.\<close>

fun ref_step :: "('e, 'v, 'h) store_op \<Rightarrow> 'v store_ret \<Rightarrow> (string \<rightharpoonup> 'v) \<Rightarrow> (string \<rightharpoonup> 'v)" where
  "ref_step (StoreSet e k v) (Done None) m = m(k \<mapsto> v)"
| "ref_step (StoreDelete e k) (Done None) m = m(k := None)"
| "ref_step _ _ m = m"

text \<open>Every successful \<open>Get\<close> of the run returned the value the reference holds at that point.\<close>

fun coherent_run ::
  "('e, 'v, 'h) store_op list \<Rightarrow> 'v store_ret list \<Rightarrow> (string \<rightharpoonup> 'v) \<Rightarrow> bool" where
  "coherent_run [] rs m \<longleftrightarrow> rs = []"
| "coherent_run (x # xs) [] m \<longleftrightarrow> False"
| "coherent_run (x # xs) (r # rs) m \<longleftrightarrow>
     (case (x, r) of (StoreGet e k, Got (Inr v)) \<Rightarrow> m k = Some v | _ \<Rightarrow> True) \<and>
     coherent_run xs rs (ref_step x r m)"

section \<open>Contract and client\<close>

locale cache_store =
  fixes sset :: "'e \<Rightarrow> string \<Rightarrow> 'v \<Rightarrow> 's \<Rightarrow> (CacheErrorReason option \<times> 's) option"
    and sget :: "'e \<Rightarrow> string \<Rightarrow> 's \<Rightarrow> ((CacheErrorReason + 'v) \<times> 's) option"
    and sdel :: "'e \<Rightarrow> string \<Rightarrow> 's \<Rightarrow> (CacheErrorReason option \<times> 's) option"
    and hk :: "'h \<Rightarrow> 's \<Rightarrow> 's option"
    and inv :: "'s \<Rightarrow> bool"
    and view :: "'s \<Rightarrow> string \<rightharpoonup> 'v"
    and deletable :: "string \<Rightarrow> bool"
  assumes set_law: "inv s \<Longrightarrow> \<exists>r s'. sset e k v s = Some (r, s') \<and> inv s' \<and>
      view s' \<subseteq>\<^sub>m (if r = None then (view s)(k \<mapsto> v) else view s)"
    and get_law: "inv s \<Longrightarrow> \<exists>r s'. sget e k s = Some (r, s') \<and> inv s' \<and> view s' \<subseteq>\<^sub>m view s \<and>
      (\<forall>v. r = Inr v \<longrightarrow> view s k = Some v)"
    and delete_law: "inv s \<Longrightarrow> deletable k \<Longrightarrow> \<exists>r s'. sdel e k s = Some (r, s') \<and> inv s' \<and>
      view s' \<subseteq>\<^sub>m (if r = None then (view s)(k := None) else view s)"
    and hk_law: "inv s \<Longrightarrow> \<exists>s'. hk h s = Some s' \<and> inv s' \<and> view s' \<subseteq>\<^sub>m view s"
begin

definition allowed :: "('e, 'v, 'h) store_op \<Rightarrow> bool" where
  "allowed x = (case x of StoreDelete e k \<Rightarrow> deletable k | _ \<Rightarrow> True)"

lemma upd_mono: "m \<subseteq>\<^sub>m m' \<Longrightarrow> m(k := x) \<subseteq>\<^sub>m m'(k := x)"
  by (auto simp: map_le_def)

lemma step_coherent:
  assumes "inv s" "view s \<subseteq>\<^sub>m m" "allowed x"
  shows "\<exists>r s'. store_step sset sget sdel hk x s = Some (r, s') \<and> inv s' \<and>
    view s' \<subseteq>\<^sub>m ref_step x r m \<and>
    (case (x, r) of (StoreGet e k, Got (Inr v)) \<Rightarrow> m k = Some v | _ \<Rightarrow> True)"
proof (cases x)
  case (StoreSet e k v)
  obtain r s' where s: "sset e k v s = Some (r, s')" "inv s'"
    "view s' \<subseteq>\<^sub>m (if r = None then (view s)(k \<mapsto> v) else view s)"
    using set_law [OF assms(1)] by blast
  have "view s' \<subseteq>\<^sub>m ref_step x (Done r) m"
    using s(3) upd_mono [OF assms(2)] assms(2) map_le_trans StoreSet
    by (cases r) (auto intro: map_le_trans)
  then show ?thesis using s StoreSet by simp
next
  case (StoreGet e k)
  obtain r s' where s: "sget e k s = Some (r, s')" "inv s'" "view s' \<subseteq>\<^sub>m view s"
    "\<forall>v. r = Inr v \<longrightarrow> view s k = Some v"
    using get_law [OF assms(1)] by blast
  have "r = Inr v \<Longrightarrow> m k = Some v" for v
    using s(4) assms(2) by (metis domI map_le_def)
  then show ?thesis
    using s assms(2) StoreGet by (auto intro: map_le_trans split: sum.split)
next
  case (StoreDelete e k)
  then have "deletable k" using assms(3) by (simp add: allowed_def)
  then obtain r s' where s: "sdel e k s = Some (r, s')" "inv s'"
    "view s' \<subseteq>\<^sub>m (if r = None then (view s)(k := None) else view s)"
    using delete_law [OF assms(1)] by blast
  have "view s' \<subseteq>\<^sub>m ref_step x (Done r) m"
    using s(3) upd_mono [OF assms(2)] assms(2) StoreDelete
    by (cases r) (auto intro: map_le_trans)
  then show ?thesis using s StoreDelete by simp
next
  case (Housekeeping h)
  then show ?thesis using hk_law [OF assms(1), of h] assms(2) by (auto intro: map_le_trans)
qed

lemma run_coherent:
  assumes "inv s" "view s \<subseteq>\<^sub>m m" "list_all allowed xs"
  shows "\<exists>rs s'. run_steps (store_step sset sget sdel hk) xs s = Some (rs, s') \<and> inv s' \<and>
    coherent_run xs rs m"
  using assms
proof (induction xs arbitrary: s m)
  case Nil
  then show ?case by simp
next
  case (Cons x xs)
  then obtain r s1 where 1: "store_step sset sget sdel hk x s = Some (r, s1)" "inv s1"
    "view s1 \<subseteq>\<^sub>m ref_step x r m"
    "case (x, r) of (StoreGet e k, Got (Inr v)) \<Rightarrow> m k = Some v | _ \<Rightarrow> True"
    using step_coherent [of s m x] by auto
  moreover obtain rs s2 where "run_steps (store_step sset sget sdel hk) xs s1 = Some (rs, s2)"
    "inv s2" "coherent_run xs rs (ref_step x r m)"
    using Cons.IH [OF 1(2,3)] Cons.prems(3) by auto
  ultimately show ?case by simp
qed

end

end
