(* ===== verification/LRU_Store.thy ===== *)
theory LRU_Store
  imports LRU_Refinement Store_Contract
begin

text \<open>
  What the LRU cache of \<open>cache/lru.go\<close> promises: arbitrary sequences of calls behave as the
  recency list, \<open>Set\<close> keeps the most recently used keys, the items gauge follows the number
  of entries (and where it does not), and the cache implements the \<open>Store\<close> contract.
\<close>

section \<open>Sequences of calls\<close>

datatype ('e, 'v) lru_op =
    OpSet string 'v
  | OpGet string
  | OpDelete string
  | OpListKeys
  | OpResize int
  | OpGetIfOrSet string "'v \<Rightarrow> bool" "'e + 'v" "'e Options list"

datatype ('e, 'v) lru_ret =
    RetErr "CacheErrorReason option"
  | RetGet "CacheErrorReason + 'v"
  | RetKeys "string set"
  | RetResize "CacheErrorReason + int"
  | RetFetch "'e + 'v \<times> bool"

fun LRU_exec :: "('e, 'v) lru_op \<Rightarrow> 'v LRU \<Rightarrow> (('e, 'v) lru_ret \<times> 'v LRU) option" where
  "LRU_exec (OpSet k v) c = map_option (map_prod RetErr id) (LRU_Set k v c)"
| "LRU_exec (OpGet k) c = map_option (map_prod RetGet id) (LRU_Get k c)"
| "LRU_exec (OpDelete k) c = map_option (map_prod RetErr id) (LRU_Delete k c)"
| "LRU_exec OpListKeys c = Some (map_prod (RetKeys \<circ> set) id (LRU_ListKeys c))"
| "LRU_exec (OpResize n) c = map_option (map_prod RetResize id) (LRU_Resize n c)"
| "LRU_exec (OpGetIfOrSet k p f opts) c = map_option (map_prod RetFetch id) (LRU_GetIfOrSet k p f opts c)"

fun alru_exec :: "('e, 'v) lru_op \<Rightarrow> int \<times> 'v alru \<Rightarrow> ('e, 'v) lru_ret \<times> int \<times> 'v alru" where
  "alru_exec (OpSet k v) (n, xs) = (RetErr None, n, alru_set n k v xs)"
| "alru_exec (OpGet k) (n, xs) =
     (case map_of xs k of None \<Rightarrow> (RetGet (Inl ErrNotFound), n, xs)
      | Some v \<Rightarrow> (RetGet (Inr v), n, alru_del k xs @ [(k, v)]))"
| "alru_exec (OpDelete k) (n, xs) = (RetErr None, n, if k = [] then xs else alru_del k xs)"
| "alru_exec OpListKeys (n, xs) = (RetKeys (fst ` set xs), n, xs)"
| "alru_exec (OpResize m) (n, xs) =
     (if m \<le> 0 then (RetResize (Inl ErrInvalidSize), n, xs)
      else (RetResize (Inr (max 0 (int (length xs) - m))), m, drop (length xs - nat m) xs))"
| "alru_exec (OpGetIfOrSet k p f opts) (n, xs) =
     (let (r, ys) = alru_get_if_or_set n k p f xs in (RetFetch r, n, ys))"

fun alru_run :: "('e, 'v) lru_op list \<Rightarrow> int \<times> 'v alru \<Rightarrow> ('e, 'v) lru_ret list \<times> int \<times> 'v alru" where
  "alru_run [] a = ([], a)"
| "alru_run (x # xs) a =
     (let (r, a1) = alru_exec x a; (rs, a2) = alru_run xs a1 in (r # rs, a2))"

definition LRU_view :: "'v LRU \<Rightarrow> string \<rightharpoonup> 'v" where
  "LRU_view c k = (case map_of (cache c) k of None \<Rightarrow> None | Some a \<Rightarrow> map_option val (cells c a))"

definition lru_related :: "'v LRU \<Rightarrow> int \<times> 'v alru \<Rightarrow> bool" where
  "lru_related c a \<longleftrightarrow> capacity c = fst a \<and> lru_rep c (snd a)"

section \<open>Facts about represented caches\<close>

lemma lru_rep_cache:
  assumes "lru_rep c xs"
  shows "length (cache c) = length xs" "fst ` set (cache c) = fst ` set xs"
    and "LRU_view c = map_of xs"
proof -
  from assms obtain as where c: "lru_cells c as" "xs = entries c as" by (rule lru_repE)
  note D = lru_cellsD [OF c(1)]
  have kd: "keys_distinct (cache c)" and st: "set (cache c) = (\<lambda>a. (fst (the (ent (cells c) a)), a)) ` set as"
    using c(1) by (simp_all add: lru_cells_def)
  have "length (cache c) = card (set (cache c))"
    using kd by (simp add: distinct_card distinct_map)
  also have "\<dots> = card (set as)" unfolding st by (rule card_image) (simp add: inj_on_def)
  also have "\<dots> = length as" using D(1) by (simp add: distinct_card)
  finally show "length (cache c) = length xs" using c(2) by simp
  show "fst ` set (cache c) = fst ` set xs"
    unfolding st c(2) entries_def by (simp add: image_image)
  show "LRU_view c = map_of xs"
  proof
    fix k
    show "LRU_view c k = map_of xs k"
    proof (cases "map_of (cache c) k")
      case None
      then have "map_of xs k = None"
        using lru_rep_lookup_None [OF c(1)] c(2) by (simp add: map_of_eq_None_iff)
      with None show ?thesis by (simp add: LRU_view_def)
    next
      case (Some a)
      then have a: "a \<in> set as" "fst (the (ent (cells c) a)) = k"
        using st by (auto dest!: map_of_SomeD)
      then obtain v where v: "ent (cells c) a = Some (k, v)"
        using D(3) [of a] by (cases "ent (cells c) a") auto
      then have "(k, v) \<in> set xs" 
        using a(1) c(2) by (auto simp: entries_def image_iff intro!: bexI [of _ a])
      then have "map_of xs k = Some v" using lru_rep_distinct [OF assms] by (simp add: map_of_is_SomeI)
      with v Some show ?thesis by (auto simp: LRU_view_def ent_def split: option.splits)
    qed
  qed
qed


lemma lru_rep_size: "lru_rep c xs \<Longrightarrow> int (length xs) \<le> max 0 (capacity c)"
  by (simp add: lru_rep_def)

lemma LRU_ListKeys_sim:
  "lru_rep c xs \<Longrightarrow> set (fst (LRU_ListKeys c)) = fst ` set xs \<and> lru_sim c xs (snd (LRU_ListKeys c)) xs"
  using lru_rep_cache(2) [of c xs] by (simp add: LRU_ListKeys_def lru_sim_def)

lemma LRU_exec_sim:
  assumes "lru_related c a"
  shows "\<exists>c'. LRU_exec x c = Some (fst (alru_exec x a), c') \<and> lru_related c' (snd (alru_exec x a))"
proof -
  obtain xs where a: "a = (capacity c, xs)" and rep: "lru_rep c xs"
    using assms by (cases a) (auto simp: lru_related_def)
  show ?thesis
  proof (cases x)
    case (OpSet k v)
    then show ?thesis
      using LRU_Set_sim [OF rep, of k v] a by (auto simp: lru_related_def lru_sim_def)
  next
    case (OpGet k)
    then show ?thesis
      using LRU_Get_sim [OF rep, of k] a
      by (auto simp: lru_related_def lru_sim_def split: option.splits)
  next
    case (OpDelete k)
    then show ?thesis
      using LRU_Delete_sim [OF rep, of k] a by (auto simp: lru_related_def lru_sim_def)
  next
    case OpListKeys
    then show ?thesis
      using LRU_ListKeys_sim [OF rep] a by (auto simp: lru_related_def lru_sim_def map_prod_def split_beta)
  next
    case (OpResize n)
    then show ?thesis
      using LRU_Resize_sim [OF rep, of n] a by (auto simp: lru_related_def split: if_splits)
  next
    case (OpGetIfOrSet k p f opts)
    then show ?thesis
      using LRU_GetIfOrSet_sim [OF rep surjective_pairing, of k p f opts] a
      by (auto simp: lru_related_def lru_sim_drift_def split_beta)
  qed
qed

lemma LRU_run_sim:
  "lru_related c a \<Longrightarrow> \<exists>c'. run_steps LRU_exec ops c = Some (fst (alru_run ops a), c') \<and>
     lru_related c' (snd (alru_run ops a))"
proof (induction ops arbitrary: c a)
  case Nil
  then show ?case by simp
next
  case (Cons x ops)
  obtain c1 where 1: "LRU_exec x c = Some (fst (alru_exec x a), c1)" "lru_related c1 (snd (alru_exec x a))"
    using LRU_exec_sim [OF Cons.prems] by blast
  then show ?case using Cons.IH [OF 1(2)] by (auto simp: split_beta)
qed

lemma NewLRU_related: "NewLRU z n opts = Inr c \<Longrightarrow> lru_related c (n, [])"
  using NewLRU_rep [of z n opts c] by (simp add: lru_related_def)

section \<open>The most recently used keys\<close>

definition last_n :: "nat \<Rightarrow> 'a list \<Rightarrow> 'a list" where
  "last_n m xs = drop (length xs - m) xs"

definition sets :: "(string \<times> 'v) list \<Rightarrow> ('e, 'v) lru_op list" where
  "sets kvs = map (\<lambda>(k, v). OpSet k v) kvs"

lemma sets_snoc: "sets (kvs @ [(k, v)]) = sets kvs @ [OpSet k v]"
  by (simp add: sets_def)

lemma remdups_snoc: "remdups (xs @ [x]) = filter (\<lambda>y. y \<noteq> x) (remdups xs) @ [x]"
  by (induction xs) auto

lemma last_n_set: "set (last_n m xs) \<subseteq> set xs"
  by (simp add: last_n_def set_drop_subset)

lemma filter_neq_distinct:
  "distinct xs \<Longrightarrow> length (filter (\<lambda>y. y \<noteq> k) xs) = (if k \<in> set xs then length xs - 1 else length xs)"
proof (induction xs)
  case (Cons x xs)
  moreover have "k \<notin> set xs \<Longrightarrow> filter (\<lambda>y. y \<noteq> k) xs = xs" by (auto simp: filter_id_conv)
  moreover have "k \<in> set xs \<Longrightarrow> 0 < length xs" by auto
  ultimately show ?case by auto
qed simp

text \<open>Truncating after each step is the same as truncating once at the end.\<close>

lemma last_n_snoc:
  assumes "distinct xs" "1 \<le> m"
  shows "last_n m (filter (\<lambda>y. y \<noteq> k) xs @ [k]) = last_n m (filter (\<lambda>y. y \<noteq> k) (last_n m xs) @ [k])"
proof (cases "length xs \<le> m")
  case True
  then show ?thesis by (simp add: last_n_def)
next
  case False
  define A B where "A = take (length xs - m) xs" and "B = last_n m xs"
  have xs: "xs = A @ B" and B: "length B = m" "distinct B"
    using False assms(1) by (simp_all add: A_def B_def last_n_def)
  have "m \<le> length (filter (\<lambda>y. y \<noteq> k) B @ [k])"
    using filter_neq_distinct [OF B(2), of k] B(1) assms(2) by simp
  then show ?thesis unfolding B_def [symmetric] by (subst xs) (simp add: last_n_def)
qed

lemma alru_push_last_n:
  assumes "1 \<le> n" "length xs \<le> nat n"
  shows "snd (alru_push n k v xs) = last_n (nat n) (xs @ [(k, v)])"
proof -
  have "length xs = nat n \<Longrightarrow> xs \<noteq> []" using assms(1) by auto
  then show ?thesis using assms
    by (cases "length xs = nat n") (auto simp: alru_push_def last_n_def Let_def drop_Suc)
qed

lemma last_n_map: "last_n m (map f xs) = map f (last_n m xs)"
  by (simp add: last_n_def drop_map)

lemma alru_run_append:
  "alru_run (xs @ ys) a =
     (let (rs, b) = alru_run xs a; (ss, d) = alru_run ys b in (rs @ ss, d))"
  by (induction xs arbitrary: a) (auto simp: split_beta Let_def)

lemma alru_sets:
  assumes "1 \<le> n"
  shows "snd (alru_run (sets kvs :: ('e, 'v) lru_op list) (n, [])) =
    (n, map (\<lambda>k. (k, the (map_of (rev kvs) k))) (last_n (nat n) (remdups (map fst kvs))))"
proof (induction kvs rule: rev_induct)
  case Nil
  then show ?case by (simp add: sets_def last_n_def)
next
  case (snoc kv kvs)
  obtain k v where kv: "kv = (k, v)" by (cases kv)
  let ?K = "last_n (nat n) (remdups (map fst kvs))"
  let ?f = "\<lambda>k. (k, the (map_of (rev kvs) k))" and ?g = "\<lambda>k. (k, the (map_of (rev (kvs @ [kv])) k))"
  have del: "alru_del k (map ?f ?K) = map ?g (filter (\<lambda>y. y \<noteq> k) ?K)"
    by (simp add: alru_del_def filter_map comp_def kv)
  have "length ?K \<le> nat n" by (simp add: last_n_def)
  then have len: "length (map ?g (filter (\<lambda>y. y \<noteq> k) ?K)) \<le> nat n"
    unfolding length_map by (rule order_trans [OF length_filter_le])
  have "alru_set n k v (map ?f ?K) = last_n (nat n) (map ?g (filter (\<lambda>y. y \<noteq> k) ?K) @ [(k, v)])"
    unfolding alru_set_def del by (rule alru_push_last_n [OF assms len])
  also have "\<dots> = map ?g (last_n (nat n) (filter (\<lambda>y. y \<noteq> k) ?K @ [k]))"
    unfolding last_n_map [symmetric] by (simp add: kv)
  also have "\<dots> = map ?g (last_n (nat n) (remdups (map fst (kvs @ [kv]))))"
    using last_n_snoc [of "remdups (map fst kvs)" "nat n" k] assms by (simp add: remdups_snoc kv)
  finally have step: "alru_set n k v (map ?f ?K) = \<dots>" .
  have "snd (alru_run (sets (kvs @ [kv]) :: ('e, 'v) lru_op list) (n, [])) = (n, alru_set n k v (map ?f ?K))"
    using snoc by (simp add: sets_snoc alru_run_append split_beta kv Let_def)
  then show ?case unfolding step .
qed

lemma map_of_map_key: "map_of (map (\<lambda>k. (k, f k)) ks) k = (if k \<in> set ks then Some (f k) else None)"
  by (induction ks) auto

section \<open>The items gauge\<close>

text \<open>
  How far a call moves the items gauge away from the number of entries: \<open>Resize\<close> evicts
  without decrementing the gauge, and so does \<open>GetIfOrSet\<close> when it drops a stale entry and the
  fetch fails.
\<close>

fun lru_drift :: "('e, 'v) lru_op \<Rightarrow> int \<times> 'v alru \<Rightarrow> int" where
  "lru_drift (OpResize m) (n, xs) = (if m \<le> 0 then 0 else max 0 (int (length xs) - m))"
| "lru_drift (OpGetIfOrSet k p f opts) (n, xs) =
     (case map_of xs k of Some v \<Rightarrow> if \<not> p v \<and> isl f then 1 else 0 | None \<Rightarrow> 0)"
| "lru_drift _ _ = 0"

fun run_drift :: "('e, 'v) lru_op list \<Rightarrow> int \<times> 'v alru \<Rightarrow> int" where
  "run_drift [] a = 0"
| "run_drift (x # xs) a = lru_drift x a + run_drift xs (snd (alru_exec x a))"

definition gauge_offset :: "'v LRU \<Rightarrow> int" where
  "gauge_offset c = gauge (metrics c) - int (length (cache c))"

lemma LRU_delete_metrics: "LRU_delete p c = Some c' \<Longrightarrow> metrics c' = metrics c"
  by (auto simp: LRU_delete_def split: bind_splits)

lemma LRU_add_metrics: "LRU_add p c = Some (e, c') \<Longrightarrow> metrics c' = metrics c"
  by (auto simp: LRU_add_def Let_def split: bind_splits if_splits dest!: LRU_delete_metrics)

lemma alloc_metrics: "alloc k v c = (a, c') \<Longrightarrow> metrics c' = metrics c"
  by (auto simp: alloc_def)

lemma LRU_evict_metrics: "LRU_evict n c = Some c' \<Longrightarrow> metrics c' = None \<longleftrightarrow> metrics c = None"
proof (induction n arbitrary: c)
  case (Suc n)
  obtain p c1 where "LRU_delete p c = Some c1"
    "LRU_evict n (c1\<lparr>metrics := recordEviction (metrics c1)\<rparr>) = Some c'"
    using Suc.prems by (auto split: bind_splits intro: that)
  with Suc.IH show ?case by (fastforce dest: LRU_delete_metrics)
qed simp

lemma LRU_finish_metrics: "metrics (LRU_finish obj f ok ex ev c) = None \<longleftrightarrow> metrics c = None"
  by (simp add: LRU_finish_def Let_def split: option.split)

lemmas lru_metrics = LRU_delete_metrics LRU_add_metrics alloc_metrics LRU_evict_metrics

lemma LRU_exec_metrics:
  "LRU_exec x c = Some (r, c') \<Longrightarrow> metrics c' = None \<longleftrightarrow> metrics c = None"
  by (cases x; auto simp: LRU_Set_def LRU_Get_def LRU_Delete_def LRU_ListKeys_def LRU_Resize_def
      LRU_GetIfOrSet_def LRU_finish_metrics Let_def simp del: not_None_eq
      split: option.splits bind_splits prod.splits if_splits sum.splits dest!: lru_metrics)

lemma LRU_exec_drift:
  assumes "lru_related c a" "metrics c \<noteq> None" "LRU_exec x c = Some (r, c')"
  shows "gauge_offset c' = gauge_offset c + lru_drift x a"
proof -
  obtain xs where a: "a = (capacity c, xs)" and rep: "lru_rep c xs"
    using assms(1) by (cases a) (auto simp: lru_related_def)
  note len = lru_rep_cache(1)
  note S = len [OF rep] gauge_offset_def lru_sim_def lru_sim_drift_def a assms(2)
  show ?thesis
  proof (cases x)
    case (OpGet k)
    then show ?thesis
      using LRU_Get_sim [OF rep, of k] assms(3) by (auto simp: S dest!: len split: option.splits)
  next
    case (OpResize n)
    then show ?thesis
      using LRU_Resize_sim [OF rep, of n] assms(3) by (auto simp: S dest!: len split: if_splits)
  next
    case (OpGetIfOrSet k p f opts)
    have "isl (fst (alru_get_if_or_set (capacity c) k p f xs)) \<and> k \<in> fst ` set xs \<longleftrightarrow>
      (\<exists>v. map_of xs k = Some v \<and> \<not> p v \<and> isl f)"
      using map_of_SomeD_key [of xs k] by (auto simp: alru_get_if_or_set_def map_of_eq_None_iff
        split: option.splits sum.splits)
    with OpGetIfOrSet show ?thesis
      using LRU_GetIfOrSet_sim [OF rep surjective_pairing, of k p f opts] assms(3)
      by (auto simp: S dest!: len split: option.splits)
  next
    case (OpSet k v)
    then show ?thesis using LRU_Set_sim [OF rep, of k v] assms(3) by (auto simp: S dest!: len)
  next
    case (OpDelete k)
    then show ?thesis
      using LRU_Delete_sim [OF rep, of k] assms(3) by (auto simp: S dest!: len split: if_splits)
  next
    case OpListKeys
    then show ?thesis
      using LRU_ListKeys_sim [OF rep] assms(3) by (auto simp: S map_prod_def split_beta dest!: len)
  qed
qed

lemma LRU_run_drift:
  "lru_related c a \<Longrightarrow> metrics c \<noteq> None \<Longrightarrow> run_steps LRU_exec ops c = Some (rs, c') \<Longrightarrow>
     gauge_offset c' = gauge_offset c + run_drift ops a"
proof (induction ops arbitrary: c a rs)
  case (Cons x ops)
  obtain r c1 rs1 where 1: "LRU_exec x c = Some (r, c1)" "run_steps LRU_exec ops c1 = Some (rs1, c')"
    using Cons.prems(3) by (auto split: bind_splits)
  have "lru_related c1 (snd (alru_exec x a))" "metrics c1 \<noteq> None"
    using LRU_exec_sim [OF Cons.prems(1), of x] 1(1) LRU_exec_metrics [OF 1(1)] Cons.prems(2) by auto
  with Cons.IH [OF _ _ 1(2)] LRU_exec_drift [OF Cons.prems(1,2) 1(1)] show ?case by simp
qed simp

section \<open>The store contract\<close>

definition LRU_inv :: "'v LRU \<Rightarrow> bool" where
  "LRU_inv c \<longleftrightarrow> (\<exists>xs. lru_rep c xs)"

lemma map_of_alru_del: "map_of (alru_del k xs) = (map_of xs)(k := None)"
  unfolding alru_del_def by (induction xs) (auto simp: fun_eq_iff)

lemma map_of_alru_set: 
  assumes "keys_distinct xs"
  shows "map_of (alru_set n k v xs) \<subseteq>\<^sub>m (map_of xs)(k \<mapsto> v)"
proof -
  let ?ys = "alru_del k xs @ [(k, v)]"
  have d: "keys_distinct ?ys" "map_of ?ys = (map_of xs)(k \<mapsto> v)"
    using assms by (auto simp: alru_del_def distinct_map inj_on_def map_add_def fun_eq_iff
      map_of_alru_del [unfolded alru_del_def] split: option.splits)
  have "map_of (tl ?ys) \<subseteq>\<^sub>m map_of ?ys"
    using d(1) by (cases "?ys") (auto simp: map_le_def map_of_eq_None_iff dest: map_of_SomeD_key)
  with d(2) show ?thesis by (simp add: alru_set_def alru_push_def Let_def)
qed

lemma map_of_drop_le: "keys_distinct xs \<Longrightarrow> map_of (drop m xs) \<subseteq>\<^sub>m map_of xs"
  by (metis append_take_drop_id map_add_comm map_le_map_add map_of_append map_append
      distinct_append dom_map_of_conv_image_fst list.set_map)

lemma lru_rep_store: "lru_rep c xs \<Longrightarrow> LRU_inv c \<and> LRU_view c = map_of xs"
  using lru_rep_cache(3) by (auto simp: LRU_inv_def)

lemma LRU_set_store:
  assumes "lru_rep s xs"
  shows "\<exists>s'. LRU_Set k v s = Some (None, s') \<and> LRU_inv s' \<and> LRU_view s' \<subseteq>\<^sub>m (LRU_view s)(k \<mapsto> v)"
  using LRU_Set_sim [OF assms, of k v] map_of_alru_set [OF lru_rep_distinct [OF assms]]
  by (metis lru_rep_store assms lru_sim_def)

lemma LRU_get_store:
  assumes "lru_rep s xs"
  shows "\<exists>r s'. LRU_Get k s = Some (r, s') \<and> LRU_inv s' \<and> LRU_view s' = LRU_view s \<and>
    r = (case LRU_view s k of None \<Rightarrow> Inl ErrNotFound | Some v \<Rightarrow> Inr v)"
proof -
  have "map_of xs k = Some v \<Longrightarrow> map_of (alru_del k xs @ [(k, v)]) = map_of xs" for v
    by (auto simp: fun_eq_iff map_add_def map_of_alru_del split: option.splits)
  then show ?thesis
    using LRU_Get_sim [OF assms, of k] lru_rep_store [OF assms]
    by (auto simp: lru_sim_def dest!: lru_rep_store split: option.splits)
qed

lemma LRU_delete_store:
  assumes "lru_rep s xs" "k \<noteq> []"
  shows "\<exists>s'. LRU_Delete k s = Some (None, s') \<and> LRU_inv s' \<and> LRU_view s' = (LRU_view s)(k := None)"
  using LRU_Delete_sim [OF assms(1), of k] assms(2) lru_rep_store [OF assms(1)]
  by (auto simp: lru_sim_def map_of_alru_del dest!: lru_rep_store)

lemma LRU_resize_store:
  assumes "lru_rep s xs"
  shows "\<exists>r s'. LRU_Resize n s = Some (r, s') \<and> LRU_inv s' \<and> LRU_view s' \<subseteq>\<^sub>m LRU_view s"
  using LRU_Resize_sim [OF assms, of n] map_of_drop_le [OF lru_rep_distinct [OF assms]]
    lru_rep_store [OF assms]
  by (auto dest!: lru_rep_store split: if_splits)

interpretation lru: cache_store "\<lambda>_ :: unit. LRU_Set" "\<lambda>_. LRU_Get" "\<lambda>_. LRU_Delete"
  "\<lambda>n c. map_option snd (LRU_Resize n c)" LRU_inv LRU_view "\<lambda>k. k \<noteq> []"
proof unfold_locales
  fix s :: "'v LRU" and k v
  assume "LRU_inv s"
  then obtain xs where xs: "lru_rep s xs" by (auto simp: LRU_inv_def)
  show "\<exists>r s'. LRU_Set k v s = Some (r, s') \<and> LRU_inv s' \<and>
      LRU_view s' \<subseteq>\<^sub>m (if r = None then (LRU_view s)(k \<mapsto> v) else LRU_view s)"
    using LRU_set_store [OF xs, of k v] by auto
  show "\<exists>r s'. LRU_Get k s = Some (r, s') \<and> LRU_inv s' \<and> LRU_view s' \<subseteq>\<^sub>m LRU_view s \<and>
      (\<forall>v. r = Inr v \<longrightarrow> LRU_view s k = Some v)"
    using LRU_get_store [OF xs, of k] by (auto split: option.splits)
  show "\<exists>r s'. LRU_Delete k s = Some (r, s') \<and> LRU_inv s' \<and>
      LRU_view s' \<subseteq>\<^sub>m (if r = None then (LRU_view s)(k := None) else LRU_view s)" if "k \<noteq> []"
    using LRU_delete_store [OF xs that] by auto
  show "\<exists>s'. map_option snd (LRU_Resize n s) = Some s' \<and> LRU_inv s' \<and> LRU_view s' \<subseteq>\<^sub>m LRU_view s" for n
    using LRU_resize_store [OF xs, of n] by auto
qed

section \<open>Properties\<close>

text \<open>
  C1. Refinement of the LRU cache: from a freshly created cache of any capacity, every sequence
  of calls runs without a nil-pointer panic and returns exactly what the recency-list
  specification returns; the final map holds exactly the specified entries, and their number
  never exceeds the capacity.
\<close>

theorem LRU_refines_recency_list:
  assumes "NewLRU z n opts = Inr c"
  shows "\<exists>c' m xs. run_steps LRU_exec ops c = Some (fst (alru_run ops (n, [])), c') \<and>
    snd (alru_run ops (n, [])) = (m, xs) \<and>
    capacity c' = m \<and> LRU_view c' = map_of xs \<and> length (cache c') = length xs \<and>
    int (length (cache c')) \<le> max 0 m"
proof -
  obtain c' where c': "run_steps LRU_exec ops c = Some (fst (alru_run ops (n, [])), c')"
    "lru_related c' (snd (alru_run ops (n, [])))"
    using LRU_run_sim [OF NewLRU_related [OF assms]] by blast
  obtain m xs where a: "snd (alru_run ops (n, [])) = (m, xs)" by fastforce
  with c'(2) have rep: "capacity c' = m" "lru_rep c' xs" by (simp_all add: lru_related_def)
  show ?thesis
    using c'(1) a rep(1) lru_rep_cache [OF rep(2)] lru_rep_size [OF rep(2)] by auto
qed

theorem LRU_refines_recency_list_witness:
  "\<exists>c'. run_steps LRU_exec [OpSet ''a'' (1::nat), OpSet ''b'' 2, OpGet ''a'', OpSet ''c'' 3, OpGet ''b'']
      (projr (NewLRU 0 2 ([] :: unit Options list))) =
    Some ([RetErr None, RetErr None, RetGet (Inr 1), RetErr None, RetGet (Inl ErrNotFound)]
            :: (unit, nat) lru_ret list, c') \<and> length (cache c') = 2"
proof -
  have "NewLRU 0 2 ([] :: unit Options list) = Inr (projr (NewLRU (0::nat) 2 ([] :: unit Options list)))"
    by (simp add: NewLRU_def makeOptions_def)
  from LRU_refines_recency_list [OF this, of "[OpSet ''a'' 1, OpSet ''b'' 2, OpGet ''a'', OpSet ''c'' 3,
    OpGet ''b''] :: (unit, nat) lru_op list"]
  show ?thesis
    by (auto simp: alru_set_def alru_push_def alru_del_def Let_def)
qed

text \<open>
  Eviction order: after setting any sequence of keys in a new cache of capacity \<open>n \<ge> 1\<close>, the
  cache holds exactly the \<open>n\<close> distinct keys that were set last, each with its latest value.
\<close>

theorem LRU_keeps_most_recent:
  assumes "NewLRU z n opts = Inr c" "1 \<le> n"
  shows "\<exists>rs c'. run_steps LRU_exec (sets kvs :: ('e, 'v) lru_op list) c = Some (rs, c') \<and>
    LRU_view c' = (\<lambda>k. if k \<in> set (last_n (nat n) (remdups (map fst kvs)))
                       then map_of (rev kvs) k else None)"
proof -
  let ?K = "last_n (nat n) (remdups (map fst kvs))"
  obtain c' where c': "run_steps LRU_exec (sets kvs :: ('e, 'v) lru_op list) c = Some (fst (alru_run (sets kvs :: ('e, 'v) lru_op list) (n, [])), c')"
    "lru_related c' (n, map (\<lambda>k. (k, the (map_of (rev kvs) k))) ?K)"
    using LRU_run_sim [OF NewLRU_related [OF assms(1)], of "sets kvs :: ('e, 'v) lru_op list"] 
      alru_sets [OF assms(2), of kvs, where 'e = 'e] by auto
  have "k \<in> set ?K \<Longrightarrow> Some (the (map_of (rev kvs) k)) = map_of (rev kvs) k" for k
    using last_n_set [of "nat n" "remdups (map fst kvs)"] by (cases "map_of (rev kvs) k")
      (auto simp: map_of_eq_None_iff)
  then have "LRU_view c' = (\<lambda>k. if k \<in> set ?K then map_of (rev kvs) k else None)"
    using lru_rep_cache(3) [of c'] c'(2) by (auto simp: lru_related_def map_of_map_key fun_eq_iff)
  then show ?thesis using c'(1) by blast
qed

theorem LRU_keeps_most_recent_witness:
  "\<exists>rs c'. run_steps LRU_exec (sets [(''a'', 1::nat), (''b'', 2), (''a'', 3), (''c'', 4)])
       (projr (NewLRU 0 2 ([] :: unit Options list))) = Some (rs :: (unit, nat) lru_ret list, c') \<and>
     LRU_view c' ''a'' = Some 3 \<and> LRU_view c' ''b'' = None \<and> LRU_view c' ''c'' = Some 4"
proof -
  have "NewLRU 0 2 ([] :: unit Options list) = Inr (projr (NewLRU (0::nat) 2 ([] :: unit Options list)))"
    by (simp add: NewLRU_def makeOptions_def)
  from LRU_keeps_most_recent [OF this, of "[(''a'', 1), (''b'', 2), (''a'', 3), (''c'', 4)]"]
  show ?thesis by (fastforce simp: last_n_def)
qed

text \<open>
  The items gauge: for a cache with metrics, after any sequence of calls the gauge is the
  number of entries plus the drift of the run. It is exact for \<open>Set\<close>, \<open>Get\<close>, \<open>Delete\<close> and
  successful fetches; only \<open>Resize\<close> (by the number of evicted entries) and a failed refresh
  (by one) leave it too high.
\<close>

theorem LRU_gauge_drift:
  assumes "NewLRU z n opts = Inr c" "metrics c \<noteq> None"
  shows "\<exists>rs c'. run_steps LRU_exec ops c = Some (rs, c') \<and>
    gauge (metrics c') = int (length (cache c')) + run_drift ops (n, [])"
proof -
  obtain rs c' where run: "run_steps LRU_exec ops c = Some (rs, c')"
    using LRU_run_sim [OF NewLRU_related [OF assms(1)]] by blast
  have "gauge_offset c = 0"
    using assms by (auto simp: NewLRU_def gauge_offset_def gauge_def split: sum.splits if_splits)
  with LRU_run_drift [OF NewLRU_related [OF assms(1)] assms(2) run] run show ?thesis
    by (simp add: gauge_offset_def)
qed

theorem LRU_gauge_drift_witness:
  "\<exists>rs c'. run_steps LRU_exec [OpSet ''a'' (1::nat), OpSet ''b'' 2, OpResize 1]
       (projr (NewLRU 0 2 [WithMetricsRegisterer True :: unit Options])) =
       Some (rs :: (unit, nat) lru_ret list, c') \<and>
     gauge (metrics c') = int (length (cache c')) + 1"
proof -
  let ?c = "projr (NewLRU (0::nat) 2 [WithMetricsRegisterer True :: unit Options])"
  have "NewLRU 0 2 [WithMetricsRegisterer True :: unit Options] = Inr ?c" "metrics ?c \<noteq> None"
    by (simp_all add: NewLRU_def makeOptions_def WithMetricsRegisterer_def zeroOptions_def)
  from LRU_gauge_drift [OF this, of "[OpSet ''a'' 1, OpSet ''b'' 2, OpResize 1] :: (unit, nat) lru_op list"]
  show ?thesis by (simp add: alru_set_def alru_push_def alru_del_def)
qed



text \<open>
  The sentinels of the list have the empty key, and \<open>Delete\<close> leaves early on a sentinel's key:
  deleting the empty key reports success and changes no entry, even when the empty key is stored.
\<close>

theorem LRU_Delete_empty_key:
  assumes "NewLRU z n opts = Inr c" "run_steps LRU_exec ops c = Some (rs, c1)"
  shows "\<exists>c2. LRU_Delete [] c1 = Some (None, c2) \<and> LRU_view c2 = LRU_view c1"
proof -
  obtain xs where "lru_rep c1 xs"
    using LRU_run_sim [OF NewLRU_related [OF assms(1)], of ops] assms(2)
    by (auto simp: lru_related_def)
  then show ?thesis
    using LRU_Delete_sim [of c1 xs "[]"] by (auto simp: lru_sim_def dest!: lru_rep_cache(3))
qed

theorem LRU_Delete_empty_key_witness:
  "\<exists>c2. LRU_Delete [] (snd (the (run_steps LRU_exec [OpSet [] (1::nat) :: (unit, nat) lru_op]
       (projr (NewLRU 0 2 ([] :: unit Options list)))))) = Some (None, c2) \<and> LRU_view c2 [] = Some 1"
proof -
  let ?c = "projr (NewLRU (0::nat) 2 ([] :: unit Options list))"
  let ?ops = "[OpSet [] 1 :: (unit, nat) lru_op]"
  have c: "NewLRU 0 2 ([] :: unit Options list) = Inr ?c"
    by (simp add: NewLRU_def makeOptions_def)
  have "fst (the (run_steps LRU_exec ?ops ?c)) = [RetErr None] \<and>
    LRU_view (snd (the (run_steps LRU_exec ?ops ?c))) [] = Some 1 \<and> run_steps LRU_exec ?ops ?c \<noteq> None"
    by code_simp
  then show ?thesis
    using LRU_Delete_empty_key [OF c, of ?ops "[RetErr None]" "snd (the (run_steps LRU_exec ?ops ?c))"] by auto
qed

end
