(* ===== verification/Expiring_Cache.thy ===== *)
theory Expiring_Cache
  imports Store_Contract
begin

text \<open>
  The expiring cache of \<open>cache/cache.go\<close>. Items are heap objects shared between the index (a map
  from keys to items) and the slice \<open>items\<close>; \<open>Set\<close> of a known key replaces the index's item but
  not the slice's, so the two are kept apart here by explicit addresses. Times are nanoseconds since Go's zero
  time, which is \<open>0\<close>; an operation takes the reading of \<open>time.Now\<close> as its first argument. Methods
  hold the mutex, so each is one atomic step; \<open>Close\<close> and the janitor goroutine, which also
  synchronise over a channel, are in theory \<open>Janitor\<close>.
\<close>

section \<open>State\<close>

record 'v item =
  ikey :: string
  ivalue :: 'v
  expiresAt :: int

record 'v Cache =
  iheap :: "'v item list"
  index :: "(string, nat) gomap"
  items :: "nat list"
  sorted_flag :: bool
  capacity :: int
  metrics :: cacheMetrics
  closed :: bool

definition noExpiration :: int where
  "noExpiration = 1000000000 * 86400 * 365 * 10"

section \<open>Operations\<close>

text \<open>\<open>New\<close>: \<open>make\<close> of a slice with a negative capacity panics.\<close>

definition Cache_New :: "int \<Rightarrow> 'e Options list \<Rightarrow> ('e + 'v Cache) option" where
  "Cache_New cap opts =
     (case makeOptions opts of
        Inl e \<Rightarrow> Some (Inl e)
      | Inr opt \<Rightarrow>
          if cap < 0 then None
          else Some (Inr \<lparr>iheap = [], index = [], items = [], sorted_flag = True, capacity = cap,
            metrics = (if registerer opt then Some [] else None), closed = False\<rparr>))"

definition request :: "request_status \<Rightarrow> 'v Cache \<Rightarrow> 'v Cache" where
  "request s c = c\<lparr>metrics := recordRequest (metrics c) s\<rparr>"

definition cache_set :: "int \<Rightarrow> string \<Rightarrow> 'v \<Rightarrow> 'v Cache \<Rightarrow> 'v Cache" where
  "cache_set now k v c =
     (let p = length (iheap c);
          c1 = c\<lparr>iheap := iheap c @ [\<lparr>ikey = k, ivalue = v, expiresAt = now + noExpiration\<rparr>]\<rparr>
      in if map_of (index c) k \<noteq> None then c1\<lparr>index := AList.update k p (index c1)\<rparr>
         else c1\<lparr>index := AList.update k p (index c1), items := items c1 @ [p]\<rparr>)"

definition Cache_Set :: "int \<Rightarrow> string \<Rightarrow> 'v \<Rightarrow> 'v Cache \<Rightarrow> CacheErrorReason option \<times> 'v Cache" where
  "Cache_Set now k v c =
     (if closed c then (Some ErrCacheClosed, request StatusFailure c)
      else if map_of (index c) k \<noteq> None then (None, request StatusSuccess (cache_set now k v c))
      else if capacity c > 0 \<and> int (length (index c)) < capacity c then
        let c1 = request StatusSuccess (cache_set now k v c) in
        (None, c1\<lparr>metrics := recordItemIncrement (metrics c1)\<rparr>)
      else (Some ErrCacheFull, request StatusFailure c))"

definition Cache_Get :: "int \<Rightarrow> string \<Rightarrow> 'v Cache \<Rightarrow> (CacheErrorReason + 'v) \<times> 'v Cache" where
  "Cache_Get now k c =
     (if closed c then (Inl ErrCacheClosed, request StatusFailure c)
      else case map_of (index c) k of
        None \<Rightarrow> (Inl ErrNotFound, request StatusSuccess c)
      | Some p \<Rightarrow>
          let it = iheap c ! p in
          if expiresAt it \<noteq> 0 \<and> expiresAt it < now then (Inl ErrNotFound, request StatusSuccess c)
          else (Inr (ivalue it), request StatusSuccess c))"

definition Cache_Delete :: "int \<Rightarrow> string \<Rightarrow> 'v Cache \<Rightarrow> CacheErrorReason option \<times> 'v Cache" where
  "Cache_Delete now k c =
     (if closed c then (Some ErrCacheClosed, request StatusFailure c)
      else case map_of (index c) k of
        None \<Rightarrow> (None, request StatusSuccess c)
      | Some p \<Rightarrow>
          (None, request StatusSuccess (c\<lparr>iheap := (iheap c)[p := (iheap c ! p)\<lparr>expiresAt := now\<rparr>]\<rparr>)))"

definition Cache_Clear :: "'v Cache \<Rightarrow> 'v Cache" where
  "Cache_Clear c = (if closed c then c else c\<lparr>index := []\<rparr>)"

definition Cache_ListKeys :: "'v Cache \<Rightarrow> (CacheErrorReason + string list) \<times> 'v Cache" where
  "Cache_ListKeys c =
     (if closed c then (Inl ErrCacheClosed, request StatusFailure c)
      else (Inr (map fst (index c)), request StatusSuccess c))"

definition expiry_lt :: "'v item list \<Rightarrow> nat \<Rightarrow> nat \<Rightarrow> bool" where
  "expiry_lt h p q \<longleftrightarrow> expiresAt (h ! p) < expiresAt (h ! q)"

definition ensure_sorted :: "'v Cache \<Rightarrow> 'v Cache" where
  "ensure_sorted c =
     (if sorted_flag c then c
      else c\<lparr>items := sort_Slice (expiry_lt (iheap c)) (items c), sorted_flag := True\<rparr>)"

text \<open>The loop that both \<open>Resize\<close> and \<open>deleteExpired\<close> run over a prefix of \<open>items\<close>.\<close>

fun evict_each :: "nat list \<Rightarrow> 'v Cache \<Rightarrow> 'v Cache" where
  "evict_each [] c = c"
| "evict_each (p # ps) c =
     evict_each ps (c\<lparr>index := AList.delete (ikey (iheap c ! p)) (index c),
                      metrics := recordDecrement (recordEviction (metrics c))\<rparr>)"

definition evict_prefix :: "nat \<Rightarrow> 'v Cache \<Rightarrow> 'v Cache" where
  "evict_prefix n c = (evict_each (take n (items c)) c)\<lparr>items := drop n (items c)\<rparr>"

definition Cache_Resize :: "int \<Rightarrow> 'v Cache \<Rightarrow> (CacheErrorReason + int) \<times> 'v Cache" where
  "Cache_Resize size' c =
     (if size' \<le> 0 then (Inl ErrInvalidSize, request StatusFailure c)
      else
        let overflow = int (length (items c)) - size' in
        if closed c then (Inl ErrCacheClosed, request StatusFailure c)
        else
          let c1 = c\<lparr>capacity := size'\<rparr> in
          if overflow \<le> 0 then (Inr 0, request StatusSuccess c1)
          else (Inr overflow, request StatusSuccess (evict_prefix (nat overflow) (ensure_sorted c1))))"

definition Cache_HasExpired :: "int \<Rightarrow> string \<Rightarrow> 'v Cache \<Rightarrow> (CacheErrorReason + bool) \<times> 'v Cache" where
  "Cache_HasExpired now k c =
     (if closed c then (Inl ErrCacheClosed, request StatusFailure c)
      else case map_of (index c) k of
        None \<Rightarrow> (Inr True, request StatusSuccess c)
      | Some p \<Rightarrow> (Inr (expiresAt (iheap c ! p) < now), request StatusSuccess c))"

definition Cache_SetExpiration ::
  "string \<Rightarrow> int \<Rightarrow> 'v Cache \<Rightarrow> CacheErrorReason option \<times> 'v Cache" where
  "Cache_SetExpiration k expiration c =
     (if closed c then (Some ErrCacheClosed, request StatusFailure c)
      else case map_of (index c) k of
        None \<Rightarrow> (Some ErrNotFound, request StatusFailure c)
      | Some p \<Rightarrow>
          (None, request StatusSuccess
             (c\<lparr>iheap := (iheap c)[p := (iheap c ! p)\<lparr>expiresAt := expiration\<rparr>],
                sorted_flag := False\<rparr>)))"

definition Cache_GetExpiration :: "int \<Rightarrow> string \<Rightarrow> 'v Cache \<Rightarrow> (CacheErrorReason + int) \<times> 'v Cache" where
  "Cache_GetExpiration now k c =
     (if closed c then (Inl ErrCacheClosed, request StatusFailure c)
      else case map_of (index c) k of
        None \<Rightarrow> (Inl ErrNotFound, request StatusSuccess c)
      | Some p \<Rightarrow>
          let it = iheap c ! p in
          if expiresAt it \<noteq> 0 \<and> expiresAt it < now then (Inr 0, request StatusSuccess c)
          else (Inr (expiresAt it), request StatusSuccess c))"

definition deleteExpired :: "int \<Rightarrow> 'v Cache \<Rightarrow> 'v Cache" where
  "deleteExpired t c =
     (if closed c then c
      else
        let c1 = ensure_sorted c;
            ix = sort_Search (length (items c1)) (\<lambda>i. expiresAt (iheap c1 ! (items c1 ! i)) > t)
        in evict_prefix ix c1)"

text \<open>\<open>Close\<close> once the janitor has taken the stop signal.\<close>

definition Cache_Close :: "'v Cache \<Rightarrow> CacheErrorReason option \<times> 'v Cache" where
  "Cache_Close c = (if closed c then (Some ErrCacheClosed, c) else (None, c\<lparr>closed := True\<rparr>))"

end
