(* ===== verification/Expiring_Invariant.thy ===== *)
theory Expiring_Invariant
  imports Expiring_Cache
begin

text \<open>
  Invariants of the expiring cache over every sequence of calls, its \<open>Store\<close> contract under an
  advancing clock, the exactness of the clean-up when the \<open>sorted\<close> flag tells the truth, and the call
  sequences after which it does not.
\<close>

section \<open>Sequences of calls\<close>

datatype 'v cache_op =
    COpSet string 'v
  | COpGet string
  | COpDelete string
  | COpClear
  | COpListKeys
  | COpResize int
  | COpHasExpired string
  | COpSetExpiration string int
  | COpGetExpiration string
  | COpCleanup
  | COpClose

text \<open>The state after a call at time \<open>now\<close>.\<close>

fun cache_next :: "int \<Rightarrow> 'v cache_op \<Rightarrow> 'v Cache \<Rightarrow> 'v Cache" where
  "cache_next now (COpSet k v) c = snd (Cache_Set now k v c)"
| "cache_next now (COpGet k) c = snd (Cache_Get now k c)"
| "cache_next now (COpDelete k) c = snd (Cache_Delete now k c)"
| "cache_next now COpClear c = Cache_Clear c"
| "cache_next now COpListKeys c = snd (Cache_ListKeys c)"
| "cache_next now (COpResize n) c = snd (Cache_Resize n c)"
| "cache_next now (COpHasExpired k) c = snd (Cache_HasExpired now k c)"
| "cache_next now (COpSetExpiration k t) c = snd (Cache_SetExpiration k t c)"
| "cache_next now (COpGetExpiration k) c = snd (Cache_GetExpiration now k c)"
| "cache_next now COpCleanup c = deleteExpired now c"
| "cache_next now COpClose c = snd (Cache_Close c)"

fun cache_run :: "(int \<times> 'v cache_op) list \<Rightarrow> 'v Cache \<Rightarrow> 'v Cache" where
  "cache_run [] c = c"
| "cache_run ((now, x) # xs) c = cache_run xs (cache_next now x c)"

section \<open>Structural invariant\<close>

abbreviation item_key :: "'v Cache \<Rightarrow> nat \<Rightarrow> string" where
  "item_key c p \<equiv> ikey (iheap c ! p)"

text \<open>
  The index has no dangling or mislabelled pointer, every indexed key has an entry in the slice (so
  the clean-up can find it), and the index respects the capacity.
\<close>

definition cache_ok :: "'v Cache \<Rightarrow> bool" where
  "cache_ok c \<longleftrightarrow>
     keys_distinct (index c) \<and>
     (\<forall>(k, p) \<in> set (index c). p < length (iheap c) \<and> item_key c p = k) \<and>
     (\<forall>p \<in> set (items c). p < length (iheap c)) \<and>
     fst ` set (index c) \<subseteq> item_key c ` set (items c) \<and>
     length (index c) \<le> nat (capacity c)"

lemma request_simps [simp]:
  "iheap (request s c) = iheap c" "index (request s c) = index c" "items (request s c) = items c"
  "sorted_flag (request s c) = sorted_flag c" "capacity (request s c) = capacity c"
  "closed (request s c) = closed c"
  by (simp_all add: request_def)

lemma cache_ok_request [simp]: "cache_ok (request s c) = cache_ok c"
  by (simp add: cache_ok_def)

lemma cache_ok_metrics [simp]: "cache_ok (c\<lparr>metrics := m\<rparr>) = cache_ok c"
  by (simp add: cache_ok_def)

lemma cache_ok_lookup:
  "cache_ok c \<Longrightarrow> map_of (index c) k = Some p \<Longrightarrow> p < length (iheap c) \<and> item_key c p = k"
  by (auto simp: cache_ok_def dest!: map_of_SomeD)

lemma cache_set_simps [simp]:
  "iheap (cache_set now k v c) = iheap c @ [\<lparr>ikey = k, ivalue = v, expiresAt = now + noExpiration\<rparr>]"
  "index (cache_set now k v c) = AList.update k (length (iheap c)) (index c)"
  "items (cache_set now k v c) =
     (if map_of (index c) k = None then items c @ [length (iheap c)] else items c)"
  "capacity (cache_set now k v c) = capacity c" "closed (cache_set now k v c) = closed c"
  "sorted_flag (cache_set now k v c) = sorted_flag c" "metrics (cache_set now k v c) = metrics c"
  by (simp_all add: cache_set_def Let_def)

lemma cache_ok_set:
  assumes ok: "cache_ok c"
    and room: "map_of (index c) k = None \<Longrightarrow> int (length (index c)) < capacity c"
  shows "cache_ok (cache_set now k v c)"
proof -
  note D = ok [unfolded cache_ok_def]
  let ?c = "cache_set now k v c"
  have old: "p < length (iheap c) \<Longrightarrow> item_key ?c p = item_key c p" for p by (simp add: nth_append)
  have "item_key ?c ` set (items c) = item_key c ` set (items c)"
    using D old by (intro image_cong) auto
  then have "fst ` set (index ?c) \<subseteq> item_key ?c ` set (items ?c)"
    using D by (auto simp: keys_update map_of_eq_None_iff nth_append)
  moreover have "length (index ?c) \<le> nat (capacity ?c)"
    using D room by (auto simp: length_update map_of_eq_None_iff)
  moreover have "\<forall>(k', p) \<in> set (index ?c). p < length (iheap ?c) \<and> item_key ?c p = k'"
    using D by (auto simp: set_update_keys nth_append split: if_splits)
  moreover have "\<forall>p \<in> set (items ?c). p < length (iheap ?c)" using D by auto
  ultimately show ?thesis using D by (simp add: cache_ok_def distinct_update)
qed

text \<open>Changing the expiry of an item.\<close>

definition set_expiry :: "nat \<Rightarrow> int \<Rightarrow> 'v Cache \<Rightarrow> 'v Cache" where
  "set_expiry p t c = c\<lparr>iheap := (iheap c)[p := (iheap c ! p)\<lparr>expiresAt := t\<rparr>]\<rparr>"

lemma set_expiry_key [simp]: "item_key (set_expiry p t c) q = item_key c q"
  by (cases "p < length (iheap c)") (simp_all add: set_expiry_def nth_list_update list_update_beyond)

lemma set_expiry_time:
  "expiresAt (iheap (set_expiry p t c) ! q) =
     (if q = p \<and> p < length (iheap c) then t else expiresAt (iheap c ! q))"
  by (cases "p < length (iheap c)") (auto simp: set_expiry_def nth_list_update list_update_beyond)

lemma set_expiry_simps [simp]:
  "index (set_expiry p t c) = index c" "items (set_expiry p t c) = items c"
  "capacity (set_expiry p t c) = capacity c" "length (iheap (set_expiry p t c)) = length (iheap c)"
  "closed (set_expiry p t c) = closed c" "sorted_flag (set_expiry p t c) = sorted_flag c"
  by (simp_all add: set_expiry_def)

lemma cache_ok_set_expiry [simp]: "cache_ok (set_expiry p t c) = cache_ok c"
  by (simp add: cache_ok_def)

lemma cache_ok_flag [simp]: "cache_ok (c\<lparr>sorted_flag := b\<rparr>) = cache_ok c"
  by (simp add: cache_ok_def)

text \<open>Sorting and evicting a prefix.\<close>

lemma ensure_sorted_simps [simp]:
  "iheap (ensure_sorted c) = iheap c" "index (ensure_sorted c) = index c"
  "capacity (ensure_sorted c) = capacity c" "closed (ensure_sorted c) = closed c"
  "set (items (ensure_sorted c)) = set (items c)"
  "length (items (ensure_sorted c)) = length (items c)"
  "distinct (map f (items (ensure_sorted c))) = distinct (map f (items c))"
  by (simp_all add: ensure_sorted_def)

lemma evict_each_simps [simp]:
  "iheap (evict_each ps c) = iheap c" "items (evict_each ps c) = items c"
  "capacity (evict_each ps c) = capacity c" "closed (evict_each ps c) = closed c"
  "sorted_flag (evict_each ps c) = sorted_flag c"
  by (induction ps arbitrary: c) auto

lemma evict_each_index:
  "index (evict_each ps c) = filter (\<lambda>e. fst e \<notin> item_key c ` set ps) (index c)"
  by (induction ps arbitrary: c) (auto simp: AList.delete_eq intro!: filter_cong)

lemma evict_prefix_simps [simp]:
  "iheap (evict_prefix n c) = iheap c" "items (evict_prefix n c) = drop n (items c)"
  "capacity (evict_prefix n c) = capacity c" "closed (evict_prefix n c) = closed c"
  "sorted_flag (evict_prefix n c) = sorted_flag c"
  "index (evict_prefix n c) = filter (\<lambda>e. fst e \<notin> item_key c ` set (take n (items c))) (index c)"
  by (simp_all add: evict_prefix_def evict_each_index)

lemma length_le_keys:
  assumes "keys_distinct m" "fst ` set m \<subseteq> f ` set xs"
  shows "length m \<le> length xs"
proof -
  have "length m = card (fst ` set m)" using assms(1) by (metis distinct_card length_map list.set_map)
  also have "\<dots> \<le> card (f ` set xs)" by (rule card_mono) (use assms(2) in auto)
  also have "\<dots> \<le> length xs" by (metis card_length length_map list.set_map)
  finally show ?thesis .
qed

lemma evict_prefix_keys:
  assumes "fst ` set (index c) \<subseteq> item_key c ` set (items c)"
  shows "fst ` set (index (evict_prefix n c)) \<subseteq> item_key c ` set (items (evict_prefix n c))"
proof -
  have "set (items c) = set (take n (items c)) \<union> set (drop n (items c))"
    by (metis append_take_drop_id set_append)
  then show ?thesis using assms by auto
qed

lemma evict_prefix_parts:
  assumes "cache_ok c"
  shows "keys_distinct (index (evict_prefix n c))"
    and "\<forall>(k, p) \<in> set (index (evict_prefix n c)). p < length (iheap c) \<and> item_key c p = k"
    and "\<forall>p \<in> set (items (evict_prefix n c)). p < length (iheap c)"
    and "length (index (evict_prefix n c)) \<le> nat (capacity c)"
    and "length (index (evict_prefix n c)) \<le> length (items c) - n"
proof -
  note D = assms [unfolded cache_ok_def]
  show kd: "keys_distinct (index (evict_prefix n c))" using D by (simp add: distinct_map_filter)
  show "\<forall>(k, p) \<in> set (index (evict_prefix n c)). p < length (iheap c) \<and> item_key c p = k"
    using D by auto
  show "\<forall>p \<in> set (items (evict_prefix n c)). p < length (iheap c)"
    using D by (auto dest: in_set_dropD)
  have "length (index (evict_prefix n c)) \<le> length (index c)" by simp
  then show "length (index (evict_prefix n c)) \<le> nat (capacity c)" using D by linarith
  have "fst ` set (index (evict_prefix n c)) \<subseteq> item_key c ` set (items (evict_prefix n c))"
    by (rule evict_prefix_keys) (use D in blast)
  from length_le_keys [OF kd this]
  show "length (index (evict_prefix n c)) \<le> length (items c) - n" by simp
qed

lemma cache_ok_evict:
  assumes "cache_ok c"
  shows "cache_ok (evict_prefix n c)"
proof -
  have "fst ` set (index (evict_prefix n c)) \<subseteq> item_key c ` set (items (evict_prefix n c))"
    by (rule evict_prefix_keys) (use assms in \<open>simp add: cache_ok_def\<close>)
  with evict_prefix_parts(1-4) [OF assms, of n] show ?thesis unfolding cache_ok_def evict_prefix_simps(1,3) by blast
qed

lemma evict_prefix_capacity: "evict_prefix n (c\<lparr>capacity := m\<rparr>) = (evict_prefix n c)\<lparr>capacity := m\<rparr>"
proof -
  have "evict_each ps (c\<lparr>capacity := m\<rparr>) = (evict_each ps c)\<lparr>capacity := m\<rparr>" for ps
  proof (induction ps arbitrary: c)
    case (Cons p ps)
    show ?case
      using Cons.IH [of "c\<lparr>index := AList.delete (item_key c p) (index c),
        metrics := recordDecrement (recordEviction (metrics c))\<rparr>"] by (cases c) simp
  qed simp
  then show ?thesis by (simp add: evict_prefix_def)
qed

lemma cache_ok_capacity:
  "cache_ok c \<Longrightarrow> length (index c) \<le> nat m \<Longrightarrow> cache_ok (c\<lparr>capacity := m\<rparr>)"
  by (simp add: cache_ok_def)

lemma ensure_sorted_capacity: "ensure_sorted (c\<lparr>capacity := m\<rparr>) = (ensure_sorted c)\<lparr>capacity := m\<rparr>"
  by (simp add: ensure_sorted_def)

lemma cache_ok_sorted [simp]: "cache_ok (ensure_sorted c) = cache_ok c"
  by (simp add: cache_ok_def)

lemma cache_ok_Resize:
  assumes "cache_ok c"
  shows "cache_ok (snd (Cache_Resize n c))"
proof -
  let ?m = "nat (int (length (items c)) - n)"
  have "length (index c) \<le> length (items c)"
    using length_le_keys [of "index c" "item_key c" "items c"] assms by (simp add: cache_ok_def)
  moreover have "length (index (evict_prefix ?m (ensure_sorted c))) \<le> length (items c) - ?m"
    using evict_prefix_parts(5) [of "ensure_sorted c" ?m] assms by simp
  ultimately show ?thesis using assms
    by (simp add: Cache_Resize_def Let_def ensure_sorted_capacity evict_prefix_capacity
      cache_ok_evict cache_ok_capacity)
qed

lemma cache_ok_deleteExpired: "cache_ok c \<Longrightarrow> cache_ok (deleteExpired t c)"
  by (simp add: deleteExpired_def Let_def cache_ok_evict)

lemma Cache_Delete_expiry:
  "snd (Cache_Delete now k c) =
     (if closed c then request StatusFailure c
      else case map_of (index c) k of None \<Rightarrow> request StatusSuccess c
           | Some p \<Rightarrow> request StatusSuccess (set_expiry p now c))"
  by (simp add: Cache_Delete_def set_expiry_def split: option.split)

lemma Cache_SetExpiration_expiry:
  "snd (Cache_SetExpiration k t c) =
     (if closed c then request StatusFailure c
      else case map_of (index c) k of None \<Rightarrow> request StatusFailure c
           | Some p \<Rightarrow> request StatusSuccess ((set_expiry p t c)\<lparr>sorted_flag := False\<rparr>))"
  by (simp add: Cache_SetExpiration_def set_expiry_def split: option.split)

lemma read_only [simp]:
  "cache_ok (snd (Cache_Get now k c)) = cache_ok c"
  "cache_ok (snd (Cache_ListKeys c)) = cache_ok c"
  "cache_ok (snd (Cache_HasExpired now k c)) = cache_ok c"
  "cache_ok (snd (Cache_GetExpiration now k c)) = cache_ok c"
  by (simp_all add: Cache_Get_def Cache_ListKeys_def Cache_HasExpired_def Cache_GetExpiration_def
      Let_def split: option.split)

lemma cache_ok_Set: "cache_ok c \<Longrightarrow> cache_ok (snd (Cache_Set now k v c))"
  by (auto simp: Cache_Set_def Let_def intro!: cache_ok_set)

lemma cache_ok_next: "cache_ok c \<Longrightarrow> cache_ok (cache_next now x c)"
proof (cases x)
  case COpClear
  then show "cache_ok c \<Longrightarrow> cache_ok (cache_next now x c)"
    by (simp add: Cache_Clear_def cache_ok_def)
next
  case COpClose
  then show "cache_ok c \<Longrightarrow> cache_ok (cache_next now x c)"
    by (simp add: Cache_Close_def cache_ok_def)
qed (auto simp: cache_ok_Set cache_ok_Resize cache_ok_deleteExpired Cache_Delete_expiry
    Cache_SetExpiration_expiry split: option.split)

lemma cache_ok_run: "cache_ok c \<Longrightarrow> cache_ok (cache_run xs c)"
  by (induction xs c rule: cache_run.induct) (auto intro: cache_ok_next)

lemma cache_ok_New: "Cache_New n opts = Some (Inr c) \<Longrightarrow> cache_ok c"
  by (auto simp: Cache_New_def cache_ok_def split: sum.splits if_splits)

section \<open>The store contract\<close>

text \<open>
  The state of a run is the last clock reading together with the cache; each request first advances
  the clock by at least one nanosecond. An entry is visible when a \<open>Get\<close> at any later reading
  could still return it.
\<close>

definition Cache_view :: "int \<times> 'v Cache \<Rightarrow> string \<rightharpoonup> 'v" where
  "Cache_view s k =
     (case map_of (index (snd s)) k of
        None \<Rightarrow> None
      | Some p \<Rightarrow>
          let it = iheap (snd s) ! p in
          if expiresAt it = 0 \<or> fst s < expiresAt it then Some (ivalue it) else None)"

definition at_time :: "nat \<Rightarrow> (int \<Rightarrow> 'v Cache \<Rightarrow> 'r \<times> 'v Cache) \<Rightarrow> int \<times> 'v Cache \<Rightarrow>
    ('r \<times> int \<times> 'v Cache) option" where
  "at_time d f s =
     (let now = fst s + 1 + int d; (r, c) = f now (snd s) in Some (r, now, c))"

fun maintain :: "nat \<times> unit cache_op \<Rightarrow> int \<times> 'v Cache \<Rightarrow> (int \<times> 'v Cache) option" where
  "maintain (d, COpClear) s = map_option snd (at_time d (\<lambda>now c. ((), Cache_Clear c)) s)"
| "maintain (d, COpResize n) s = map_option snd (at_time d (\<lambda>now. Cache_Resize n) s)"
| "maintain (d, COpCleanup) s = map_option snd (at_time d (\<lambda>now c. ((), deleteExpired now c)) s)"
| "maintain (d, COpClose) s = map_option snd (at_time d (\<lambda>now. Cache_Close) s)"
| "maintain (d, _) s = Some s"

definition clock_ok :: "int \<times> 'v Cache \<Rightarrow> bool" where
  "clock_ok s \<longleftrightarrow> 0 < fst s \<and> cache_ok (snd s)"

lemma Cache_view_Some:
  "Cache_view s k = Some v \<longleftrightarrow> (\<exists>p. map_of (index (snd s)) k = Some p \<and>
     (expiresAt (iheap (snd s) ! p) = 0 \<or> fst s < expiresAt (iheap (snd s) ! p)) \<and>
     ivalue (iheap (snd s) ! p) = v)"
  by (auto simp: Cache_view_def Let_def split: option.splits)

text \<open>Later, and with fewer index entries on the same heap, no more is visible.\<close>

lemma Cache_view_mono:
  assumes "fst s < now" "iheap c = iheap (snd s)" "map_of (index c) \<subseteq>\<^sub>m map_of (index (snd s))"
  shows "Cache_view (now, c) \<subseteq>\<^sub>m Cache_view s"
  using assms by (auto simp: map_le_iff Cache_view_Some)

lemma map_of_filter_key:
  "map_of (filter (\<lambda>e. fst e \<notin> S) m) k = (if k \<in> S then None else map_of m k)"
  by (induction m) auto

lemma evict_view: "map_of (index (evict_prefix n c)) \<subseteq>\<^sub>m map_of (index c)"
  by (simp add: map_le_iff map_of_filter_key)

lemma Cache_view_set:
  assumes "clock_ok (t, c)" "t < now"
  shows "Cache_view (now, cache_set now k v c) \<subseteq>\<^sub>m (Cache_view (t, c))(k \<mapsto> v)"
proof -
  have old: "map_of (index c) j = Some p \<Longrightarrow> (iheap c @ [it]) ! p = iheap c ! p" for j p it
    using cache_ok_lookup [of c j p] assms(1) by (simp add: clock_ok_def nth_append)
  show ?thesis
    using assms(2) by (auto simp: map_le_iff Cache_view_Some map_of_update old split: if_splits)
qed

lemma Cache_view_delete:
  assumes "clock_ok (t, c)" "t < now" "map_of (index c) k = Some p"
  shows "Cache_view (now, set_expiry p now c) \<subseteq>\<^sub>m (Cache_view (t, c))(k := None)"
proof -
  have p: "p < length (iheap c)" "item_key c p = k" "0 < now"
    using cache_ok_lookup assms by (auto simp: clock_ok_def)
  have other: "map_of (index c) j = Some q \<Longrightarrow> j \<noteq> k \<Longrightarrow> q \<noteq> p" for j q
    using cache_ok_lookup [of c j q] assms(1) p(2) by (auto simp: clock_ok_def)
  show ?thesis
    using assms p other
    by (auto simp: map_le_iff Cache_view_Some set_expiry_def nth_list_update split: if_splits)
qed

lemma Cache_view_fields:
  "iheap c' = iheap c \<Longrightarrow> index c' = index c \<Longrightarrow> Cache_view (t, c') = Cache_view (t, c)"
  by (simp add: Cache_view_def fun_eq_iff Let_def split: option.split)

lemma Cache_view_request [simp]:
  "Cache_view (t, request st c) = Cache_view (t, c)" "Cache_view (t, c\<lparr>metrics := m\<rparr>) = Cache_view (t, c)"
  by (rule Cache_view_fields; simp)+

lemma Cache_view_later:
  "t < now \<Longrightarrow> iheap c' = iheap c \<Longrightarrow> map_of (index c') \<subseteq>\<^sub>m map_of (index c) \<Longrightarrow>
     Cache_view (now, c') \<subseteq>\<^sub>m Cache_view (t, c)"
  using Cache_view_mono [of "(t, c)" now c'] by simp

lemma Set_store:
  assumes "clock_ok (t, c)" "t < now"
  shows "Cache_view (now, snd (Cache_Set now k v c)) \<subseteq>\<^sub>m
    (if fst (Cache_Set now k v c) = None then (Cache_view (t, c))(k \<mapsto> v) else Cache_view (t, c))"
  using Cache_view_set [OF assms, of k v] Cache_view_later [OF assms(2), of c c]
  by (simp add: Cache_Set_def Let_def)

lemma Delete_store:
  assumes "clock_ok (t, c)" "t < now"
  shows "Cache_view (now, snd (Cache_Delete now k c)) \<subseteq>\<^sub>m
    (if fst (Cache_Delete now k c) = None then (Cache_view (t, c))(k := None) else Cache_view (t, c))"
proof (cases "closed c \<or> map_of (index c) k = None")
  case True
  have "map_of (index c) k = None \<Longrightarrow> (Cache_view (t, c))(k := None) = Cache_view (t, c)"
    by (simp add: Cache_view_def fun_eq_iff)
  with True Cache_view_later [OF assms(2), of c c] show ?thesis by (auto simp: Cache_Delete_def)
next
  case False
  then obtain p where p: "map_of (index c) k = Some p" "\<not> closed c" by auto
  then have eq: "Cache_view (now, snd (Cache_Delete now k c)) = Cache_view (now, set_expiry p now c)"
    by (intro Cache_view_fields) (simp_all add: Cache_Delete_expiry)
  have "fst (Cache_Delete now k c) = None" using p by (simp add: Cache_Delete_def)
  with eq Cache_view_delete [OF assms p(1)] show ?thesis by simp
qed

lemma Get_store:
  assumes "t < now"
  shows "Cache_view (now, snd (Cache_Get now k c)) \<subseteq>\<^sub>m Cache_view (t, c)"
    and "fst (Cache_Get now k c) = Inr v \<Longrightarrow> Cache_view (t, c) k = Some v"
proof -
  have "iheap (snd (Cache_Get now k c)) = iheap c" "index (snd (Cache_Get now k c)) = index c"
    by (simp_all add: Cache_Get_def Let_def split: option.split)
  then show "Cache_view (now, snd (Cache_Get now k c)) \<subseteq>\<^sub>m Cache_view (t, c)"
    using Cache_view_later [OF assms, of "snd (Cache_Get now k c)" c] by simp
  show "fst (Cache_Get now k c) = Inr v \<Longrightarrow> Cache_view (t, c) k = Some v"
    using assms by (auto simp: Cache_Get_def Cache_view_Some Let_def split: option.splits if_splits)
qed

lemma maintain_store:
  assumes "t < now"
  shows "Cache_view (now, Cache_Clear c) \<subseteq>\<^sub>m Cache_view (t, c)"
    and "Cache_view (now, snd (Cache_Resize n c)) \<subseteq>\<^sub>m Cache_view (t, c)"
    and "Cache_view (now, deleteExpired now c) \<subseteq>\<^sub>m Cache_view (t, c)"
    and "Cache_view (now, snd (Cache_Close c)) \<subseteq>\<^sub>m Cache_view (t, c)"
  by (rule Cache_view_later [OF assms];
      simp add: Cache_Clear_def Cache_Resize_def deleteExpired_def Cache_Close_def Let_def
        map_le_iff map_of_filter_key)+

lemma at_time_eq:
  "at_time d f (t, c) = Some (fst (f (t + 1 + int d) c), t + 1 + int d, snd (f (t + 1 + int d) c))"
  by (simp add: at_time_def Let_def split_beta)

interpretation expiring: cache_store
  "\<lambda>d k v. at_time d (\<lambda>now. Cache_Set now k v)" "\<lambda>d k. at_time d (\<lambda>now. Cache_Get now k)"
  "\<lambda>d k. at_time d (\<lambda>now. Cache_Delete now k)" maintain clock_ok Cache_view "\<lambda>_. True"
proof unfold_locales
  fix s :: "int \<times> 'v Cache" and d k v
  assume ok: "clock_ok s"
  obtain t c where s: "s = (t, c)" by (cases s)
  have now: "t < t + 1 + int d" "0 < t + 1 + int d" and c: "cache_ok c"
    using ok by (auto simp: clock_ok_def s)
  note keep = cache_ok_next [OF c, of "t + 1 + int d"]
  show "\<exists>r s'. at_time d (\<lambda>now. Cache_Set now k v) s = Some (r, s') \<and> clock_ok s' \<and>
      Cache_view s' \<subseteq>\<^sub>m (if r = None then (Cache_view s)(k \<mapsto> v) else Cache_view s)"
    using Set_store [OF ok [unfolded s] now(1), of k v] now(2) keep [of "COpSet k v"]
    unfolding s by (simp add: at_time_eq clock_ok_def split del: if_split)
  show "\<exists>r s'. at_time d (\<lambda>now. Cache_Get now k) s = Some (r, s') \<and> clock_ok s' \<and>
      Cache_view s' \<subseteq>\<^sub>m Cache_view s \<and> (\<forall>v. r = Inr v \<longrightarrow> Cache_view s k = Some v)"
    using Get_store [OF now(1), of k c] now(2) keep [of "COpGet k"] by (simp add: s at_time_eq clock_ok_def)
  show "\<exists>r s'. at_time d (\<lambda>now. Cache_Delete now k) s = Some (r, s') \<and> clock_ok s' \<and>
      Cache_view s' \<subseteq>\<^sub>m (if r = None then (Cache_view s)(k := None) else Cache_view s)"
    using Delete_store [OF ok [unfolded s] now(1), of k] now(2) keep [of "COpDelete k"]
    unfolding s by (simp add: at_time_eq clock_ok_def split del: if_split)
next
  fix s :: "int \<times> 'v Cache" and h :: "nat \<times> unit cache_op"
  assume ok: "clock_ok s"
  obtain t c d x where s: "s = (t, c)" "h = (d, x)" by (cases s, cases h)
  have now: "t < t + 1 + int d" "0 < t + 1 + int d" and c: "cache_ok c"
    using ok by (auto simp: clock_ok_def s)
  show "\<exists>s'. maintain h s = Some s' \<and> clock_ok s' \<and> Cache_view s' \<subseteq>\<^sub>m Cache_view s"
    using ok now(2) maintain_store [OF now(1), where c = c] cache_ok_next [OF c, of _ COpClear]
      cache_ok_next [OF c, of _ COpClose] cache_ok_Resize [OF c] cache_ok_deleteExpired [OF c]
    by (cases x) (simp_all add: s at_time_eq clock_ok_def)
qed

section \<open>Exactness of the clean-up\<close>

text \<open>
  Index and slice hold the same items, the flag tells the truth, and no expiry lies further ahead
  than \<open>noExpiration\<close> (the expiry a new item gets).
\<close>

definition synced :: "int \<Rightarrow> 'v Cache \<Rightarrow> bool" where
  "synced t c \<longleftrightarrow>
     (\<forall>p \<in> set (items c). p < length (iheap c) \<and> expiresAt (iheap c ! p) \<le> t + noExpiration) \<and>
     distinct (map (item_key c) (items c)) \<and>
     set (index c) = (\<lambda>p. (item_key c p, p)) ` set (items c) \<and>
     keys_distinct (index c) \<and>
     (sorted_flag c \<longrightarrow> sorted_by (expiry_lt (iheap c)) (items c))"

definition disciplined :: "int \<Rightarrow> 'v cache_op \<Rightarrow> 'v Cache \<Rightarrow> bool" where
  "disciplined now x c =
     (case x of
        COpSet k v \<Rightarrow> map_of (index c) k = None
      | COpSetExpiration k e \<Rightarrow> e \<le> now + noExpiration
      | COpDelete k \<Rightarrow> map_of (index c) k = None \<or> \<not> sorted_flag c
      | COpClear \<Rightarrow> items c = []
      | _ \<Rightarrow> True)"

fun disciplined_run :: "int \<Rightarrow> (int \<times> 'v cache_op) list \<Rightarrow> 'v Cache \<Rightarrow> bool" where
  "disciplined_run t [] c = True"
| "disciplined_run t ((now, x) # xs) c =
     (t \<le> now \<and> disciplined now x c \<and> disciplined_run now xs (cache_next now x c))"

definition last_time :: "int \<Rightarrow> (int \<times> 'v cache_op) list \<Rightarrow> int" where
  "last_time t xs = (if xs = [] then t else fst (last xs))"

lemma expiry_order: "less_order (expiry_lt h)"
  unfolding expiry_lt_def by (rule less_order_key)

interpretation expiry: less_order "expiry_lt h" for h
  by (rule expiry_order)

lemma synced_fields:
  "iheap c' = iheap c \<Longrightarrow> index c' = index c \<Longrightarrow> items c' = items c \<Longrightarrow>
     sorted_flag c' = sorted_flag c \<Longrightarrow> synced t c' = synced t c"
  by (simp add: synced_def)

lemma synced_simps [simp]:
  "synced t (request s c) = synced t c" "synced t (c\<lparr>metrics := m\<rparr>) = synced t c"
  "synced t (c\<lparr>capacity := n\<rparr>) = synced t c" "synced t (c\<lparr>closed := b\<rparr>) = synced t c"
  by (rule synced_fields; simp)+

lemma synced_later: "synced t c \<Longrightarrow> t \<le> now \<Longrightarrow> synced now c"
  by (auto simp: synced_def)

lemma synced_sorted:
  assumes "synced t c"
  shows "synced t (ensure_sorted c)"
    and "sorted_by (expiry_lt (iheap c)) (items (ensure_sorted c))"
proof -
  show s: "sorted_by (expiry_lt (iheap c)) (items (ensure_sorted c))"
    using assms expiry.sorted_sort_Slice by (auto simp: synced_def ensure_sorted_def)
  show "synced t (ensure_sorted c)" using assms s by (simp add: synced_def)
qed

lemma synced_evict:
  assumes "synced t c"
  shows "synced t (evict_prefix n c)"
proof -
  note D = assms [unfolded synced_def]
  let ?a = "take n (items c)" and ?b = "drop n (items c)"
  have ab: "items c = ?a @ ?b" by simp
  have "distinct (map (item_key c) (?a @ ?b))" using D by simp
  then have disj: "item_key c ` set ?a \<inter> item_key c ` set ?b = {}" and db: "distinct (map (item_key c) ?b)"
    unfolding map_append distinct_append by auto
  have neq: "p \<in> set ?a \<Longrightarrow> q \<in> set ?b \<Longrightarrow> item_key c q \<noteq> item_key c p" for p q
    using disj by blast
  have "set (index c) = (\<lambda>p. (item_key c p, p)) ` (set ?a \<union> set ?b)"
    using D ab by (metis set_append)
  then have "set (index (evict_prefix n c)) = (\<lambda>p. (item_key c p, p)) ` set ?b"
    using neq by auto
  moreover have "sorted_flag c \<Longrightarrow> sorted_by (expiry_lt (iheap c)) ?b"
    using D by (simp add: sorted_wrt_drop)
  moreover have "keys_distinct (index (evict_prefix n c))" using D by (simp add: distinct_map_filter)
  ultimately show ?thesis
    using D db by (auto simp: synced_def dest: in_set_dropD simp del: evict_prefix_simps(6))
qed

lemma synced_set:
  assumes "synced t c" "t \<le> now" "map_of (index c) k = None"
  shows "synced now (cache_set now k v c)"
proof -
  note D = synced_later [OF assms(1,2), unfolded synced_def]
  let ?c = "cache_set now k v c" and ?n = "length (iheap c)"
  have h: "p \<in> set (items c) \<Longrightarrow> iheap ?c ! p = iheap c ! p" for p using D by (simp add: nth_append)
  have new: "iheap ?c ! ?n = \<lparr>ikey = k, ivalue = v, expiresAt = now + noExpiration\<rparr>" by simp
  have keys: "map (item_key ?c) (items c) = map (item_key c) (items c)"
    and img: "(\<lambda>p. (item_key ?c p, p)) ` set (items c) = (\<lambda>p. (item_key c p, p)) ` set (items c)"
    using h by (auto intro!: image_cong)
  have its: "items ?c = items c @ [?n]" using assms(3) by simp
  have "k \<notin> item_key c ` set (items c)"
    using D assms(3) by (auto simp: map_of_eq_None_iff image_image)
  then have 1: "distinct (map (item_key ?c) (items ?c))"
    unfolding its map_append keys using D by (simp add: distinct_map)
  have "e \<in> set (index c) \<Longrightarrow> fst e \<noteq> k" for e using assms(3) by (auto simp: map_of_eq_None_iff)
  then have "set (index ?c) = insert (k, ?n) (set (index c))"
    using D by (auto simp: set_update_keys)
  moreover have "(\<lambda>p. (item_key ?c p, p)) ` set (items ?c) =
    insert (k, ?n) ((\<lambda>p. (item_key ?c p, p)) ` set (items c))"
    unfolding its by simp
  ultimately have 2: "set (index ?c) = (\<lambda>p. (item_key ?c p, p)) ` set (items ?c)"
    unfolding img using D by simp
  have "sorted_by (expiry_lt (iheap c)) (items c) \<Longrightarrow> sorted_by (expiry_lt (iheap ?c)) (items c)"
    by (erule sorted_wrt_mono_rel [rotated]) (simp add: expiry_lt_def h del: cache_set_simps)
  moreover have "\<forall>p \<in> set (items c). \<not> expiry_lt (iheap ?c) ?n p"
    using D by (simp add: expiry_lt_def h new not_less del: cache_set_simps)
  ultimately have 3: "sorted_flag ?c \<longrightarrow> sorted_by (expiry_lt (iheap ?c)) (items ?c)"
    unfolding its sorted_wrt_append using D by (simp del: cache_set_simps(1))
  have 4: "\<forall>p \<in> set (items ?c). p < length (iheap ?c) \<and> expiresAt (iheap ?c ! p) \<le> now + noExpiration"
    unfolding its using D by (auto simp: h new simp del: cache_set_simps(1)) (simp_all add: less_SucI)
  have "keys_distinct (index ?c)" using D by (simp add: distinct_update)
  with 1 2 3 4 show ?thesis unfolding synced_def by blast
qed

lemma synced_set_expiry:
  assumes "synced t c" "e \<le> t + noExpiration" "\<not> sorted_flag c"
  shows "synced t (set_expiry p e c)"
proof -
  have "expiresAt (iheap (set_expiry p e c) ! q) \<le> t + noExpiration" if "q \<in> set (items c)" for q
    using assms that by (simp add: synced_def set_expiry_time)
  then show ?thesis using assms by (simp add: synced_def)
qed

lemma synced_flag: "synced t c \<Longrightarrow> synced t (c\<lparr>sorted_flag := False\<rparr>)"
  by (simp add: synced_def)

lemma synced_next:
  assumes "synced t c" "t \<le> now" "disciplined now x c"
  shows "synced now (cache_next now x c)"
proof -
  note S = synced_later [OF assms(1,2)]
  show ?thesis
  proof (cases x)
    case (COpSetExpiration k e)
    have "synced now (set_expiry p e (c\<lparr>sorted_flag := False\<rparr>))" for p
      using synced_flag [OF S] assms(3) COpSetExpiration
      by (intro synced_set_expiry) (simp_all add: disciplined_def)
    moreover have "set_expiry p e (c\<lparr>sorted_flag := False\<rparr>) = (set_expiry p e c)\<lparr>sorted_flag := False\<rparr>" for p
      by (simp add: set_expiry_def)
    ultimately show ?thesis
      using S COpSetExpiration by (simp add: Cache_SetExpiration_expiry split: option.split)
  next
    case (COpDelete k)
    then show ?thesis
      using S assms(3) synced_set_expiry [of now c now]
      by (auto simp: Cache_Delete_expiry disciplined_def noExpiration_def split: option.split)
  next
    case (COpResize n)
    then show ?thesis
      using S synced_evict [OF synced_sorted(1), of now "c\<lparr>capacity := n\<rparr>"]
      by (simp add: Cache_Resize_def Let_def)
  next
    case COpCleanup
    then show ?thesis
      using S synced_evict [OF synced_sorted(1) [OF S]] by (simp add: deleteExpired_def Let_def)
  next
    case (COpSet k v)
    then show ?thesis
      using S assms(3) synced_set [OF assms(1,2), of k v] by (simp add: Cache_Set_def Let_def disciplined_def)
  next
    case COpClear
    then show ?thesis using S assms(3) by (simp add: Cache_Clear_def disciplined_def synced_def)
  qed (use S in \<open>simp_all add: Cache_Get_def Cache_ListKeys_def Cache_HasExpired_def
        Cache_GetExpiration_def Cache_Close_def Let_def split: option.split\<close>)
qed

end
