(* ===== verification/Expiring_Properties.thy ===== *)
theory Expiring_Properties
  imports Expiring_Invariant
begin

text \<open>
  What the expiring cache of \<open>cache/cache.go\<close> promises, and the call sequences on which its
  clean-up removes entries that are still live.
\<close>

text \<open>A new cache of capacity two, for the examples.\<close>

definition demo_cache :: "string Cache" where
  "demo_cache = \<lparr>iheap = [], index = [], items = [], sorted_flag = True, capacity = 2,
     metrics = None, closed = False\<rparr>"

lemma synced_run:
  "synced t c \<Longrightarrow> disciplined_run t xs c \<Longrightarrow> synced (last_time t xs) (cache_run xs c)"
proof (induction t xs c rule: disciplined_run.induct)
  case (2 t now x xs c)
  then have "synced (last_time now xs) (cache_run xs (cache_next now x c))"
    using synced_next [of t c now x] by simp
  then show ?case by (simp add: last_time_def split: if_splits)
qed (simp add: last_time_def)

lemma synced_New: "Cache_New n opts = Some (Inr c) \<Longrightarrow> synced t c"
  by (auto simp: Cache_New_def synced_def split: sum.splits if_splits)

text \<open>With a truthful flag the binary search splits the slice into expired and live items.\<close>

lemma deleteExpired_split:
  fixes now :: int
  assumes "synced t c" "\<not> closed c"
  defines "c1 \<equiv> ensure_sorted c"
  defines "n \<equiv> sort_Search (length (items c1)) (\<lambda>i. expiresAt (iheap c1 ! (items c1 ! i)) > now)"
  shows "p \<in> set (take n (items c1)) \<Longrightarrow> expiresAt (iheap c ! p) \<le> now"
    and "p \<in> set (drop n (items c1)) \<Longrightarrow> now < expiresAt (iheap c ! p)"
proof -
  let ?f = "\<lambda>i. now < expiresAt (iheap c ! (items c1 ! i))"
  have heap: "iheap c1 = iheap c" by (simp add: c1_def)
  have sorted: "sorted_by (expiry_lt (iheap c)) (items c1)"
    unfolding c1_def by (rule synced_sorted(2) [OF assms(1)])
  have le: "expiresAt (iheap c ! (items c1 ! i)) \<le> expiresAt (iheap c ! (items c1 ! j))"
    if "i \<le> j" "j < length (items c1)" for i j
    using sorted that by (cases "i = j") (auto simp: sorted_wrt_iff_nth_less expiry_lt_def not_less)
  then have mono: "?f x \<Longrightarrow> x \<le> y \<Longrightarrow> y < length (items c1) \<Longrightarrow> ?f y" for x y
    by (meson less_le_trans)
  have S1: "\<not> ?f i" if "i < sort_Search (length (items c1)) ?f" for i
    using mono that by (rule sort_Search_mono(1))
  have S2: "?f i" if "sort_Search (length (items c1)) ?f \<le> i" "i < length (items c1)" for i
    using mono that by (rule sort_Search_mono(2))
  have n: "n = sort_Search (length (items c1)) ?f" by (simp add: n_def heap)
  show "expiresAt (iheap c ! p) \<le> now" if p: "p \<in> set (take n (items c1))"
  proof -
    obtain i where "i < n" "p = items c1 ! i" using p by (auto simp: in_set_conv_nth)
    then show ?thesis using S1 [of i] n by simp
  qed
  show "now < expiresAt (iheap c ! p)" if p: "p \<in> set (drop n (items c1))"
  proof -
    obtain i where "i < length (items c1) - n" "p = items c1 ! (n + i)"
      using p by (auto simp: in_set_conv_nth)
    then show ?thesis using S2 [of "n + i"] n by simp
  qed
qed

lemma deleteExpired_exact:
  assumes "synced t c" "\<not> closed c"
  shows "index (deleteExpired now c) = filter (\<lambda>(k, p). now < expiresAt (iheap c ! p)) (index c)"
proof -
  define c1 where "c1 = ensure_sorted c"
  define n where "n = sort_Search (length (items c1)) (\<lambda>i. expiresAt (iheap c1 ! (items c1 ! i)) > now)"
  note split = deleteExpired_split [OF assms, where now = now, folded c1_def, folded n_def]
  have st: "synced t c1" using synced_sorted(1) [OF assms(1)] by (simp add: c1_def)
  have live: "k \<notin> item_key c1 ` set (take n (items c1)) \<longleftrightarrow> now < expiresAt (iheap c ! p)"
    if "(k, p) \<in> set (index c)" for k p
  proof -
    have kp: "p \<in> set (items c1)" "item_key c1 p = k"
      using that st by (auto simp: synced_def c1_def)
    have inj: "inj_on (item_key c1) (set (items c1))" using st by (simp add: synced_def distinct_map)
    have "k \<in> item_key c1 ` set (take n (items c1)) \<longleftrightarrow> p \<in> set (take n (items c1))"
      unfolding kp(2) [symmetric] by (rule inj_on_image_mem_iff [OF inj kp(1) set_take_subset])
    also have "\<dots> \<longleftrightarrow> \<not> now < expiresAt (iheap c ! p)"
      using split [of p] kp(1) by (metis Un_iff append_take_drop_id not_le set_append)
    finally show ?thesis by blast
  qed
  have "index (deleteExpired now c) =
    filter (\<lambda>e. fst e \<notin> item_key c1 ` set (take n (items c1))) (index c1)"
    using assms(2) unfolding deleteExpired_def Let_def c1_def [symmetric] n_def [symmetric] by simp
  also have "index c1 = index c" by (simp add: c1_def)
  also have "filter (\<lambda>e. fst e \<notin> item_key c1 ` set (take n (items c1))) (index c) =
    filter (\<lambda>(k, p). now < expiresAt (iheap c ! p)) (index c)"
    by (rule filter_cong [OF refl]) (metis (mono_tags, lifting) live case_prod_beta prod.collapse)
  finally show ?thesis .
qed

section \<open>Properties\<close>

text \<open>
  C19. Structural invariant of the expiring cache: after any sequence of calls, at any clock
  readings, on a new cache, the index never exceeds the capacity, its pointers are valid and carry the
  key they are indexed by, and every indexed key still has an entry in the slice the clean-up walks.
\<close>

theorem Cache_invariant:
  assumes "Cache_New n opts = Some (Inr c)"
  shows "cache_ok (cache_run xs c)"
  using cache_ok_run [OF cache_ok_New [OF assms]] .

lemma demo_cache_New: "Cache_New 2 ([] :: unit Options list) = Some (Inr demo_cache)"
  by (simp add: Cache_New_def makeOptions_def zeroOptions_def demo_cache_def)

theorem Cache_invariant_witness:
  "cache_ok (cache_run [(5, COpSet ''a'' ''x''), (6, COpSet ''b'' ''y''), (7, COpSetExpiration ''a'' 9),
     (8, COpResize 1), (9, COpCleanup)] demo_cache)"
  by (rule Cache_invariant [OF demo_cache_New])



text \<open>
  C8. Exactness of the clean-up under discipline: if the calls so far never overwrote a key, never
  deleted an item while the slice was marked sorted, never cleared a filled cache and never
  set an expiry more than ten years ahead, then \<open>deleteExpired\<close> removes exactly the entries
  whose expiry has been reached and keeps every other entry.
\<close>

theorem deleteExpired_removes_exactly_expired:
  assumes "Cache_New n opts = Some (Inr c)" "disciplined_run t xs c" "\<not> closed (cache_run xs c)"
  shows "index (deleteExpired now (cache_run xs c)) =
    filter (\<lambda>(k, p). now < expiresAt (iheap (cache_run xs c) ! p)) (index (cache_run xs c))"
  by (rule deleteExpired_exact [OF synced_run [OF synced_New [OF assms(1)] assms(2)] assms(3)])

theorem deleteExpired_removes_exactly_expired_witness:
  "map fst (index (deleteExpired 20 (cache_run [(5, COpSet ''a'' ''x''), (6, COpSet ''b'' ''y''),
     (7, COpSetExpiration ''a'' 9)] demo_cache))) = [''b'']"
proof -
  let ?xs = "[(5, COpSet ''a'' ''x''), (6, COpSet ''b'' ''y''), (7, COpSetExpiration ''a'' 9)]"
  have "disciplined_run 0 ?xs demo_cache" "\<not> closed (cache_run ?xs demo_cache)"
    by code_simp+
  from deleteExpired_removes_exactly_expired [OF demo_cache_New this, of 20]
  show ?thesis by (simp, code_simp)
qed

text \<open>
  \<open>Delete\<close> lowers an expiry without marking the slice unsorted, so the binary search of the
  next clean-up runs on an unsorted slice. With two entries set in this order, deleting the second makes the
  clean-up remove the first as well, although a \<open>Get\<close> just before still returns it.
\<close>

theorem deleteExpired_after_Delete_drops_live:
  "let c = cache_run [(5, COpSet ''a'' ''x''), (6, COpSet ''b'' ''y''), (7, COpDelete ''b'')] demo_cache in
   fst (Cache_Get 8 ''a'' c) = Inr ''x'' \<and>
   fst (Cache_Get 8 ''a'' (deleteExpired 8 c)) = Inl ErrNotFound \<and>
   sorted_flag c \<and> \<not> sorted_by (expiry_lt (iheap c)) (items c)"
  by code_simp

text \<open>
  The slice keeps items the index has dropped. (a) \<open>Set\<close> of a known key gives the index a new
  item without expiry, but the clean-up still acts on the slice's old item and removes the fresh value
  when the old expiry passes. (b) \<open>Clear\<close> leaves the slice filled, so a later \<open>Resize\<close> counts
  and evicts stale items and thereby drops the only live entry, well within the new size.
\<close>

theorem stale_items_drop_live_entries:
  "(let c = cache_run [(5, COpSet ''a'' ''x''), (6, COpSetExpiration ''a'' 9), (7, COpSet ''a'' ''y'')] demo_cache in
    fst (Cache_Get 20 ''a'' c) = Inr ''y'' \<and> fst (Cache_HasExpired 20 ''a'' c) = Inr False \<and>
    fst (Cache_Get 20 ''a'' (deleteExpired 20 c)) = Inl ErrNotFound) \<and>
   (let c = cache_run [(5, COpSet ''a'' ''x''), (6, COpClear), (7, COpSet ''a'' ''y'')] demo_cache in
    fst (Cache_Get 8 ''a'' c) = Inr ''y'' \<and> length (index c) = 1 \<and>
    fst (Cache_Resize 1 c) = Inr 1 \<and> fst (Cache_Get 8 ''a'' (snd (Cache_Resize 1 c))) = Inl ErrNotFound)"
  by code_simp

text \<open>
  The zero expiry: \<open>Get\<close> and \<open>GetExpiration\<close> read a zero expiry as no expiry, but
  \<open>HasExpired\<close> reports such an item as expired at every time, and the clean-up of a cache in which
  index and slice agree removes it.
\<close>

theorem zero_expiry_disagreement:
  assumes "\<not> closed c" "map_of (index c) k = Some p" "expiresAt (iheap c ! p) = 0" "0 < now"
    and "synced t c"
  shows "fst (Cache_Get now k c) = Inr (ivalue (iheap c ! p)) \<and>
    fst (Cache_GetExpiration now k c) = Inr 0 \<and>
    fst (Cache_HasExpired now k c) = Inr True \<and>
    fst (Cache_Get now k (deleteExpired now c)) = Inl ErrNotFound"
proof -
  have "(k, q) \<in> set (index c) \<Longrightarrow> q = p" for q
    using assms(2,5) by (auto simp: synced_def dest: map_of_is_SomeI)
  then have "map_of (index (deleteExpired now c)) k = None"
    using deleteExpired_exact [OF assms(5,1), of now] assms(3,4) by (auto simp: map_of_eq_None_iff)
  moreover have "\<not> closed (deleteExpired now c)" using assms(1) by (simp add: deleteExpired_def Let_def)
  ultimately show ?thesis
    using assms by (simp add: Cache_Get_def Cache_GetExpiration_def Cache_HasExpired_def)
qed

theorem zero_expiry_disagreement_witness:
  "let c = cache_run [(5, COpSet ''a'' ''x''), (6, COpSetExpiration ''a'' 0)] demo_cache in
   fst (Cache_Get 8 ''a'' c) = Inr ''x'' \<and> fst (Cache_HasExpired 8 ''a'' c) = Inr True \<and>
   fst (Cache_Get 8 ''a'' (deleteExpired 8 c)) = Inl ErrNotFound"
proof -
  let ?xs = "[(5, COpSet ''a'' ''x''), (6, COpSetExpiration ''a'' 0)]"
  let ?c = "cache_run ?xs demo_cache"
  have "disciplined_run 0 ?xs demo_cache" by code_simp
  from synced_run [OF synced_New [OF demo_cache_New] this] have s: "synced (last_time 0 ?xs) ?c" .
  have 1: "\<not> closed ?c" "map_of (index ?c) ''a'' = Some 0" "expiresAt (iheap ?c ! 0) = 0"
    "ivalue (iheap ?c ! 0) = ''x''"
    by code_simp+
  from zero_expiry_disagreement [OF 1(1-3) _ s, of 8] 1(4) show ?thesis by (simp add: Let_def)
qed

end
