(* ===== verification/Janitor.thy ===== *)
theory Janitor
  imports Cache_Metrics
begin

text \<open>
  The concurrency of \<open>cache/cache.go\<close>: the janitor goroutine (\<open>janitor.run\<close>), a goroutine calling
  \<open>Close\<close> (again after it has returned) and one calling any other method, as an interleaving of the
  steps at which they synchronise. They share the cache's mutex and the unbuffered channel \<open>stop\<close>,
  whose send and receive are one joint step.
\<close>

section \<open>State and steps\<close>

datatype thread = TClose | TJanitor | TClient

text \<open>Where \<open>Close\<close> is: before the lock, holding it, sending, after the send, returned.\<close>

datatype close_pc = CIdle | CLocked | CSend | CSent | CRet "CacheErrorReason option"

text \<open>The janitor: in its select, waiting for the lock in \<open>deleteExpired\<close>, holding it, returned.\<close>

datatype jan_pc = JSelect | JWantLock | JWork | JExit

datatype client_pc = KIdle | KLocked

record jstate =
  mu :: "thread option"
  cpc :: close_pc
  jpc :: jan_pc
  kpc :: client_pc
  closed_flag :: bool

definition jinit :: jstate where
  "jinit = \<lparr>mu = None, cpc = CIdle, jpc = JSelect, kpc = KIdle, closed_flag = False\<rparr>"

inductive jstep :: "jstate \<Rightarrow> jstate \<Rightarrow> bool" where
  close_lock: "cpc s = CIdle \<Longrightarrow> mu s = None \<Longrightarrow> jstep s (s\<lparr>cpc := CLocked, mu := Some TClose\<rparr>)"
| close_again: "cpc s = CLocked \<Longrightarrow> closed_flag s \<Longrightarrow>
    jstep s (s\<lparr>cpc := CRet (Some ErrCacheClosed), mu := None\<rparr>)"
| close_send: "cpc s = CLocked \<Longrightarrow> \<not> closed_flag s \<Longrightarrow> jstep s (s\<lparr>cpc := CSend\<rparr>)"
| stop_signal: "cpc s = CSend \<Longrightarrow> jpc s = JSelect \<Longrightarrow> jstep s (s\<lparr>cpc := CSent, jpc := JExit\<rparr>)"
| close_return: "cpc s = CSent \<Longrightarrow> jstep s (s\<lparr>cpc := CRet None, closed_flag := True, mu := None\<rparr>)"
| close_call: "cpc s = CRet r \<Longrightarrow> jstep s (s\<lparr>cpc := CIdle\<rparr>)"
| tick: "jpc s = JSelect \<Longrightarrow> jstep s (s\<lparr>jpc := JWantLock\<rparr>)"
| jan_lock: "jpc s = JWantLock \<Longrightarrow> mu s = None \<Longrightarrow> jstep s (s\<lparr>jpc := JWork, mu := Some TJanitor\<rparr>)"
| jan_unlock: "jpc s = JWork \<Longrightarrow> jstep s (s\<lparr>jpc := JSelect, mu := None\<rparr>)"
| client_lock: "kpc s = KIdle \<Longrightarrow> mu s = None \<Longrightarrow> jstep s (s\<lparr>kpc := KLocked, mu := Some TClient\<rparr>)"
| client_unlock: "kpc s = KLocked \<Longrightarrow> jstep s (s\<lparr>kpc := KIdle, mu := None\<rparr>)"

inductive jreach :: "jstate \<Rightarrow> bool" where
  jreach_init: "jreach jinit"
| jreach_step: "jreach s \<Longrightarrow> jstep s s' \<Longrightarrow> jreach s'"

inductive_cases jstepE: "jstep s s'"

definition blocked :: "jstate \<Rightarrow> bool" where
  "blocked s \<longleftrightarrow> (\<forall>s'. \<not> jstep s s')"

section \<open>Invariant\<close>

definition jinv :: "jstate \<Rightarrow> bool" where
  "jinv s \<longleftrightarrow>
     (mu s = Some TClose \<longleftrightarrow> cpc s \<in> {CLocked, CSend, CSent}) \<and>
     (mu s = Some TJanitor \<longleftrightarrow> jpc s = JWork) \<and>
     (mu s = Some TClient \<longleftrightarrow> kpc s = KLocked) \<and>
     (jpc s = JExit \<longleftrightarrow> cpc s = CSent \<or> closed_flag s) \<and>
     (cpc s = CSend \<or> cpc s = CSent \<longrightarrow> \<not> closed_flag s)"

lemma jinv_step: "jstep s s' \<Longrightarrow> jinv s \<Longrightarrow> jinv s'"
  by (erule jstepE) (auto simp: jinv_def)

lemma jinv_reach: "jreach s \<Longrightarrow> jinv s"
proof (induction rule: jreach.induct)
  case jreach_init
  show ?case by (simp add: jinit_def jinv_def)
next
  case (jreach_step s s')
  then show ?case by (blast intro: jinv_step)
qed

lemma blockedI: "cpc s = CSend \<Longrightarrow> jpc s = JWantLock \<Longrightarrow> jinv s \<Longrightarrow> blocked s"
  by (auto simp: blocked_def jinv_def elim!: jstepE)

lemma not_blocked:
  assumes "jinv s" "\<not> (cpc s = CSend \<and> jpc s = JWantLock)"
  shows "\<exists>s'. jstep s s'"
proof (cases "cpc s")
  case CIdle
  with assms show ?thesis
    by (cases "mu s"; cases "the (mu s)") (auto simp: jinv_def intro: jstep.intros)
next
  case CSend
  with assms show ?thesis by (cases "jpc s") (auto simp: jinv_def intro: jstep.intros)
qed (use assms in \<open>auto simp: jinv_def intro: jstep.intros\<close>)

section \<open>Properties\<close>



text \<open>
  C33. Deadlock of \<open>Close\<close>: \<open>Close\<close> sends on the unbuffered stop channel while it holds the
  mutex. A state where the janitor's tick has come first is reachable, there every
  goroutine waits for ever, and these are the only reachable states with no next step.
\<close>

theorem Close_deadlock:
  "(\<exists>s. jreach s \<and> cpc s = CSend \<and> jpc s = JWantLock) \<and>
   (\<forall>s. jreach s \<longrightarrow> (blocked s \<longleftrightarrow> cpc s = CSend \<and> jpc s = JWantLock))"
proof
  have 1: "jreach (jinit\<lparr>jpc := JWantLock\<rparr>)" (is "jreach ?a")
    by (rule jreach_step [OF jreach_init tick]) (simp add: jinit_def)
  have 2: "jreach (?a\<lparr>cpc := CLocked, mu := Some TClose\<rparr>)" (is "jreach ?b")
    by (rule jreach_step [OF 1 close_lock]) (simp_all add: jinit_def)
  have 3: "jreach (?b\<lparr>cpc := CSend\<rparr>)"
    by (rule jreach_step [OF 2 close_send]) (simp_all add: jinit_def)
  show "\<exists>s. jreach s \<and> cpc s = CSend \<and> jpc s = JWantLock" by (rule exI, rule conjI [OF 3]) simp
  show "\<forall>s. jreach s \<longrightarrow> (blocked s \<longleftrightarrow> cpc s = CSend \<and> jpc s = JWantLock)"
    using blockedI not_blocked jinv_reach unfolding blocked_def by blast
qed

theorem Close_deadlock_witness: "\<not> blocked jinit \<and> (\<exists>s. jreach s \<and> blocked s)"
  using Close_deadlock jreach_init by (auto simp: jinit_def)

end
