(* ===== verification/Token_Cache.thy ===== *)
theory Token_Cache
  imports LRU_Store
begin

text \<open>
  The token cache of \<open>cache/token.go\<close> on top of the LRU cache. A Go time carries a wall-clock
  reading and, when it comes from \<open>time.Now\<close>, a monotonic one; both are nanoseconds, the wall clock since the
  Unix epoch. \<open>After\<close> compares the monotonic readings if both times have one and the wall
  readings otherwise. Durations are \<open>int64\<close>, so the product in \<open>newItem\<close> wraps. The token type and
  its \<open>GetDuration\<close> are parameters.
\<close>

section \<open>Times\<close>

record gotime =
  wall :: int
  mono :: "int option"

definition time_Add :: "gotime \<Rightarrow> int \<Rightarrow> gotime" where
  "time_Add t d = \<lparr>wall = wall t + d, mono = map_option (\<lambda>m. m + d) (mono t)\<rparr>"

definition time_Unix :: "gotime \<Rightarrow> int" where
  "time_Unix t = wall t div 1000000000"

definition from_Unix :: "int \<Rightarrow> gotime" where
  "from_Unix s = \<lparr>wall = s * 1000000000, mono = None\<rparr>"

definition time_After :: "gotime \<Rightarrow> gotime \<Rightarrow> bool" where
  "time_After t u =
     (case (mono t, mono u) of (Some a, Some b) \<Rightarrow> a > b | _ \<Rightarrow> wall t > wall u)"

section \<open>The cache\<close>

definition TokenMaxDuration :: int where
  "TokenMaxDuration = 3600 * 1000000000"

record 't tokenItem =
  token :: 't
  tmono :: gotime
  tunix :: gotime

record 't TokenCache =
  tcache :: "'t tokenItem LRU"
  tmaxDuration :: int

definition NewTokenCache :: "'t tokenItem \<Rightarrow> int \<Rightarrow> 'e Options list \<Rightarrow> 'e + 't TokenCache" where
  "NewTokenCache zero cap opts =
     (let o1 = snd (apply_options opts (zeroOptions\<lparr>maxDuration := TokenMaxDuration\<rparr>));
          m = (if maxDuration o1 > TokenMaxDuration then TokenMaxDuration else maxDuration o1)
      in case NewLRU zero cap opts of
           Inl e \<Rightarrow> Inl e
         | Inr l \<Rightarrow> Inr \<lparr>tcache = l, tmaxDuration = m\<rparr>)"

definition token_lifetime :: "int \<Rightarrow> int \<Rightarrow> int" where
  "token_lifetime m dur = (let d = quot (wrap64 (dur * 8)) 10 in if d > m then m else d)"

definition newItem :: "('t \<Rightarrow> int) \<Rightarrow> gotime \<Rightarrow> 't \<Rightarrow> 't TokenCache \<Rightarrow> 't tokenItem" where
  "newItem GetDuration now tok c =
     (let d = token_lifetime (tmaxDuration c) (GetDuration tok);
          mn = time_Add now d
      in \<lparr>token = tok, tmono = mn, tunix = from_Unix (time_Unix mn)\<rparr>)"

definition expired :: "gotime \<Rightarrow> 't tokenItem \<Rightarrow> bool" where
  "expired now ti \<longleftrightarrow> \<not> time_After (tmono ti) now \<or> \<not> time_After (tunix ti) now"

text \<open>
  \<open>GetOrSet\<close>: \<open>now1\<close> is the clock when the cached item is tested and \<open>now2\<close> when a new item
  is made. The appended option only sets the debug fields, which the model leaves out.
\<close>

definition GetOrSet ::
  "('t \<Rightarrow> int) \<Rightarrow> gotime \<Rightarrow> gotime \<Rightarrow> string \<Rightarrow> ('e + 't) \<Rightarrow> 'e Options list \<Rightarrow> 't TokenCache \<Rightarrow>
     (('e + 't \<times> bool) \<times> 't TokenCache) option" where
  "GetOrSet GetDuration now1 now2 k newToken opts c = do {
     let fetch = (case newToken of Inl e \<Rightarrow> Inl e | Inr t \<Rightarrow> Inr (newItem GetDuration now2 t c));
     (r, l) \<leftarrow> LRU_GetIfOrSet k (\<lambda>ti. \<not> expired now1 ti) fetch (opts @ [Inr]) (tcache c);
     let c1 = c\<lparr>tcache := l\<rparr>;
     case r of
       Inl e \<Rightarrow> Some (Inl e, c1)
     | Inr (item, ok) \<Rightarrow> Some (Inr (token item, ok), c1)
   }"

text \<open>\<open>DeleteEventsForObject\<close> on a possibly nil cache, for both event types.\<close>

definition DeleteEventsForObject :: "InvolvedObject \<Rightarrow> 't TokenCache option \<Rightarrow> 't TokenCache option" where
  "DeleteEventsForObject obj c =
     (case c of None \<Rightarrow> None
      | Some c \<Rightarrow>
          let m = fold (\<lambda>e m. deleteCacheEvent m e obj) [CacheEventTypeMiss, CacheEventTypeHit]
                    (metrics (tcache c))
          in Some (c\<lparr>tcache := (tcache c)\<lparr>metrics := m\<rparr>\<rparr>))"

text \<open>A new cache of capacity two over integer tokens, for the examples.\<close>

definition demo_item :: "int tokenItem" where
  "demo_item = \<lparr>token = 0, tmono = from_Unix 0, tunix = from_Unix 0\<rparr>"

definition demo_tokens :: "int TokenCache" where
  "demo_tokens = projr (NewTokenCache demo_item 2 ([] :: unit Options list))"

section \<open>Facts\<close>

lemma token_lifetime_le: "token_lifetime m dur \<le> m"
  by (simp add: token_lifetime_def Let_def)

lemma token_lifetime_80:
  assumes "0 \<le> dur" "dur < 2 ^ 60"
  shows "token_lifetime m dur \<le> (dur * 8) div 10"
proof -
  have "wrap64 (dur * 8) = dur * 8" using assms by (intro wrap64_id) auto
  then show ?thesis using assms by (simp add: token_lifetime_def Let_def quot_nonneg)
qed

lemma TokenCache_maxDuration:
  "NewTokenCache z cap opts = Inr c \<Longrightarrow> tmaxDuration c \<le> TokenMaxDuration"
  by (auto simp: NewTokenCache_def Let_def split: sum.splits)

lemma unix_floor: "wall (from_Unix (time_Unix t)) \<le> wall t"
  by (simp add: from_Unix_def time_Unix_def minus_mod_eq_div_mult [symmetric])

lemma not_expired_lifetime:
  assumes "\<not> expired now (newItem G t0 tok c)" "mono t0 = Some m0" "mono now = Some m"
  shows "m - m0 < token_lifetime (tmaxDuration c) (G tok)"
    and "wall now - wall t0 < token_lifetime (tmaxDuration c) (G tok)"
proof -
  let ?mn = "time_Add t0 (token_lifetime (tmaxDuration c) (G tok))"
  show "m - m0 < token_lifetime (tmaxDuration c) (G tok)"
    using assms by (auto simp: expired_def newItem_def time_After_def time_Add_def Let_def)
  have "wall now < wall (from_Unix (time_Unix ?mn))"
    using assms by (auto simp: expired_def newItem_def time_After_def from_Unix_def Let_def)
  also have "\<dots> \<le> wall ?mn" by (rule unix_floor)
  finally show "wall now - wall t0 < token_lifetime (tmaxDuration c) (G tok)" by (simp add: time_Add_def)
qed

lemma alru_set_lookup:
  assumes "1 \<le> n"
  shows "map_of (alru_set n k v xs) k = Some v"
proof -
  have no: "k \<notin> fst ` set (alru_del k xs)" by (auto simp: alru_del_def)
  show ?thesis
  proof (cases "alru_del k xs")
    case Nil
    then show ?thesis using assms by (simp add: alru_set_def alru_push_def)
  next
    case (Cons p ps)
    with no have "map_of ps k = None" "fst p \<noteq> k" by (auto simp: map_of_eq_None_iff)
    with Cons show ?thesis by (simp add: alru_set_def alru_push_def Let_def map_add_def)
  qed
qed

text \<open>What one call returns and what it leaves under the key.\<close>

definition get_or_set_spec ::
  "('t tokenItem \<Rightarrow> bool) \<Rightarrow> ('e + 't tokenItem) \<Rightarrow> 't tokenItem option \<Rightarrow>
     ('e + 't \<times> bool) \<times> 't tokenItem option" where
  "get_or_set_spec stale fetched old =
     (case old of
        Some ti \<Rightarrow> if stale ti
          then (case fetched of Inl e \<Rightarrow> (Inl e, None) | Inr ti' \<Rightarrow> (Inr (token ti', False), Some ti'))
          else (Inr (token ti, True), Some ti)
      | None \<Rightarrow> (case fetched of Inl e \<Rightarrow> (Inl e, None) | Inr ti' \<Rightarrow> (Inr (token ti', False), Some ti')))"

lemma GetIfOrSet_view:
  assumes "LRU_inv l" "1 \<le> capacity l"
  shows "\<exists>r l'. LRU_GetIfOrSet k (\<lambda>ti. \<not> stale ti) fetched opts l = Some (r, l') \<and> LRU_inv l' \<and>
    capacity l' = capacity l \<and>
    (map_sum id (map_prod token id) r, LRU_view l' k) = get_or_set_spec stale fetched (LRU_view l k)"
proof -
  obtain xs where xs: "lru_rep l xs" using assms(1) by (auto simp: LRU_inv_def)
  obtain r ys where spec: "alru_get_if_or_set (capacity l) k (\<lambda>ti. \<not> stale ti) fetched xs = (r, ys)"
    by fastforce
  obtain l' where l': "LRU_GetIfOrSet k (\<lambda>ti. \<not> stale ti) fetched opts l = Some (r, l')"
    "lru_rep l' ys" "capacity l' = capacity l"
    using LRU_GetIfOrSet_sim [OF xs spec, of opts] by (auto simp: lru_sim_drift_def)
  have "map_of (alru_del k xs) k = None" by (simp add: map_of_alru_del)
  then have "(map_sum id (map_prod token id) r, map_of ys k) = get_or_set_spec stale fetched (map_of xs k)"
    using spec alru_set_lookup [OF assms(2)]
    by (auto simp: alru_get_if_or_set_def get_or_set_spec_def map_add_def
        split: option.splits sum.splits if_splits)
  then show ?thesis
    using l' lru_rep_store [OF l'(2)] lru_rep_store [OF xs] by auto
qed

section \<open>Properties\<close>


lemma demo_tokens_New: "NewTokenCache demo_item 2 ([] :: unit Options list) = Inr demo_tokens"
  by (simp add: demo_tokens_def NewTokenCache_def NewLRU_def makeOptions_def)


text \<open>
  Behaviour of \<open>GetOrSet\<close> on every branch: it never panics; a present, unexpired token is
  returned with \<open>true\<close> and kept; otherwise the new token is returned with \<open>false\<close> and its item is
  stored under the key; if making the token fails the error is returned and no item, in particular no expired one,
  is left under the key.
\<close>

theorem GetOrSet_branches:
  assumes "LRU_inv (tcache c)" "1 \<le> capacity (tcache c)"
  shows "\<exists>r c'. GetOrSet GetDuration now1 now2 k newToken opts c = Some (r, c') \<and>
    LRU_inv (tcache c') \<and> capacity (tcache c') = capacity (tcache c) \<and> tmaxDuration c' = tmaxDuration c \<and>
    (r, LRU_view (tcache c') k) =
      get_or_set_spec (expired now1)
        (case newToken of Inl e \<Rightarrow> Inl e | Inr t \<Rightarrow> Inr (newItem GetDuration now2 t c))
        (LRU_view (tcache c) k)"
  using GetIfOrSet_view [OF assms, of k "expired now1"
      "case newToken of Inl e \<Rightarrow> Inl e | Inr t \<Rightarrow> Inr (newItem GetDuration now2 t c)" "opts @ [Inr]"]
  by (auto simp: GetOrSet_def Let_def split: sum.splits)

theorem GetOrSet_branches_witness:
  "\<exists>c'. GetOrSet id (from_Unix 5) (from_Unix 5) ''k'' (Inr 7 :: unit + int) [] demo_tokens =
     Some (Inr (7, False), c') \<and> LRU_inv (tcache c')"
proof -
  have l: "NewLRU demo_item 2 ([] :: unit Options list) = Inr (tcache demo_tokens)"
    by (simp add: demo_tokens_def NewTokenCache_def NewLRU_def makeOptions_def)
  have rep: "lru_rep (tcache demo_tokens) []" "capacity (tcache demo_tokens) = 2"
    using NewLRU_rep [OF l] by simp_all
  then have "LRU_inv (tcache demo_tokens)" "LRU_view (tcache demo_tokens) = Map.empty"
    using lru_rep_store [OF rep(1)] by auto
  with GetOrSet_branches [of demo_tokens id "from_Unix 5" "from_Unix 5" "''k''" "Inr 7 :: unit + int" "[]"] rep(2)
  show ?thesis by (auto simp: get_or_set_spec_def newItem_def Let_def)
qed

text \<open>
  The 80 percent product is computed in 64 bits: a token whose duration is \<open>2^60\<close>
  nanoseconds (about 36 years) or up to twice that gets a negative lifetime, so its item is
  expired from the moment it is stored.
\<close>

theorem long_token_expires_at_once:
  assumes "2 ^ 60 \<le> GetDuration tok" "GetDuration tok < 2 ^ 61" "mono now = Some m"
  shows "expired now (newItem GetDuration now tok c)"
proof -
  let ?x = "GetDuration tok * 8"
  have "wrap64 ?x = ?x - 2 ^ 64"
  proof -
    have "(?x + 2 ^ 63) mod 2 ^ 64 = (?x + 2 ^ 63 - 2 ^ 64) mod 2 ^ 64"
      by (rule minus_mod_self2 [symmetric])
    also have "\<dots> = ?x + 2 ^ 63 - 2 ^ 64" using assms(1,2) by (intro mod_pos_pos_trivial) auto
    finally show ?thesis by (simp add: wrap64_def)
  qed
  then have "wrap64 ?x < 0" using assms(2) by simp
  then have "quot (wrap64 ?x) 10 \<le> 0" by (simp add: quot_def sgn_if)
  then have "token_lifetime (tmaxDuration c) (GetDuration tok) \<le> 0"
    by (simp add: token_lifetime_def Let_def)
  then show ?thesis
    using assms(3) by (simp add: expired_def newItem_def time_After_def time_Add_def Let_def)
qed

theorem long_token_expires_at_once_witness:
  "expired \<lparr>wall = 0, mono = Some 0\<rparr> (newItem id \<lparr>wall = 0, mono = Some 0\<rparr> (2 ^ 60) demo_tokens)"
  by (rule long_token_expires_at_once) simp_all

end
