(* ===== verification/Condition_Core.thy ===== *)
theory Condition_Core
  imports Go_Prelude "HOL-Library.Product_Lexorder"
begin

text \<open>
  Reading and writing the status conditions of an object: \<open>runtime/conditions/getter.go\<close> and
  \<open>runtime/conditions/setter.go\<close>. An object is its kind, name, generation and list of conditions,
  which is what the \<open>Getter\<close> and \<open>Setter\<close> interfaces expose of it; nil objects are not represented. Times are
  nanoseconds since Go's zero time. Messages arrive formatted.
\<close>

section \<open>Data\<close>

datatype ConditionStatus = ConditionTrue | ConditionFalse | ConditionUnknown | OtherStatus string

record Condition =
  ctype :: string
  status :: ConditionStatus
  observedGeneration :: int
  lastTransitionTime :: int
  reason :: string
  message :: string

record Obj =
  okind :: string
  oname :: string
  generation :: int
  conditions :: "Condition list"

definition ReadyCondition :: string where "ReadyCondition = ''Ready''"

definition StalledCondition :: string where "StalledCondition = ''Stalled''"

definition ReconcilingCondition :: string where "ReconcilingCondition = ''Reconciling''"

lemmas condition_type_defs = ReadyCondition_def StalledCondition_def ReconcilingCondition_def

lemma condition_types_distinct [simp]:
  "ReadyCondition \<noteq> StalledCondition" "StalledCondition \<noteq> ReadyCondition"
  "ReadyCondition \<noteq> ReconcilingCondition" "ReconcilingCondition \<noteq> ReadyCondition"
  "StalledCondition \<noteq> ReconcilingCondition" "ReconcilingCondition \<noteq> StalledCondition"
  by (simp_all add: condition_type_defs)

section \<open>Getters\<close>

definition Get :: "Obj \<Rightarrow> string \<Rightarrow> Condition option" where
  "Get from t = List.find (\<lambda>c. ctype c = t) (conditions from)"

definition Has :: "Obj \<Rightarrow> string \<Rightarrow> bool" where
  "Has from t \<longleftrightarrow> Get from t \<noteq> None"

definition HasAny :: "Obj \<Rightarrow> string list \<Rightarrow> bool" where
  "HasAny from ts \<longleftrightarrow> list_ex (Has from) ts"

definition GetReason :: "Obj \<Rightarrow> string \<Rightarrow> string" where
  "GetReason from t = (case Get from t of Some c \<Rightarrow> reason c | None \<Rightarrow> [])"

definition HasAnyReason :: "Obj \<Rightarrow> string \<Rightarrow> string list \<Rightarrow> bool" where
  "HasAnyReason from t rs \<longleftrightarrow> list_ex (\<lambda>r. GetReason from t = r) rs"

definition GetMessage :: "Obj \<Rightarrow> string \<Rightarrow> string" where
  "GetMessage from t = (case Get from t of Some c \<Rightarrow> message c | None \<Rightarrow> [])"

definition GetLastTransitionTime :: "Obj \<Rightarrow> string \<Rightarrow> int option" where
  "GetLastTransitionTime from t = map_option lastTransitionTime (Get from t)"

definition GetObservedGeneration :: "Obj \<Rightarrow> string \<Rightarrow> int" where
  "GetObservedGeneration from t = (case Get from t of Some c \<Rightarrow> observedGeneration c | None \<Rightarrow> 0)"

definition IsTrue :: "Obj \<Rightarrow> string \<Rightarrow> bool" where
  "IsTrue from t = (case Get from t of Some c \<Rightarrow> status c = ConditionTrue | None \<Rightarrow> False)"

definition IsFalse :: "Obj \<Rightarrow> string \<Rightarrow> bool" where
  "IsFalse from t = (case Get from t of Some c \<Rightarrow> status c = ConditionFalse | None \<Rightarrow> False)"

definition IsUnknown :: "Obj \<Rightarrow> string \<Rightarrow> bool" where
  "IsUnknown from t = (case Get from t of Some c \<Rightarrow> status c = ConditionUnknown | None \<Rightarrow> True)"

definition IsStalled :: "Obj \<Rightarrow> bool" where
  "IsStalled from \<longleftrightarrow> \<not> IsTrue from ReconcilingCondition \<and> IsTrue from StalledCondition"

definition IsReconciling :: "Obj \<Rightarrow> bool" where
  "IsReconciling from \<longleftrightarrow> \<not> IsTrue from StalledCondition \<and> IsTrue from ReconcilingCondition"

definition IsReady :: "Obj \<Rightarrow> bool" where
  "IsReady from \<longleftrightarrow> \<not> IsStalled from \<and> \<not> IsReconciling from \<and> IsTrue from ReadyCondition"

section \<open>Setters\<close>

definition conditionWeights :: "(string, nat) gomap" where
  "conditionWeights = [(StalledCondition, 0), (ReconcilingCondition, 1), (ReadyCondition, 2)]"

definition lexicographicLess :: "Condition \<Rightarrow> Condition \<Rightarrow> bool" where
  "lexicographicLess i j =
     (case (map_of conditionWeights (ctype i), map_of conditionWeights (ctype j)) of
        (Some w1, Some w2) \<Rightarrow> w1 < w2
      | (Some _, None) \<Rightarrow> True
      | (None, Some _) \<Rightarrow> False
      | (None, None) \<Rightarrow>
          if observedGeneration i = observedGeneration j then ctype i < ctype j
          else observedGeneration i > observedGeneration j)"

definition hasSameState :: "Condition \<Rightarrow> Condition \<Rightarrow> bool" where
  "hasSameState i j \<longleftrightarrow>
     ctype i = ctype j \<and> status i = status j \<and> reason i = reason j \<and> message i = message j"

definition maxMessageLength :: nat where "maxMessageLength = 32768"

definition trimmedMessageSuffix :: string where "trimmedMessageSuffix = ''...''"

definition trimConditionMessage :: "string \<Rightarrow> nat \<Rightarrow> string" where
  "trimConditionMessage msg n =
     (let m = (if n < length trimmedMessageSuffix then length trimmedMessageSuffix else n) in
      if length msg \<le> m then msg
      else take (m - length trimmedMessageSuffix) msg @ trimmedMessageSuffix)"

text \<open>The current time in UTC, truncated to the second.\<close>

definition truncateSecond :: "int \<Rightarrow> int" where
  "truncateSecond now = now - now mod 1000000000"

text \<open>The loop of \<open>Set\<close> over the existing conditions; \<open>None\<close> when no condition has the type.\<close>

fun replaceCondition :: "int \<Rightarrow> Condition \<Rightarrow> Condition list \<Rightarrow> Condition list option" where
  "replaceCondition now c [] = None"
| "replaceCondition now c (e # es) =
     (if ctype e = ctype c then
        Some ((if \<not> hasSameState e c then c\<lparr>lastTransitionTime := truncateSecond now\<rparr>
               else if observedGeneration e \<noteq> observedGeneration c
                 then c\<lparr>lastTransitionTime := lastTransitionTime e\<rparr>
               else e) # es)
      else map_option ((#) e) (replaceCondition now c es))"

definition prepareCondition :: "Obj \<Rightarrow> Condition \<Rightarrow> Condition" where
  "prepareCondition to c =
     c\<lparr>observedGeneration := generation to, message := trimConditionMessage (message c) maxMessageLength\<rparr>"

definition Set :: "int \<Rightarrow> Obj \<Rightarrow> Condition option \<Rightarrow> Obj" where
  "Set now to cond =
     (case cond of None \<Rightarrow> to
      | Some c0 \<Rightarrow>
          let c = prepareCondition to c0;
              cs = (case replaceCondition now c (conditions to) of
                      Some cs \<Rightarrow> cs
                    | None \<Rightarrow> conditions to @
                        [if lastTransitionTime c = 0 then c\<lparr>lastTransitionTime := truncateSecond now\<rparr> else c])
          in to\<lparr>conditions := sort_Slice lexicographicLess cs\<rparr>)"

definition newCondition :: "string \<Rightarrow> ConditionStatus \<Rightarrow> string \<Rightarrow> string \<Rightarrow> Condition" where
  "newCondition t s r m = \<lparr>ctype = t, status = s, observedGeneration = 0, lastTransitionTime = 0,
     reason = r, message = m\<rparr>"

definition TrueCondition :: "string \<Rightarrow> string \<Rightarrow> string \<Rightarrow> Condition" where
  "TrueCondition t r m = newCondition t ConditionTrue r m"

definition FalseCondition :: "string \<Rightarrow> string \<Rightarrow> string \<Rightarrow> Condition" where
  "FalseCondition t r m = newCondition t ConditionFalse r m"

definition UnknownCondition :: "string \<Rightarrow> string \<Rightarrow> string \<Rightarrow> Condition" where
  "UnknownCondition t r m = newCondition t ConditionUnknown r m"

definition MarkTrue :: "int \<Rightarrow> Obj \<Rightarrow> string \<Rightarrow> string \<Rightarrow> string \<Rightarrow> Obj" where
  "MarkTrue now to t r m = Set now to (Some (TrueCondition t r m))"

definition MarkUnknown :: "int \<Rightarrow> Obj \<Rightarrow> string \<Rightarrow> string \<Rightarrow> string \<Rightarrow> Obj" where
  "MarkUnknown now to t r m = Set now to (Some (UnknownCondition t r m))"

definition MarkFalse :: "int \<Rightarrow> Obj \<Rightarrow> string \<Rightarrow> string \<Rightarrow> string \<Rightarrow> Obj" where
  "MarkFalse now to t r m = Set now to (Some (FalseCondition t r m))"

definition Delete :: "Obj \<Rightarrow> string \<Rightarrow> Obj" where
  "Delete to t = to\<lparr>conditions := filter (\<lambda>c. ctype c \<noteq> t) (conditions to)\<rparr>"

definition MarkReconciling :: "int \<Rightarrow> Obj \<Rightarrow> string \<Rightarrow> string \<Rightarrow> Obj" where
  "MarkReconciling now to r m =
     MarkTrue now (Delete to StalledCondition) ReconcilingCondition r m"

definition MarkStalled :: "int \<Rightarrow> Obj \<Rightarrow> string \<Rightarrow> string \<Rightarrow> Obj" where
  "MarkStalled now to r m =
     MarkTrue now (Delete to ReconcilingCondition) StalledCondition r m"

section \<open>Order of conditions\<close>

definition condition_key :: "Condition \<Rightarrow> nat \<times> int \<times> string" where
  "condition_key c =
     (case map_of conditionWeights (ctype c) of
        Some w \<Rightarrow> (w, 0, []) | None \<Rightarrow> (3, - observedGeneration c, ctype c))"

lemma conditionWeights_lt: "map_of conditionWeights t = Some w \<Longrightarrow> w < 3"
  by (auto simp: conditionWeights_def split: if_splits)

lemma lexicographicLess_key: "lexicographicLess i j \<longleftrightarrow> condition_key i < condition_key j"
  by (auto simp: lexicographicLess_def condition_key_def less_prod_def' dest: conditionWeights_lt
      split: option.splits)

lemma lexicographic_order: "less_order lexicographicLess"
  unfolding lexicographicLess_key by (rule less_order_key)

interpretation lexicographic: less_order lexicographicLess
  by (rule lexicographic_order)

lemma conditionWeights_inj:
  "map_of conditionWeights t = Some w \<Longrightarrow> map_of conditionWeights u = Some w \<Longrightarrow> t = u"
  by (auto simp: conditionWeights_def split: if_splits)

lemma lexicographicLess_total: "ctype i \<noteq> ctype j \<Longrightarrow> lexicographicLess i j \<or> lexicographicLess j i"
  by (auto simp: lexicographicLess_def not_less dest: conditionWeights_inj split: option.splits)

section \<open>Laws of Get, Set and Delete\<close>

definition types_distinct :: "Obj \<Rightarrow> bool" where
  "types_distinct o' \<longleftrightarrow> distinct (map ctype (conditions o'))"

definition find_type :: "Condition list \<Rightarrow> string \<Rightarrow> Condition option" where
  "find_type cs t = List.find (\<lambda>c. ctype c = t) cs"

lemma find_type_simps [simp]:
  "find_type [] t = None"
  "find_type (c # cs) t = (if ctype c = t then Some c else find_type cs t)"
  by (simp_all add: find_type_def)

lemma find_type_map_of: "find_type cs t = map_of (map (\<lambda>c. (ctype c, c)) cs) t"
  by (induction cs) auto

lemma find_type_Some: "find_type cs t = Some c \<Longrightarrow> c \<in> set cs \<and> ctype c = t"
  by (induction cs) (auto split: if_splits)

lemma find_type_None: "find_type cs t = None \<longleftrightarrow> t \<notin> ctype ` set cs"
  by (induction cs) auto

lemma find_type_iff:
  "distinct (map ctype cs) \<Longrightarrow> find_type cs t = Some c \<longleftrightarrow> c \<in> set cs \<and> ctype c = t"
  by (induction cs) auto

lemma find_type_mset:
  assumes "distinct (map ctype cs)" "mset cs = mset ds"
  shows "find_type cs t = find_type ds t"
proof -
  have d: "distinct (map ctype ds)"
    using assms by (metis mset_map mset_eq_imp_distinct_iff)
  have "find_type cs t = Some c \<longleftrightarrow> find_type ds t = Some c" for c
    using find_type_iff [OF assms(1)] find_type_iff [OF d] assms(2) by (metis mset_eq_setD)
  then show ?thesis by (metis option.exhaust)
qed

lemma find_type_sort [simp]:
  "distinct (map ctype cs) \<Longrightarrow> find_type (sort_Slice lt cs) t = find_type cs t"
  by (rule find_type_mset) simp_all

lemma Get_find: "Get o' t = find_type (conditions o') t"
  by (simp add: Get_def find_type_def)

definition storedCondition :: "int \<Rightarrow> Obj \<Rightarrow> Condition \<Rightarrow> Condition" where
  "storedCondition now to c0 =
     (let c = prepareCondition to c0 in
      case Get to (ctype c0) of
        None \<Rightarrow> if lastTransitionTime c = 0 then c\<lparr>lastTransitionTime := truncateSecond now\<rparr> else c
      | Some e \<Rightarrow>
          if \<not> hasSameState e c then c\<lparr>lastTransitionTime := truncateSecond now\<rparr>
          else if observedGeneration e \<noteq> observedGeneration c
            then c\<lparr>lastTransitionTime := lastTransitionTime e\<rparr>
          else e)"

lemma prepareCondition_type [simp]: "ctype (prepareCondition to c) = ctype c"
  by (simp add: prepareCondition_def)

lemma storedCondition_state: "hasSameState (storedCondition now to c) (prepareCondition to c)"
  by (auto simp: storedCondition_def hasSameState_def Let_def split: option.split)

lemma storedCondition_type [simp]: "ctype (storedCondition now to c) = ctype c"
  using storedCondition_state [of now to c] by (simp add: hasSameState_def)

lemma storedCondition_generation: "observedGeneration (storedCondition now to c) = generation to"
  by (auto simp: storedCondition_def prepareCondition_def Let_def split: option.split)

lemma replaceCondition_Some:
  "replaceCondition now c cs = Some ds \<Longrightarrow>
     \<exists>e as bs. cs = as @ e # bs \<and> find_type cs (ctype c) = Some e \<and>
       ds = as @ (if \<not> hasSameState e c then c\<lparr>lastTransitionTime := truncateSecond now\<rparr>
                  else if observedGeneration e \<noteq> observedGeneration c
                    then c\<lparr>lastTransitionTime := lastTransitionTime e\<rparr> else e) # bs"
proof (induction cs arbitrary: ds)
  case (Cons e es)
  show ?case
  proof (cases "ctype e = ctype c")
    case True
    with Cons.prems show ?thesis by (intro exI [of _ e] exI [of _ "[]"] exI [of _ es]) simp
  next
    case False
    then obtain ds' where "replaceCondition now c es = Some ds'" "ds = e # ds'"
      using Cons.prems by auto
    with Cons.IH [of ds'] False show ?thesis by (metis append_Cons find_type_simps(2))
  qed
qed simp

lemma replaceCondition_None: "replaceCondition now c cs = None \<longleftrightarrow> find_type cs (ctype c) = None"
  by (induction cs) auto

text \<open>The conditions after \<open>Set\<close>: one condition replaced in place or appended, then sorted.\<close>

lemma Set_conditions:
  obtains as bs where "conditions (Set now to (Some c)) =
      sort_Slice lexicographicLess (as @ storedCondition now to c # bs)"
    "conditions to = as @ (case Get to (ctype c) of None \<Rightarrow> [] | Some e \<Rightarrow> [e]) @ bs"
proof (cases "Get to (ctype c)")
  case None
  then have "replaceCondition now (prepareCondition to c) (conditions to) = None"
    by (simp add: replaceCondition_None Get_find)
  with None show ?thesis
    by (intro that [of "conditions to" "[]"]) (simp_all add: Set_def storedCondition_def Let_def)
next
  case (Some e)
  then obtain ds where ds: "replaceCondition now (prepareCondition to c) (conditions to) = Some ds"
    by (metis Get_find not_None_eq prepareCondition_type replaceCondition_None)
  from replaceCondition_Some [OF this] Some obtain as bs where ab: "conditions to = as @ e # bs"
    "ds = as @ storedCondition now to c # bs"
    by (auto simp: storedCondition_def Let_def Get_find)
  with Some ds show ?thesis by (intro that [of as bs]) (simp_all add: Set_def Let_def)
qed

lemma Set_fields [simp]:
  "okind (Set now to c) = okind to" "oname (Set now to c) = oname to"
  "generation (Set now to c) = generation to"
  by (simp_all add: Set_def Let_def split: option.split)

lemma Set_None [simp]: "Set now to None = to"
  by (simp add: Set_def)

lemma Set_distinct:
  assumes "types_distinct to"
  shows "types_distinct (Set now to c)"
proof (cases c)
  case (Some c0)
  obtain as bs where ab: "conditions (Set now to (Some c0)) =
      sort_Slice lexicographicLess (as @ storedCondition now to c0 # bs)"
    "conditions to = as @ (case Get to (ctype c0) of None \<Rightarrow> [] | Some e \<Rightarrow> [e]) @ bs"
    by (rule Set_conditions)
  have "distinct (map ctype (as @ storedCondition now to c0 # bs))"
  proof (cases "Get to (ctype c0)")
    case None
    with ab(2) have "conditions to = as @ bs" by simp
    with None assms show ?thesis by (auto simp: types_distinct_def Get_find find_type_None)
  next
    case e: (Some e)
    with ab(2) have "conditions to = as @ e # bs" by simp
    moreover have "ctype e = ctype c0" using find_type_Some e by (simp add: Get_find)
    ultimately show ?thesis using assms by (simp add: types_distinct_def)
  qed
  then show ?thesis using ab(1) Some by (simp add: types_distinct_def)
qed (use assms in simp)

lemma Get_Set:
  assumes "types_distinct to"
  shows "Get (Set now to (Some c)) t = (if t = ctype c then Some (storedCondition now to c) else Get to t)"
proof -
  obtain as bs where ab: "conditions (Set now to (Some c)) =
      sort_Slice lexicographicLess (as @ storedCondition now to c # bs)"
    "conditions to = as @ (case Get to (ctype c) of None \<Rightarrow> [] | Some e \<Rightarrow> [e]) @ bs"
    by (rule Set_conditions)
  let ?cs = "as @ storedCondition now to c # bs"
  have d: "distinct (map ctype ?cs)"
    using Set_distinct [OF assms, of now "Some c"] ab(1) by (simp add: types_distinct_def)
  have other: "find_type ?cs t = find_type (conditions to) t" if "t \<noteq> ctype c"
  proof -
    have app: "find_type (xs @ ys) t = (case find_type xs t of None \<Rightarrow> find_type ys t | Some x \<Rightarrow> Some x)" for xs ys
      by (induction xs) auto
    show ?thesis
    proof (cases "Get to (ctype c)")
      case None
      with ab(2) have "conditions to = as @ bs" by simp
      with that show ?thesis by (simp add: app split: option.split)
    next
      case (Some e)
      with ab(2) have "conditions to = as @ e # bs" by simp
      moreover have "ctype e = ctype c" using find_type_Some Some by (simp add: Get_find)
      ultimately show ?thesis using that by (simp add: app split: option.split)
    qed
  qed
  show ?thesis
    using d ab(1) other find_type_iff [OF d, of "ctype c" "storedCondition now to c"]
    by (auto simp: Get_find)
qed

lemma Set_sorted: "c \<noteq> None \<Longrightarrow> sorted_by lexicographicLess (conditions (Set now to c))"
  by (auto simp: Set_def Let_def lexicographic.sorted_sort_Slice split: option.split)

lemma Delete_distinct: "types_distinct to \<Longrightarrow> types_distinct (Delete to t)"
  by (simp add: types_distinct_def Delete_def distinct_map_filter)

lemma Get_Delete: "Get (Delete to t) u = (if u = t then None else Get to u)"
proof -
  have "find_type (filter (\<lambda>c. ctype c \<noteq> t) cs) u = (if u = t then None else find_type cs u)" for cs
    by (induction cs) auto
  then show ?thesis by (simp add: Get_find Delete_def)
qed

lemma Delete_fields [simp]:
  "okind (Delete to t) = okind to" "oname (Delete to t) = oname to"
  "generation (Delete to t) = generation to"
  by (simp_all add: Delete_def)

end
