(* ===== verification/Condition_Laws.thy ===== *)
theory Condition_Laws
  imports Condition_Core
begin

text \<open>
  The contract of a store of conditions, as the packages that read and write conditions use it, and
  what \<open>Set\<close>, \<open>Delete\<close> and the \<open>Mark\<close> functions of
  \<open>runtime/conditions/setter.go\<close> guarantee.
\<close>

section \<open>Contract\<close>

datatype cond_op = Put int Condition | Drop string

fun touched :: "cond_op \<Rightarrow> string" where
  "touched (Put now c) = ctype c"
| "touched (Drop t) = t"

locale condition_store =
  fixes get :: "'s \<Rightarrow> string \<Rightarrow> Condition option"
    and put :: "int \<Rightarrow> Condition \<Rightarrow> 's \<Rightarrow> 's"
    and del :: "string \<Rightarrow> 's \<Rightarrow> 's"
    and ok :: "'s \<Rightarrow> bool"
    and norm :: "Condition \<Rightarrow> Condition"
  assumes put_ok: "ok s \<Longrightarrow> ok (put now c s)"
    and del_ok: "ok s \<Longrightarrow> ok (del t s)"
    and get_put_same: "ok s \<Longrightarrow> \<exists>c'. get (put now c s) (ctype c) = Some c' \<and> hasSameState c' (norm c)"
    and get_put_other: "ok s \<Longrightarrow> t \<noteq> ctype c \<Longrightarrow> get (put now c s) t = get s t"
    and get_del: "ok s \<Longrightarrow> get (del t s) u = (if u = t then None else get s u)"
    and norm_fields: "ctype (norm c) = ctype c" "status (norm c) = status c" "reason (norm c) = reason c"
begin

fun exec :: "cond_op \<Rightarrow> 's \<Rightarrow> 's" where
  "exec (Put now c) s = put now c s"
| "exec (Drop t) s = del t s"

definition run :: "cond_op list \<Rightarrow> 's \<Rightarrow> 's" where
  "run ops s = fold exec ops s"

lemma run_simps [simp]: "run [] s = s" "run (x # xs) s = run xs (exec x s)" "run (xs @ ys) s = run ys (run xs s)"
  by (simp_all add: run_def)

lemma exec_ok: "ok s \<Longrightarrow> ok (exec x s)"
  by (cases x) (simp_all add: put_ok del_ok)

lemma run_ok: "ok s \<Longrightarrow> ok (run ops s)"
  by (induction ops arbitrary: s) (auto intro: exec_ok)

lemma exec_other: "ok s \<Longrightarrow> t \<noteq> touched x \<Longrightarrow> get (exec x s) t = get s t"
  by (cases x) (simp_all add: get_put_other get_del)

lemma run_untouched: "ok s \<Longrightarrow> t \<notin> touched ` set ops \<Longrightarrow> get (run ops s) t = get s t"
  by (induction ops arbitrary: s) (simp_all add: exec_ok exec_other)

text \<open>The last operation on a type decides.\<close>

lemma run_last_put:
  assumes "ok s" "ctype c \<notin> touched ` set post"
  shows "\<exists>c'. get (run (pre @ Put now c # post) s) (ctype c) = Some c' \<and> hasSameState c' (norm c)"
  using get_put_same [OF run_ok [OF assms(1)], of now c pre] assms
  by (simp add: run_untouched put_ok run_ok)

lemma run_last_del:
  "ok s \<Longrightarrow> t \<notin> touched ` set post \<Longrightarrow> get (run (pre @ Drop t # post) s) t = None"
  by (simp add: run_untouched del_ok run_ok get_del)

end

section \<open>The model's store\<close>

definition normCondition :: "Condition \<Rightarrow> Condition" where
  "normCondition c = c\<lparr>message := trimConditionMessage (message c) maxMessageLength\<rparr>"

text \<open>An object for the examples.\<close>

definition demo_object :: Obj where
  "demo_object = \<lparr>okind = ''Bucket'', oname = ''a'', generation = 2,
     conditions = [newCondition ''Ready'' ConditionTrue ''Ok'' ''done'', newCondition ''Fetch'' ConditionFalse ''Err'' ''x'']\<rparr>"

lemma hasSameState_norm: "hasSameState c (prepareCondition to d) = hasSameState c (normCondition d)"
  by (simp add: hasSameState_def prepareCondition_def normCondition_def)

lemma stored_norm: "hasSameState (storedCondition now to c) (normCondition c)"
  using storedCondition_state [of now to c] by (simp add: hasSameState_norm)

interpretation cs: condition_store Get "\<lambda>now c o'. Set now o' (Some c)" "\<lambda>t o'. Delete o' t"
  types_distinct normCondition
  by unfold_locales
    (auto simp: Set_distinct Delete_distinct Get_Set Get_Delete normCondition_def
      stored_norm [unfolded normCondition_def])

lemma IsTrue_Set:
  "types_distinct o' \<Longrightarrow> IsTrue (Set now o' (Some c)) t =
     (if t = ctype c then status c = ConditionTrue else IsTrue o' t)"
  using stored_norm [of now o' c]
  by (simp add: IsTrue_def Get_Set hasSameState_def normCondition_def)

lemma IsTrue_Delete: "IsTrue (Delete o' u) t \<longleftrightarrow> t \<noteq> u \<and> IsTrue o' t"
  by (simp add: IsTrue_def Get_Delete)

lemma Condition_constructors [simp]:
  "ctype (TrueCondition t r m) = t" "status (TrueCondition t r m) = ConditionTrue"
  "ctype (FalseCondition t r m) = t" "status (FalseCondition t r m) = ConditionFalse"
  "ctype (UnknownCondition t r m) = t" "status (UnknownCondition t r m) = ConditionUnknown"
  "reason (TrueCondition t r m) = r" "reason (FalseCondition t r m) = r"
  "reason (UnknownCondition t r m) = r"
  "message (TrueCondition t r m) = m" "message (FalseCondition t r m) = m"
  "message (UnknownCondition t r m) = m"
  by (simp_all add: TrueCondition_def FalseCondition_def UnknownCondition_def newCondition_def)

lemmas mark_defs = MarkTrue_def MarkFalse_def MarkUnknown_def MarkReconciling_def MarkStalled_def

lemma Mark_IsTrue:
  assumes "types_distinct o'"
  shows "IsTrue (MarkTrue now o' t r m) u \<longleftrightarrow> u = t \<or> IsTrue o' u"
    and "IsTrue (MarkFalse now o' t r m) u \<longleftrightarrow> u \<noteq> t \<and> IsTrue o' u"
    and "IsTrue (MarkUnknown now o' t r m) u \<longleftrightarrow> u \<noteq> t \<and> IsTrue o' u"
    and "IsTrue (MarkReconciling now o' r m) u \<longleftrightarrow>
      u = ReconcilingCondition \<or> u \<noteq> StalledCondition \<and> IsTrue o' u"
    and "IsTrue (MarkStalled now o' r m) u \<longleftrightarrow>
      u = StalledCondition \<or> u \<noteq> ReconcilingCondition \<and> IsTrue o' u"
  using assms Delete_distinct [OF assms] by (auto simp: mark_defs IsTrue_Set IsTrue_Delete)

lemma Mark_distinct [simp]:
  assumes "types_distinct o'"
  shows "types_distinct (MarkTrue now o' t r m)" "types_distinct (MarkFalse now o' t r m)"
    "types_distinct (MarkUnknown now o' t r m)" "types_distinct (MarkReconciling now o' r m)"
    "types_distinct (MarkStalled now o' r m)"
  using assms by (simp_all add: mark_defs Set_distinct Delete_distinct)

lemma Mark_other:
  assumes "types_distinct o'" "u \<noteq> t"
  shows "Get (MarkTrue now o' t r m) u = Get o' u" "Get (MarkFalse now o' t r m) u = Get o' u"
    "Get (MarkUnknown now o' t r m) u = Get o' u"
  using assms by (simp_all add: mark_defs Get_Set)

text \<open>Setting the same condition again finds it stored and leaves the sorted list alone.\<close>

lemma storedCondition_again:
  assumes "types_distinct o'"
  shows "storedCondition now' (Set now o' (Some c)) c = storedCondition now o' c"
proof -
  let ?s = "storedCondition now o' c"
  have "hasSameState ?s (prepareCondition (Set now o' (Some c)) c)"
    using stored_norm hasSameState_norm by blast
  moreover have "observedGeneration ?s = observedGeneration (prepareCondition (Set now o' (Some c)) c)"
    by (simp add: storedCondition_generation prepareCondition_def)
  ultimately show ?thesis
    using Get_Set [OF assms, of now c "ctype c"] by (simp add: storedCondition_def [of now' "Set _ _ _"] Let_def)
qed

lemma Set_again:
  assumes "types_distinct o'"
  shows "Set now' (Set now o' (Some c)) (Some c) = Set now o' (Some c)"
proof -
  let ?o = "Set now o' (Some c)"
  obtain as bs where ab: "conditions (Set now' ?o (Some c)) =
      sort_Slice lexicographicLess (as @ storedCondition now' ?o c # bs)"
    "conditions ?o = as @ (case Get ?o (ctype c) of None \<Rightarrow> [] | Some e \<Rightarrow> [e]) @ bs"
    by (rule Set_conditions)
  have "Get ?o (ctype c) = Some (storedCondition now' ?o c)"
    using Get_Set [OF assms] storedCondition_again [OF assms] by simp
  with ab have "conditions (Set now' ?o (Some c)) = sort_Slice lexicographicLess (conditions ?o)" by simp
  also have "\<dots> = conditions ?o" by (rule lexicographic.sort_Slice_id) (simp add: Set_sorted)
  finally show ?thesis by (intro Obj.equality) simp_all
qed

text \<open>The order \<open>Set\<close> leaves is determined by the set of conditions.\<close>

lemma Set_mset:
  assumes "types_distinct a" "mset (conditions a) = mset (conditions b)" "generation a = generation b"
  shows "conditions (Set now a (Some c)) = conditions (Set now b (Some c))"
proof -
  have db: "types_distinct b"
    using assms(1,2) unfolding types_distinct_def by (metis mset_map mset_eq_imp_distinct_iff)
  have Get: "Get a t = Get b t" for t
    using assms(1,2) find_type_mset by (simp add: Get_find types_distinct_def)
  have stored: "storedCondition now a c = storedCondition now b c"
    by (simp add: storedCondition_def Get prepareCondition_def assms(3))
  have m: "mset (conditions (Set now o' (Some c))) =
      mset (conditions o') - (case Get o' (ctype c) of None \<Rightarrow> {#} | Some e \<Rightarrow> {#e#}) +
      {#storedCondition now o' c#}" for o'
  proof -
    obtain as bs where "conditions (Set now o' (Some c)) =
        sort_Slice lexicographicLess (as @ storedCondition now o' c # bs)"
      "conditions o' = as @ (case Get o' (ctype c) of None \<Rightarrow> [] | Some e \<Rightarrow> [e]) @ bs"
      by (rule Set_conditions)
    then show ?thesis by (cases "Get o' (ctype c)") simp_all
  qed
  show ?thesis
  proof (rule lexicographic.sort_unique)
    show "mset (conditions (Set now a (Some c))) = mset (conditions (Set now b (Some c)))"
      by (simp add: m Get stored assms(2))
    fix x y
    assume "x \<in> set (conditions (Set now a (Some c)))" "y \<in> set (conditions (Set now a (Some c)))" "x \<noteq> y"
    then have "ctype x \<noteq> ctype y"
      using Set_distinct [OF assms(1), of now "Some c"] by (auto simp: types_distinct_def distinct_map inj_on_def)
    then show "lexicographicLess x y \<or> lexicographicLess y x" by (rule lexicographicLess_total)
  qed (simp_all add: Set_sorted)
qed

section \<open>Properties\<close>

text \<open>
  C18. Contract of \<open>Set\<close>: on an object whose conditions have distinct types, \<open>Set\<close> keeps the types
  distinct, leaves every other type's condition as it was, stores the given status and reason and the
  trimmed message under the object's generation, and sorts the list. The transition time is
  kept when status, reason and message are unchanged, is the current second on a change, and for a new
  type is the given time unless that is zero.
\<close>

theorem Set_contract:
  assumes "types_distinct o'"
  shows "let r = Set now o' (Some c) in
    types_distinct r \<and> sorted_by lexicographicLess (conditions r) \<and>
    (\<forall>t. t \<noteq> ctype c \<longrightarrow> Get r t = Get o' t) \<and>
    (\<exists>s. Get r (ctype c) = Some s \<and> status s = status c \<and> reason s = reason c \<and>
      message s = trimConditionMessage (message c) maxMessageLength \<and>
      observedGeneration s = generation o' \<and>
      lastTransitionTime s =
        (case Get o' (ctype c) of
           Some e \<Rightarrow> if hasSameState e (normCondition c) then lastTransitionTime e else truncateSecond now
         | None \<Rightarrow> if lastTransitionTime c = 0 then truncateSecond now else lastTransitionTime c))"
proof -
  let ?s = "storedCondition now o' c"
  have "lastTransitionTime ?s =
    (case Get o' (ctype c) of
       Some e \<Rightarrow> if hasSameState e (normCondition c) then lastTransitionTime e else truncateSecond now
     | None \<Rightarrow> if lastTransitionTime c = 0 then truncateSecond now else lastTransitionTime c)"
    by (simp add: storedCondition_def hasSameState_def normCondition_def Let_def prepareCondition_def
        split: option.split)
  then show ?thesis
    using stored_norm [of now o' c]
    by (simp add: Let_def Set_distinct [OF assms(1)] Set_sorted Get_Set [OF assms(1)]
        storedCondition_generation hasSameState_def normCondition_def)
qed

theorem Set_contract_witness:
  "Get (Set 5000000000 demo_object (Some (newCondition ''Ready'' ConditionFalse ''Err'' ''no''))) ''Fetch'' =
     Some (newCondition ''Fetch'' ConditionFalse ''Err'' ''x'')"
proof -
  have "types_distinct demo_object" by code_simp
  from Set_contract [OF this, of 5000000000 "newCondition ''Ready'' ConditionFalse ''Err'' ''no''"]
  have "Get (Set 5000000000 demo_object (Some (newCondition ''Ready'' ConditionFalse ''Err'' ''no''))) ''Fetch'' =
    Get demo_object ''Fetch''" by (simp add: newCondition_def Let_def)
  also have "\<dots> = Some (newCondition ''Fetch'' ConditionFalse ''Err'' ''x'')" by code_simp
  finally show ?thesis .
qed

text \<open>
  Setting a condition is idempotent at any later time, transition time included, so a
  reconciler that reports the same state again does not touch the object; and the resulting list does not depend on
  the order in which the object held its conditions.
\<close>

theorem Set_idempotent_and_canonical:
  assumes "types_distinct o'"
  shows "Set now' (Set now o' (Some c)) (Some c) = Set now o' (Some c) \<and>
    (\<forall>cs. mset cs = mset (conditions o') \<longrightarrow>
       Set now (o'\<lparr>conditions := cs\<rparr>) (Some c) = Set now o' (Some c))"
proof (intro conjI allI impI)
  show "Set now' (Set now o' (Some c)) (Some c) = Set now o' (Some c)" by (rule Set_again [OF assms])
  fix cs
  assume "mset cs = mset (conditions o')"
  then have "conditions (Set now o' (Some c)) = conditions (Set now (o'\<lparr>conditions := cs\<rparr>) (Some c))"
    by (intro Set_mset [OF assms]) simp_all
  then show "Set now (o'\<lparr>conditions := cs\<rparr>) (Some c) = Set now o' (Some c)"
    by (intro Obj.equality) simp_all
qed

theorem Set_idempotent_and_canonical_witness:
  "Set 9 (Set 7 demo_object (Some (newCondition ''Ready'' ConditionTrue ''R'' ''m'')))
     (Some (newCondition ''Ready'' ConditionTrue ''R'' ''m'')) =
   Set 7 demo_object (Some (newCondition ''Ready'' ConditionTrue ''R'' ''m''))"
proof -
  have "types_distinct demo_object" by code_simp
  from Set_idempotent_and_canonical [OF this] show ?thesis by blast
qed

text \<open>
  C34. The kstatus conditions exclude each other: no object is at once two of ready, stalled and
  reconciling, and marking an object stalled or reconciling makes it exactly that, whatever it was before,
  without touching any other condition.
\<close>

theorem Mark_exclusive:
  assumes "types_distinct o'"
  shows "\<not> (IsReady o' \<and> IsStalled o') \<and> \<not> (IsReady o' \<and> IsReconciling o') \<and>
    \<not> (IsStalled o' \<and> IsReconciling o') \<and>
    IsStalled (MarkStalled now o' r m) \<and> \<not> IsReconciling (MarkStalled now o' r m) \<and>
    IsReconciling (MarkReconciling now o' r m) \<and> \<not> IsStalled (MarkReconciling now o' r m) \<and>
    (\<forall>t. t \<notin> {StalledCondition, ReconcilingCondition} \<longrightarrow>
       Get (MarkStalled now o' r m) t = Get o' t \<and> Get (MarkReconciling now o' r m) t = Get o' t)"
  using assms
  by (auto simp: IsReady_def IsStalled_def IsReconciling_def mark_defs IsTrue_Set IsTrue_Delete Get_Set
      Delete_distinct Get_Delete)

theorem Mark_exclusive_witness:
  "IsReady demo_object \<and> IsStalled (MarkStalled 7 demo_object ''R'' ''m'') \<and>
   \<not> IsReady (MarkStalled 7 demo_object ''R'' ''m'')"
proof -
  have "types_distinct demo_object" "IsReady demo_object" by code_simp+
  moreover from this(1) have "types_distinct (MarkStalled 7 demo_object ''R'' ''m'')" by simp
  ultimately show ?thesis using Mark_exclusive [of demo_object 7 "''R''" "''m''"]
    Mark_exclusive [of "MarkStalled 7 demo_object ''R'' ''m''" 7 "''R''" "''m''"] by blast
qed

text \<open>
  Message trimming: the result never exceeds the limit (but three bytes for the ellipsis are always
  allowed), a message within the limit is unchanged, a longer one becomes a prefix of it
  followed by the ellipsis, of exactly the limit's length, and trimming again changes nothing.
\<close>

theorem trimConditionMessage_bounds:
  "length (trimConditionMessage m n) \<le> max 3 n \<and>
   (length m \<le> max 3 n \<longrightarrow> trimConditionMessage m n = m) \<and>
   (length m > max 3 n \<longrightarrow> trimConditionMessage m n = take (max 3 n - 3) m @ ''...'' \<and>
      length (trimConditionMessage m n) = max 3 n) \<and>
   trimConditionMessage (trimConditionMessage m n) n = trimConditionMessage m n"
proof -
  have "length trimmedMessageSuffix = 3" by (simp add: trimmedMessageSuffix_def)
  then have "trimConditionMessage m n =
      (if length m \<le> max 3 n then m else take (max 3 n - 3) m @ ''...'')" for m
    unfolding trimConditionMessage_def Let_def
    by (simp only: \<open>length trimmedMessageSuffix = 3\<close>) (simp add: trimmedMessageSuffix_def max_def)
  then show ?thesis by (auto simp: min_def)
qed

theorem trimConditionMessage_bounds_witness: "trimConditionMessage ''abcdefgh'' 5 = ''ab...''"
  using trimConditionMessage_bounds [of "''abcdefgh''" 5] by (simp add: max_def)

end
