(* ===== verification/Condition_Patch.thy ===== *)
theory Condition_Patch
  imports Condition_Laws
begin

text \<open>
  The three-way merge of conditions in \<open>runtime/conditions/patch.go\<close>: the difference between two
  versions of an object and its application to a third, with conflict detection. \<open>Apply\<close> works in
  place and stops at the first conflict, so its result is the error together with the object as far as
  it was changed; \<open>None\<close> is the panic on an operation that lacks the condition its kind needs.
\<close>

section \<open>Patches\<close>

datatype PatchOperationType = AddConditionPatch | ChangeConditionPatch | RemoveConditionPatch

record PatchOperation =
  Before :: "Condition option"
  After :: "Condition option"
  Op :: PatchOperationType

type_synonym Patch = "PatchOperation list"

definition NewPatch :: "Obj \<Rightarrow> Obj \<Rightarrow> Patch" where
  "NewPatch before after =
     concat (map (\<lambda>target.
       case Get before (ctype target) of
         None \<Rightarrow> [\<lparr>Before = None, After = Some target, Op = AddConditionPatch\<rparr>]
       | Some current \<Rightarrow>
           if target \<noteq> current
           then [\<lparr>Before = Some current, After = Some target, Op = ChangeConditionPatch\<rparr>] else [])
       (conditions after)) @
     concat (map (\<lambda>base.
       case Get after (ctype base) of
         None \<Rightarrow> [\<lparr>Before = Some base, After = None, Op = RemoveConditionPatch\<rparr>]
       | Some _ \<Rightarrow> [])
       (conditions before))"

definition Patch_IsZero :: "Patch \<Rightarrow> bool" where
  "Patch_IsZero p \<longleftrightarrow> length p = 0"

section \<open>Apply\<close>

record applyOptions =
  ownedConditions :: "string list"
  forceOverwrite :: bool

type_synonym ApplyOption = "applyOptions \<Rightarrow> applyOptions"

definition isOwnedCondition :: "applyOptions \<Rightarrow> string \<Rightarrow> bool" where
  "isOwnedCondition o' t \<longleftrightarrow> list_ex (\<lambda>i. i = t) (ownedConditions o')"

definition WithOwnedConditions :: "string list \<Rightarrow> ApplyOption" where
  "WithOwnedConditions ts c = c\<lparr>ownedConditions := ts\<rparr>"

definition WithForceOverwrite :: "bool \<Rightarrow> ApplyOption" where
  "WithForceOverwrite v c = c\<lparr>forceOverwrite := v\<rparr>"

datatype patch_error =
    AddConflict string
  | ChangeDeleted string
  | ChangeConflict string
  | RemoveConflict string

definition applyOperation ::
  "int \<Rightarrow> applyOptions \<Rightarrow> PatchOperation \<Rightarrow> Obj \<Rightarrow> (patch_error option \<times> Obj) option" where
  "applyOperation now opts p latest =
     (case Op p of
        AddConditionPatch \<Rightarrow> do {
          after \<leftarrow> After p;
          if forceOverwrite opts \<or> isOwnedCondition opts (ctype after)
          then Some (None, Set now latest (Some after))
          else (case Get latest (ctype after) of
              Some c \<Rightarrow> if \<not> hasSameState c after then Some (Some (AddConflict (ctype after)), latest)
                        else Some (None, latest)
            | None \<Rightarrow> Some (None, Set now latest (Some after)))
        }
      | ChangeConditionPatch \<Rightarrow> do {
          after \<leftarrow> After p;
          if forceOverwrite opts \<or> isOwnedCondition opts (ctype after)
          then Some (None, Set now latest (Some after))
          else (case Get latest (ctype after) of
              None \<Rightarrow> Some (Some (ChangeDeleted (ctype after)), latest)
            | Some c \<Rightarrow>
                if Before p \<noteq> Some c then
                  if \<not> hasSameState c after then Some (Some (ChangeConflict (ctype after)), latest)
                  else Some (None, latest)
                else Some (None, Set now latest (Some after)))
        }
      | RemoveConditionPatch \<Rightarrow> do {
          before \<leftarrow> Before p;
          if forceOverwrite opts \<or> isOwnedCondition opts (ctype before)
          then Some (None, Delete latest (ctype before))
          else (case Get latest (ctype before) of
              Some c \<Rightarrow> if \<not> hasSameState c before then Some (Some (RemoveConflict (ctype before)), latest)
                        else Some (None, Delete latest (ctype before))
            | None \<Rightarrow> Some (None, Delete latest (ctype before)))
        })"

fun applyAll :: "int \<Rightarrow> applyOptions \<Rightarrow> Patch \<Rightarrow> Obj \<Rightarrow> (patch_error option \<times> Obj) option" where
  "applyAll now opts [] latest = Some (None, latest)"
| "applyAll now opts (p # ps) latest = do {
     (e, l) \<leftarrow> applyOperation now opts p latest;
     (case e of None \<Rightarrow> applyAll now opts ps l | Some err \<Rightarrow> Some (Some err, l))
   }"

definition Apply :: "int \<Rightarrow> Patch \<Rightarrow> Obj \<Rightarrow> ApplyOption list \<Rightarrow> (patch_error option \<times> Obj) option" where
  "Apply now p latest options =
     (if length p = 0 then Some (None, latest)
      else applyAll now (fold (\<lambda>f c. f c) options \<lparr>ownedConditions = [], forceOverwrite = False\<rparr>) p latest)"

section \<open>Facts about operations\<close>

definition opType :: "PatchOperation \<Rightarrow> string" where
  "opType p = (case Op p of RemoveConditionPatch \<Rightarrow> ctype (the (Before p)) | _ \<Rightarrow> ctype (the (After p)))"

definition wellFormed :: "PatchOperation \<Rightarrow> bool" where
  "wellFormed p =
     (case Op p of
        RemoveConditionPatch \<Rightarrow> Before p \<noteq> None
      | _ \<Rightarrow> After p \<noteq> None \<and> length (message (the (After p))) \<le> maxMessageLength)"

text \<open>When the latest object contradicts an operation.\<close>

definition conflicts :: "Condition option \<Rightarrow> PatchOperation \<Rightarrow> bool" where
  "conflicts latest p =
     (case Op p of
        AddConditionPatch \<Rightarrow> (case latest of None \<Rightarrow> False | Some c \<Rightarrow> \<not> hasSameState c (the (After p)))
      | ChangeConditionPatch \<Rightarrow>
          (case latest of None \<Rightarrow> True | Some c \<Rightarrow> Before p \<noteq> Some c \<and> \<not> hasSameState c (the (After p)))
      | RemoveConditionPatch \<Rightarrow>
          (case latest of None \<Rightarrow> False | Some c \<Rightarrow> \<not> hasSameState c (the (Before p))))"

definition overrides :: "applyOptions \<Rightarrow> PatchOperation \<Rightarrow> bool" where
  "overrides opts p \<longleftrightarrow> forceOverwrite opts \<or> isOwnedCondition opts (opType p)"

text \<open>What an operation asks of its type.\<close>

definition achieved :: "PatchOperation \<Rightarrow> Condition option \<Rightarrow> bool" where
  "achieved p c =
     (case Op p of
        RemoveConditionPatch \<Rightarrow> c = None
      | _ \<Rightarrow> (case c of None \<Rightarrow> False | Some d \<Rightarrow> hasSameState d (the (After p))))"

lemma norm_short: "length (message c) \<le> maxMessageLength \<Longrightarrow> normCondition c = c"
  by (simp add: normCondition_def trimConditionMessage_def Let_def trimmedMessageSuffix_def maxMessageLength_def)

lemma hasSameState_refl [simp]: "hasSameState c c"
  by (simp add: hasSameState_def)

lemma hasSameState_type: "hasSameState c d \<Longrightarrow> ctype c = ctype d"
  by (simp add: hasSameState_def)

lemma Get_type: "Get o' t = Some c \<Longrightarrow> ctype c = t"
  using find_type_Some by (simp add: Get_find)

lemma applyOperation_conflict:
  assumes "wellFormed p" "\<not> overrides opts p" "conflicts (Get latest (opType p)) p"
  shows "\<exists>e. applyOperation now opts p latest = Some (Some e, latest)"
  using assms
  by (cases "Op p") (auto simp: applyOperation_def wellFormed_def overrides_def conflicts_def opType_def
      split: option.splits)

text \<open>A successful write either sets the wanted condition or finds it already there.\<close>

lemma applyOperation_write:
  assumes "Op p \<noteq> RemoveConditionPatch" "After p = Some c"
    and "overrides opts p \<or> \<not> conflicts (Get latest (ctype c)) p"
  shows "applyOperation now opts p latest = Some (None, Set now latest (Some c)) \<or>
    applyOperation now opts p latest = Some (None, latest) \<and>
      (\<exists>d. Get latest (ctype c) = Some d \<and> hasSameState d c)"
  using assms
  by (cases "Op p"; cases "Get latest (ctype c)")
    (auto simp: applyOperation_def overrides_def conflicts_def opType_def)

lemma applyOperation_remove:
  assumes "Op p = RemoveConditionPatch" "Before p = Some c"
    and "overrides opts p \<or> \<not> conflicts (Get latest (ctype c)) p"
  shows "applyOperation now opts p latest = Some (None, Delete latest (ctype c))"
  using assms
  by (cases "Get latest (ctype c)") (auto simp: applyOperation_def overrides_def conflicts_def opType_def)

lemma applyOperation_ok:
  assumes "wellFormed p" "types_distinct latest"
    and "overrides opts p \<or> \<not> conflicts (Get latest (opType p)) p"
  shows "\<exists>l. applyOperation now opts p latest = Some (None, l) \<and> types_distinct l \<and>
    achieved p (Get l (opType p)) \<and> (\<forall>t. t \<noteq> opType p \<longrightarrow> Get l t = Get latest t)"
proof (cases "Op p = RemoveConditionPatch")
  case True
  then obtain c where c: "Before p = Some c" "opType p = ctype c"
    using assms(1) by (auto simp: wellFormed_def opType_def)
  from applyOperation_remove [OF True c(1), of opts latest now] assms(2,3) c True show ?thesis
    by (simp add: Get_Delete Delete_distinct achieved_def)
next
  case False
  then obtain c where c: "After p = Some c" "opType p = ctype c" "length (message c) \<le> maxMessageLength"
    using assms(1) by (cases "Op p") (auto simp: wellFormed_def opType_def)
  have a: "achieved p x \<longleftrightarrow> (\<exists>d. x = Some d \<and> hasSameState d c)" for x
    using False c(1) by (cases "Op p"; cases x) (simp_all add: achieved_def)
  have "hasSameState (storedCondition now latest c) c"
    using stored_norm [of now latest c] norm_short [OF c(3)] by simp
  with applyOperation_write [OF False c(1), of opts latest now] assms(2,3) c(2) show ?thesis
    by (auto simp: a Get_Set Set_distinct)
qed

text \<open>Operations of a patch touch different types, so each finds its type as in the latest object.\<close>

lemma applyAll_ok:
  assumes "\<forall>p \<in> set ps. wellFormed p" "distinct (map opType ps)" "types_distinct latest"
    and "\<forall>p \<in> set ps. overrides opts p \<or> \<not> conflicts (Get latest (opType p)) p"
  shows "\<exists>l. applyAll now opts ps latest = Some (None, l) \<and> types_distinct l \<and>
    (\<forall>p \<in> set ps. achieved p (Get l (opType p))) \<and>
    (\<forall>t. t \<notin> opType ` set ps \<longrightarrow> Get l t = Get latest t)"
  using assms
proof (induction ps arbitrary: latest)
  case (Cons p ps)
  obtain l where l: "applyOperation now opts p latest = Some (None, l)" "types_distinct l"
    "achieved p (Get l (opType p))" "\<forall>t. t \<noteq> opType p \<longrightarrow> Get l t = Get latest t"
    using applyOperation_ok [of p latest opts now] Cons.prems by auto
  have "opType q \<noteq> opType p" if "q \<in> set ps" for q using Cons.prems(2) that by (auto simp: image_iff)
  then obtain l2 where l2: "applyAll now opts ps l = Some (None, l2)" "types_distinct l2"
    "\<forall>p \<in> set ps. achieved p (Get l2 (opType p))"
    "\<forall>t. t \<notin> opType ` set ps \<longrightarrow> Get l2 t = Get l t"
    using Cons.IH [of l] Cons.prems l(2,4) by auto
  have "Get l2 (opType p) = Get l (opType p)" using l2(4) Cons.prems(2) by simp
  with l l2 show ?case by auto
qed simp

lemma applyAll_conflict:
  assumes "\<forall>p \<in> set ps. wellFormed p" "distinct (map opType ps)" "types_distinct latest"
    and "p \<in> set ps" "\<not> overrides opts p" "conflicts (Get latest (opType p)) p"
  shows "\<exists>e l. applyAll now opts ps latest = Some (Some e, l)"
  using assms
proof (induction ps arbitrary: latest)
  case (Cons q ps)
  show ?case
  proof (cases "overrides opts q \<or> \<not> conflicts (Get latest (opType q)) q")
    case True
    then obtain l where l: "applyOperation now opts q latest = Some (None, l)" "types_distinct l"
      "\<forall>t. t \<noteq> opType q \<longrightarrow> Get l t = Get latest t"
      using applyOperation_ok [of q latest opts now] Cons.prems by auto
    have p: "p \<in> set ps" using True Cons.prems(4-6) by auto
    with Cons.prems(2) have "opType p \<noteq> opType q" by (auto simp: image_iff)
    then show ?thesis using Cons.IH [of l] Cons.prems l p by auto
  next
    case False
    then show ?thesis
      using applyOperation_conflict [of q opts latest now] Cons.prems by auto
  qed
qed simp

section \<open>Facts about differences\<close>

lemma NewPatch_in:
  assumes "types_distinct a" "types_distinct b"
  shows "p \<in> set (NewPatch b a) \<longleftrightarrow>
    (\<exists>c. After p = Some c \<and> Get a (ctype c) = Some c \<and> Before p = Get b (ctype c) \<and>
        (if Before p = None then Op p = AddConditionPatch
         else Before p \<noteq> Some c \<and> Op p = ChangeConditionPatch)) \<or>
    (\<exists>c. Before p = Some c \<and> Get b (ctype c) = Some c \<and> After p = None \<and>
        Get a (ctype c) = None \<and> Op p = RemoveConditionPatch)"
proof -
  have mem: "c \<in> set (conditions o') \<longleftrightarrow> Get o' (ctype c) = Some c" if "types_distinct o'" for c o'
    using that by (simp add: Get_find find_type_iff types_distinct_def)
  show ?thesis
    unfolding NewPatch_def set_append set_concat set_map Un_iff
    by (cases p) (auto simp: mem [OF assms(1)] mem [OF assms(2)] split: option.splits if_splits)
qed

lemma opType_cases:
  assumes "types_distinct a" "types_distinct b" "p \<in> set (NewPatch b a)"
  shows "Before p = Get b (opType p) \<and> After p = Get a (opType p) \<and> Get b (opType p) \<noteq> Get a (opType p) \<and>
    Op p = (if Get b (opType p) = None then AddConditionPatch
            else if Get a (opType p) = None then RemoveConditionPatch else ChangeConditionPatch)"
  using assms(3) unfolding NewPatch_in [OF assms(1,2)] opType_def by (auto split: if_splits)

lemma opType_image:
  assumes "types_distinct a" "types_distinct b"
  shows "opType ` set (NewPatch b a) = {t. Get b t \<noteq> Get a t}"
proof (intro equalityI subsetI)
  fix t assume "t \<in> opType ` set (NewPatch b a)"
  then show "t \<in> {t. Get b t \<noteq> Get a t}" using opType_cases [OF assms] by auto
next
  fix t assume t: "t \<in> {t. Get b t \<noteq> Get a t}"
  show "t \<in> opType ` set (NewPatch b a)"
  proof (cases "Get a t")
    case None
    with t obtain c where c: "Get b t = Some c" "ctype c = t" by (auto dest: Get_type)
    let ?p = "\<lparr>Before = Some c, After = None, Op = RemoveConditionPatch\<rparr>"
    have "?p \<in> set (NewPatch b a)" using c None by (simp add: NewPatch_in [OF assms])
    then show ?thesis using c by (intro image_eqI [of _ _ ?p]) (simp_all add: opType_def)
  next
    case (Some c)
    then have c: "ctype c = t" by (rule Get_type)
    let ?p = "\<lparr>Before = Get b t, After = Some c,
      Op = (if Get b t = None then AddConditionPatch else ChangeConditionPatch)\<rparr>"
    have "?p \<in> set (NewPatch b a)" using c Some t by (auto simp: NewPatch_in [OF assms])
    then show ?thesis using c by (intro image_eqI [of _ _ ?p]) (simp_all add: opType_def)
  qed
qed

lemma NewPatch_changed:
  assumes "types_distinct a" "types_distinct b" "Get b t \<noteq> Get a t"
  obtains p where "p \<in> set (NewPatch b a)" "opType p = t"
proof -
  have "t \<in> opType ` set (NewPatch b a)" unfolding opType_image [OF assms(1,2)] using assms(3) by simp
  then show ?thesis using that by blast
qed

lemma distinct_concat_single:
  assumes "distinct (map f xs)" "\<And>x. x \<in> set xs \<Longrightarrow> length (h x) \<le> 1"
    and "\<And>x p. x \<in> set xs \<Longrightarrow> p \<in> set (h x) \<Longrightarrow> k p = f x"
  shows "distinct (map k (concat (map h xs)))"
  using assms
proof (induction xs)
  case (Cons x xs)
  have "distinct (map k (h x))"
    using Cons.prems(2) [of x] by (cases "h x") (auto simp: le_Suc_eq)
  moreover have "k ` set (h x) \<inter> k ` set (concat (map h xs)) = {}"
    using Cons.prems(1,3) by fastforce
  moreover have "distinct (map k (concat (map h xs)))" using Cons by simp
  ultimately show ?case by auto
qed simp

lemma NewPatch_distinct:
  assumes "types_distinct a" "types_distinct b"
  shows "distinct (map opType (NewPatch b a))"
proof -
  let ?f = "\<lambda>target. case Get b (ctype target) of
      None \<Rightarrow> [\<lparr>Before = None, After = Some target, Op = AddConditionPatch\<rparr>]
    | Some current \<Rightarrow> if target \<noteq> current
        then [\<lparr>Before = Some current, After = Some target, Op = ChangeConditionPatch\<rparr>] else []"
  let ?g = "\<lambda>base. case Get a (ctype base) of
      None \<Rightarrow> [\<lparr>Before = Some base, After = None, Op = RemoveConditionPatch\<rparr>] | Some _ \<Rightarrow> []"
  have f: "p \<in> set (?f c) \<Longrightarrow> opType p = ctype c" "length (?f c) \<le> 1" for c p
    by (auto simp: opType_def split: option.splits if_splits)
  have g: "p \<in> set (?g c) \<Longrightarrow> opType p = ctype c \<and> Get a (ctype c) = None" "length (?g c) \<le> 1" for c p
    by (auto simp: opType_def split: option.splits)
  define A where "A = concat (map ?f (conditions a))"
  define B where "B = concat (map ?g (conditions b))"
  have AB: "NewPatch b a = A @ B" by (simp add: NewPatch_def A_def B_def)
  have 1: "distinct (map opType A)" unfolding A_def
    by (rule distinct_concat_single [where f = ctype]) (use assms f in \<open>auto simp: types_distinct_def\<close>)
  have 2: "distinct (map opType B)" unfolding B_def
    by (rule distinct_concat_single [where f = ctype]) (use assms g in \<open>auto simp: types_distinct_def\<close>)
  have in_concat: "p \<in> set (concat (map h xs)) \<Longrightarrow> \<exists>c \<in> set xs. p \<in> set (h c)"
    for p and h :: "Condition \<Rightarrow> PatchOperation list" and xs
    by auto
  have "opType p \<in> ctype ` set (conditions a)" if "p \<in> set A" for p
    using in_concat [OF that [unfolded A_def]] f(1) by blast
  moreover have "opType p \<notin> ctype ` set (conditions a)" if p: "p \<in> set B" for p
  proof -
    obtain c where "p \<in> set (?g c)" using in_concat [OF p [unfolded B_def]] by blast
    from g(1) [OF this] show ?thesis by (simp add: Get_find find_type_None)
  qed
  ultimately have "opType p \<noteq> opType q" if "p \<in> set A" "q \<in> set B" for p q
    using that by metis
  then have "opType ` set A \<inter> opType ` set B = {}" by (simp add: disjoint_iff image_iff) metis
  with 1 2 show ?thesis unfolding AB map_append distinct_append by simp
qed

section \<open>Properties\<close>

definition threeWayConflict :: "Condition option \<Rightarrow> Condition option \<Rightarrow> Condition option \<Rightarrow> bool" where
  "threeWayConflict before after latest =
     (case (before, after, latest) of
        (None, Some c, Some d) \<Rightarrow> \<not> hasSameState d c
      | (Some b, Some c, None) \<Rightarrow> True
      | (Some b, Some c, Some d) \<Rightarrow> d \<noteq> b \<and> \<not> hasSameState d c
      | (Some b, None, Some d) \<Rightarrow> \<not> hasSameState d b
      | _ \<Rightarrow> False)"

definition sameState :: "Condition option \<Rightarrow> Condition option \<Rightarrow> bool" where
  "sameState x y = rel_option hasSameState x y"

definition shortMessages :: "Obj \<Rightarrow> bool" where
  "shortMessages o' \<longleftrightarrow> (\<forall>c \<in> set (conditions o'). length (message c) \<le> maxMessageLength)"

abbreviation applyOpts :: "ApplyOption list \<Rightarrow> applyOptions" where
  "applyOpts options \<equiv> fold (\<lambda>f c. f c) options \<lparr>ownedConditions = [], forceOverwrite = False\<rparr>"

text \<open>No changed type is in conflict, unless it is owned or overwriting is forced.\<close>

definition mergeSafe :: "ApplyOption list \<Rightarrow> Obj \<Rightarrow> Obj \<Rightarrow> Obj \<Rightarrow> bool" where
  "mergeSafe options b a latest \<longleftrightarrow>
     (\<forall>t. Get b t \<noteq> Get a t \<longrightarrow> forceOverwrite (applyOpts options) \<or>
       isOwnedCondition (applyOpts options) t \<or> \<not> threeWayConflict (Get b t) (Get a t) (Get latest t))"

lemma conflicts_three_way:
  assumes "types_distinct a" "types_distinct b" "p \<in> set (NewPatch b a)"
  shows "conflicts l p \<longleftrightarrow> threeWayConflict (Get b (opType p)) (Get a (opType p)) l"
  using opType_cases [OF assms]
  by (cases "Get b (opType p)"; cases "Get a (opType p)"; cases l)
    (auto simp: conflicts_def threeWayConflict_def)

lemma achieved_same:
  assumes "types_distinct a" "types_distinct b" "p \<in> set (NewPatch b a)" "achieved p x"
  shows "sameState x (Get a (opType p))"
  using opType_cases [OF assms(1-3)] assms(4)
  by (cases "Get b (opType p)"; cases "Get a (opType p)"; cases x)
    (auto simp: achieved_def sameState_def)

lemma NewPatch_wellFormed:
  assumes "types_distinct a" "types_distinct b" "shortMessages a" "p \<in> set (NewPatch b a)"
  shows "wellFormed p"
proof -
  have "c \<in> set (conditions a)" if "Get a t = Some c" for t c
    using that find_type_Some by (simp add: Get_find)
  then show ?thesis
    using assms(3) opType_cases [OF assms(1,2,4)]
    by (cases "Get b (opType p)"; cases "Get a (opType p)") (auto simp: wellFormed_def shortMessages_def)
qed

lemma Apply_all: "Apply now p l options = applyAll now (applyOpts options) p l"
  by (simp add: Apply_def)

lemma Apply_merge_ok:
  assumes "types_distinct b" "types_distinct a" "types_distinct latest" "shortMessages a"
    and "\<And>t. Get b t \<noteq> Get a t \<Longrightarrow> forceOverwrite (applyOpts options) \<or>
      isOwnedCondition (applyOpts options) t \<or> \<not> threeWayConflict (Get b t) (Get a t) (Get latest t)"
  shows "\<exists>l. Apply now (NewPatch b a) latest options = Some (None, l) \<and> types_distinct l \<and>
    (\<forall>t. if Get b t = Get a t then Get l t = Get latest t else sameState (Get l t) (Get a t))"
proof -
  have "overrides (applyOpts options) p \<or> \<not> conflicts (Get latest (opType p)) p"
    if "p \<in> set (NewPatch b a)" for p
    using assms(5) [of "opType p"] opType_cases [OF assms(2,1) that] conflicts_three_way [OF assms(2,1) that]
    by (auto simp: overrides_def)
  then obtain l where l: "applyAll now (applyOpts options) (NewPatch b a) latest = Some (None, l)"
    "types_distinct l" "\<forall>p \<in> set (NewPatch b a). achieved p (Get l (opType p))"
    "\<forall>t. t \<notin> opType ` set (NewPatch b a) \<longrightarrow> Get l t = Get latest t"
    using applyAll_ok [OF _ NewPatch_distinct [OF assms(2,1)] assms(3), of "applyOpts options" now]
      NewPatch_wellFormed [OF assms(2,1,4)] by auto
  have "sameState (Get l t) (Get a t)" if "Get b t \<noteq> Get a t" for t
    using l(3) achieved_same [OF assms(2,1)] NewPatch_changed [OF assms(2,1) that] by metis
  then show ?thesis using l opType_image [OF assms(2,1)] by (auto simp: Apply_all)
qed

text \<open>
  C2. Three-way merge of conditions: applying the difference of \<open>before\<close> and \<open>after\<close> to any latest object
  either reports a conflict or succeeds; it succeeds if and only if every type that changed
  is owned or forced, or is not in conflict. On success each type that did not change keeps the
  latest object's condition, and each type that changed has the state of \<open>after\<close>.
\<close>

theorem Apply_three_way:
  assumes "types_distinct b" "types_distinct a" "types_distinct latest" "shortMessages a"
  shows "\<exists>e l. Apply now (NewPatch b a) latest options = Some (e, l) \<and> 
    (e = None \<longleftrightarrow> mergeSafe options b a latest) \<and>
    (mergeSafe options b a latest \<longrightarrow> types_distinct l \<and>
      (\<forall>t. if Get b t = Get a t then Get l t = Get latest t else sameState (Get l t) (Get a t)))"
proof (cases "mergeSafe options b a latest")
  case True
  then show ?thesis using Apply_merge_ok [OF assms(1-4), of options now] by (auto simp: mergeSafe_def)
next
  case False
  then obtain t where t: "Get b t \<noteq> Get a t" "\<not> forceOverwrite (applyOpts options)"
    "\<not> isOwnedCondition (applyOpts options) t" "threeWayConflict (Get b t) (Get a t) (Get latest t)"
    by (auto simp: mergeSafe_def)
  obtain p where p: "p \<in> set (NewPatch b a)" "opType p = t"
    by (rule NewPatch_changed [OF assms(2,1) t(1)])
  have "\<exists>e l. applyAll now (applyOpts options) (NewPatch b a) latest = Some (Some e, l)"
    using NewPatch_wellFormed [OF assms(2,1,4)] t p conflicts_three_way [OF assms(2,1) p(1)]
    by (intro applyAll_conflict [OF _ NewPatch_distinct [OF assms(2,1)] assms(3) p(1)])
      (auto simp: overrides_def)
  with False show ?thesis by (auto simp: Apply_all)
qed

text \<open>
  C29. Round trip of difference and application: applied to the object it was computed from, a patch never
  conflicts, whatever the options, and yields every condition of \<open>after\<close> with its status, reason and
  message and no other; and the patch is empty exactly if no condition differs.
\<close>

theorem Apply_NewPatch_roundtrip:
  assumes "types_distinct b" "types_distinct a" "shortMessages a"
  shows "(\<exists>l. Apply now (NewPatch b a) b options = Some (None, l) \<and> types_distinct l \<and>
      (\<forall>t. sameState (Get l t) (Get a t))) \<and>
    (Patch_IsZero (NewPatch b a) \<longleftrightarrow> (\<forall>t. Get b t = Get a t))"
proof
  have "\<not> threeWayConflict (Get b t) (Get a t) (Get b t)" for t
    by (auto simp: threeWayConflict_def split: option.split)
  then obtain l where l: "Apply now (NewPatch b a) b options = Some (None, l)" "types_distinct l"
    "\<forall>t. if Get b t = Get a t then Get l t = Get b t else sameState (Get l t) (Get a t)"
    using Apply_merge_ok [OF assms(1,2,1,3), of options now] by blast
  have "sameState x x" for x by (cases x) (simp_all add: sameState_def)
  with l show "\<exists>l. Apply now (NewPatch b a) b options = Some (None, l) \<and> types_distinct l \<and>
      (\<forall>t. sameState (Get l t) (Get a t))" by metis
  show "Patch_IsZero (NewPatch b a) \<longleftrightarrow> (\<forall>t. Get b t = Get a t)"
    using opType_image [OF assms(2,1)] by (auto simp: Patch_IsZero_def)
qed

theorem Apply_NewPatch_roundtrip_witness:
  "\<exists>l. Apply 7 (NewPatch demo_object (demo_object\<lparr>conditions := []\<rparr>)) demo_object [] = Some (None, l) \<and>
     Get l ''Ready'' = None"
proof -
  have "types_distinct demo_object" "types_distinct (demo_object\<lparr>conditions := []\<rparr>)"
    "shortMessages (demo_object\<lparr>conditions := []\<rparr>)"
    by (simp_all add: types_distinct_def demo_object_def newCondition_def shortMessages_def)
  from Apply_NewPatch_roundtrip [OF this, of 7 "[]"]
  obtain l where "Apply 7 (NewPatch demo_object (demo_object\<lparr>conditions := []\<rparr>)) demo_object [] = Some (None, l)"
    "sameState (Get l ''Ready'') (Get (demo_object\<lparr>conditions := []\<rparr>) ''Ready'')" by blast
  then show ?thesis by (auto simp: Get_def sameState_def)
qed

theorem Apply_three_way_witness:
  "\<exists>e l. Apply 7 (NewPatch demo_object (demo_object\<lparr>conditions := []\<rparr>))
     (MarkFalse 6 demo_object ''Ready'' ''Other'' ''changed'') [] = Some (Some e, l)"
proof -
  let ?a = "demo_object\<lparr>conditions := []\<rparr>" and ?l = "MarkFalse 6 demo_object ''Ready'' ''Other'' ''changed''"
  have d: "types_distinct demo_object" "types_distinct ?a" "shortMessages ?a"
    by (simp_all add: types_distinct_def demo_object_def newCondition_def shortMessages_def)
  then have l: "types_distinct ?l" by simp
  have b: "Get demo_object ''Ready'' = Some (newCondition ''Ready'' ConditionTrue ''Ok'' ''done'')"
    by (simp add: Get_def demo_object_def newCondition_def)
  have g: "Get ?l ''Ready'' = Some (storedCondition 6 demo_object (FalseCondition ''Ready'' ''Other'' ''changed''))"
    using Get_Set [OF d(1)] by (simp add: MarkFalse_def)
  have "threeWayConflict (Get demo_object ''Ready'') (Get ?a ''Ready'') (Get ?l ''Ready'')"
    using storedCondition_state [of 6 demo_object "FalseCondition ''Ready'' ''Other'' ''changed''"]
    by (auto simp: threeWayConflict_def b g Get_def [of ?a] hasSameState_def prepareCondition_def
        FalseCondition_def newCondition_def)
  moreover have "Get demo_object ''Ready'' \<noteq> Get ?a ''Ready''" by (simp add: b Get_def [of ?a])
  ultimately show ?thesis
    using Apply_three_way [OF d(1,2) l d(3), of 7 "[]"] by (auto simp: isOwnedCondition_def mergeSafe_def)
qed

end
