(* ===== verification/Condition_Merge.thy ===== *)
theory Condition_Merge
  imports Condition_Laws
begin

text \<open>
  Merging conditions into one: \<open>runtime/conditions/merge.go\<close>,
  \<open>runtime/conditions/merge_strategies.go\<close> and the \<open>summary\<close>, \<open>mirror\<close> and \<open>aggregate\<close>
  functions of \<open>runtime/conditions/getter.go\<close> with their setters. A slice option that may be nil is an option
  of a list. The conditions passed to \<open>merge\<close> are never nil, so the nil check of
  \<open>getConditionGroups\<close> has no counterpart.
\<close>

section \<open>Options\<close>

record mergeOptions =
  conditionTypes :: "string list option"
  negativePolarityConditionTypes :: "string list"
  addSourceRef :: bool
  addSourceRefIfConditionTypes :: "string list option"
  addCounter :: bool
  addCounterOnlyIfConditionTypes :: "string list option"
  addStepCounter :: bool
  addStepCounterIfOnlyConditionTypes :: "string list option"
  stepCounter :: int
  withLatestGeneration :: bool

type_synonym MergeOption = "mergeOptions \<Rightarrow> mergeOptions"

definition zeroMergeOptions :: mergeOptions where
  "zeroMergeOptions = \<lparr>conditionTypes = None, negativePolarityConditionTypes = [],
     addSourceRef = False, addSourceRefIfConditionTypes = None, addCounter = False,
     addCounterOnlyIfConditionTypes = None, addStepCounter = False,
     addStepCounterIfOnlyConditionTypes = None, stepCounter = 0, withLatestGeneration = False\<rparr>"

text \<open>A call of a variadic option without arguments passes a nil slice.\<close>

definition variadic :: "string list \<Rightarrow> string list option" where
  "variadic ts = (if ts = [] then None else Some ts)"

definition WithConditions :: "string list \<Rightarrow> MergeOption" where
  "WithConditions ts c = c\<lparr>conditionTypes := variadic ts\<rparr>"

definition WithNegativePolarityConditions :: "string list \<Rightarrow> MergeOption" where
  "WithNegativePolarityConditions ts c = c\<lparr>negativePolarityConditionTypes := ts\<rparr>"

definition WithCounter :: MergeOption where
  "WithCounter c = c\<lparr>addCounter := True\<rparr>"

definition WithCounterIfOnly :: "string list \<Rightarrow> MergeOption" where
  "WithCounterIfOnly ts c = c\<lparr>addCounterOnlyIfConditionTypes := variadic ts\<rparr>"

definition WithStepCounter :: MergeOption where
  "WithStepCounter c = c\<lparr>addStepCounter := True\<rparr>"

definition WithStepCounterIf :: "bool \<Rightarrow> MergeOption" where
  "WithStepCounterIf v c = c\<lparr>addStepCounter := v\<rparr>"

definition WithStepCounterIfOnly :: "string list \<Rightarrow> MergeOption" where
  "WithStepCounterIfOnly ts c = c\<lparr>addStepCounterIfOnlyConditionTypes := variadic ts\<rparr>"

definition WithSourceRef :: MergeOption where
  "WithSourceRef c = c\<lparr>addSourceRef := True\<rparr>"

definition WithSourceRefIf :: "string list \<Rightarrow> MergeOption" where
  "WithSourceRefIf ts c = c\<lparr>addSourceRefIfConditionTypes := variadic ts\<rparr>"

definition WithLatestGeneration :: MergeOption where
  "WithLatestGeneration c = c\<lparr>withLatestGeneration := True\<rparr>"

section \<open>Groups\<close>

text \<open>Of the object a condition comes from, merging reads the kind and the name.\<close>

record localizedCondition =
  lcond :: Condition
  lkind :: string
  lname :: string

definition localize :: "Obj \<Rightarrow> Condition \<Rightarrow> localizedCondition" where
  "localize from c = \<lparr>lcond = c, lkind = okind from, lname = oname from\<rparr>"

record conditionGroup =
  gstatus :: ConditionStatus
  negativePolarity :: bool
  gconditions :: "localizedCondition list"
  ggeneration :: int

definition stringInSlice :: "string list \<Rightarrow> string \<Rightarrow> bool" where
  "stringInSlice ss v \<longleftrightarrow> list_ex (\<lambda>s. s = v) ss"

definition mergePriority :: "conditionGroup \<Rightarrow> nat" where
  "mergePriority g =
     (case gstatus g of
        ConditionTrue \<Rightarrow> if negativePolarity g then 0 else 2
      | ConditionFalse \<Rightarrow> if negativePolarity g then 3 else 1
      | ConditionUnknown \<Rightarrow> 4
      | OtherStatus _ \<Rightarrow> 99)"

definition groups_Less :: "conditionGroup \<Rightarrow> conditionGroup \<Rightarrow> bool" where
  "groups_Less g h \<longleftrightarrow> mergePriority g < mergePriority h"

definition TopGroup :: "conditionGroup list \<Rightarrow> conditionGroup option" where
  "TopGroup gs = (case gs of [] \<Rightarrow> None | g # _ \<Rightarrow> Some g)"

definition TruePositivePolarityGroup :: "conditionGroup list \<Rightarrow> conditionGroup option" where
  "TruePositivePolarityGroup gs =
     List.find (\<lambda>g. \<not> negativePolarity g \<and> gstatus g = ConditionTrue) gs"

definition latestGeneration :: "conditionGroup list \<Rightarrow> int" where
  "latestGeneration gs = fold (\<lambda>g m. if ggeneration g > m then ggeneration g else m) gs 0"

text \<open>The inner loop of \<open>getConditionGroups\<close>: join the first group that fits, or found a new one.\<close>

fun addToGroups ::
  "mergeOptions \<Rightarrow> localizedCondition \<Rightarrow> conditionGroup list \<Rightarrow> conditionGroup list" where
  "addToGroups opts c [] =
     [\<lparr>gstatus = status (lcond c),
       negativePolarity = stringInSlice (negativePolarityConditionTypes opts) (ctype (lcond c)),
       gconditions = [c], ggeneration = observedGeneration (lcond c)\<rparr>]"
| "addToGroups opts c (g # gs) =
     (if gstatus g = status (lcond c) \<and>
         negativePolarity g = stringInSlice (negativePolarityConditionTypes opts) (ctype (lcond c)) \<and>
         \<not> (withLatestGeneration opts \<and> ggeneration g \<noteq> observedGeneration (lcond c))
      then g\<lparr>gconditions := gconditions g @ [c]\<rparr> # gs
      else g # addToGroups opts c gs)"

definition topLess :: "localizedCondition \<Rightarrow> localizedCondition \<Rightarrow> bool" where
  "topLess a b =
     (if ctype (lcond a) \<noteq> ctype (lcond b) then lexicographicLess (lcond a) (lcond b)
      else lname a < lname b)"

definition getConditionGroups :: "localizedCondition list \<Rightarrow> mergeOptions \<Rightarrow> conditionGroup list" where
  "getConditionGroups cs opts =
     (let groups = fold (addToGroups opts) cs [];
          groups1 = (if withLatestGeneration opts
                     then filter (\<lambda>g. ggeneration g = latestGeneration groups) groups else groups)
      in case sort_Slice groups_Less groups1 of
           [] \<Rightarrow> []
         | g # gs \<Rightarrow> g\<lparr>gconditions := sort_Slice topLess (gconditions g)\<rparr> # gs)"

section \<open>Strategies\<close>

fun firstOfTypes :: "string list \<Rightarrow> localizedCondition list \<Rightarrow> localizedCondition option" where
  "firstOfTypes [] cs = None"
| "firstOfTypes (p # ps) cs =
     (case List.find (\<lambda>c. ctype (lcond c) = p) cs of Some c \<Rightarrow> Some c | None \<Rightarrow> firstOfTypes ps cs)"

definition getFirstCondition ::
  "conditionGroup list \<Rightarrow> string list option \<Rightarrow> localizedCondition option" where
  "getFirstCondition gs priority =
     (case TopGroup gs of
        None \<Rightarrow> None
      | Some g \<Rightarrow>
          (case gconditions g of
             [] \<Rightarrow> None
           | [c] \<Rightarrow> Some c
           | c # cs \<Rightarrow>
               (case firstOfTypes (case priority of None \<Rightarrow> [] | Some ps \<Rightarrow> ps) (gconditions g) of
                  Some d \<Rightarrow> Some d | None \<Rightarrow> Some c)))"

definition localizeReason :: "string \<Rightarrow> localizedCondition \<Rightarrow> string" where
  "localizeReason r from =
     (if Contains r ''@'' then r else r @ '' @ '' @ lkind from @ ''/'' @ lname from)"

definition getFirstReason :: "conditionGroup list \<Rightarrow> string list option \<Rightarrow> bool \<Rightarrow> string" where
  "getFirstReason gs order sourceRef =
     (case getFirstCondition gs order of
        Some c \<Rightarrow> if sourceRef then localizeReason (reason (lcond c)) c else reason (lcond c)
      | None \<Rightarrow> [])"

definition getReason :: "conditionGroup list \<Rightarrow> mergeOptions \<Rightarrow> string" where
  "getReason gs opts = getFirstReason gs (conditionTypes opts) (addSourceRef opts)"

text \<open>Groups are never empty, so taking the first condition of the top group does not panic.\<close>

definition getCounterMessage :: "conditionGroup list \<Rightarrow> int \<Rightarrow> string" where
  "getCounterMessage gs to =
     (case TopGroup gs of
        None \<Rightarrow> itoa 0 @ '' of '' @ itoa to
      | Some g \<Rightarrow> itoa (int (length (gconditions g))) @ '' of '' @ itoa to @ '' '' @
          ctype (lcond (hd (gconditions g))))"

definition getStepCounterMessage :: "conditionGroup list \<Rightarrow> int \<Rightarrow> string" where
  "getStepCounterMessage gs to =
     (let ct = (case TruePositivePolarityGroup gs of None \<Rightarrow> 0 | Some g \<Rightarrow> length (gconditions g))
      in itoa (int ct) @ '' of '' @ itoa to @ '' completed'')"

definition getFirstMessage :: "conditionGroup list \<Rightarrow> string list option \<Rightarrow> string" where
  "getFirstMessage gs order =
     (case getFirstCondition gs order of Some c \<Rightarrow> message (lcond c) | None \<Rightarrow> [])"

definition getMessage :: "conditionGroup list \<Rightarrow> mergeOptions \<Rightarrow> string" where
  "getMessage gs opts =
     (if addStepCounter opts then getStepCounterMessage gs (stepCounter opts)
      else if addCounter opts then getCounterMessage gs (stepCounter opts)
      else getFirstMessage gs (conditionTypes opts))"

section \<open>Merge, summary, mirror, aggregate\<close>

definition merge :: "localizedCondition list \<Rightarrow> string \<Rightarrow> mergeOptions \<Rightarrow> Condition option" where
  "merge cs target opts =
     (let g = getConditionGroups cs opts in
      case TopGroup g of
        None \<Rightarrow> None
      | Some topGroup \<Rightarrow>
          let r = getReason g opts;
              m = getMessage g opts;
              neg = stringInSlice (negativePolarityConditionTypes opts) target
          in case gstatus topGroup of
               ConditionTrue \<Rightarrow>
                 if negativePolarity topGroup \<noteq> neg then Some (FalseCondition target r m)
                 else Some (TrueCondition target r m)
             | ConditionFalse \<Rightarrow>
                 if negativePolarity topGroup \<noteq> neg then Some (TrueCondition target r m)
                 else Some (FalseCondition target r m)
             | _ \<Rightarrow> Some (UnknownCondition target r m))"

definition inScope :: "string list option \<Rightarrow> Condition \<Rightarrow> bool" where
  "inScope ts c = (case ts of None \<Rightarrow> True | Some ts \<Rightarrow> list_ex (\<lambda>t. ctype c = t) ts)"

definition summary :: "Obj \<Rightarrow> string \<Rightarrow> MergeOption list \<Rightarrow> Condition option" where
  "summary from t options =
     (let o1 = fold (\<lambda>f m. f m) options zeroMergeOptions;
          cs = filter (\<lambda>c. ctype c \<noteq> t \<and> inScope (conditionTypes o1) c) (conditions from);
          o2 = (case addStepCounterIfOnlyConditionTypes o1 of
                  None \<Rightarrow> o1
                | Some ts \<Rightarrow>
                    if list_all (inScope (Some ts)) cs then o1 else o1\<lparr>addStepCounter := False\<rparr>);
          o3 = (if addStepCounter o2 then
                  o2\<lparr>stepCounter :=
                    (case addStepCounterIfOnlyConditionTypes o2 of
                       Some ts \<Rightarrow> int (length ts)
                     | None \<Rightarrow> (case conditionTypes o2 of Some ts \<Rightarrow> int (length ts) | None \<Rightarrow> int (length cs)))\<rparr>
                else o2)
      in merge (map (localize from) cs) t o3)"

record mirrorOptions =
  fallbackTo :: "bool option"
  fallbackReason :: string
  fallbackMessage :: string

type_synonym MirrorOption = "mirrorOptions \<Rightarrow> mirrorOptions"

definition WithFallbackValue :: "bool \<Rightarrow> string \<Rightarrow> string \<Rightarrow> MirrorOption" where
  "WithFallbackValue v r m c =
     c\<lparr>fallbackTo := Some v, fallbackReason := r, fallbackMessage := m\<rparr>"

definition mirror :: "Obj \<Rightarrow> string \<Rightarrow> MirrorOption list \<Rightarrow> Condition option" where
  "mirror from target options =
     (let o1 = fold (\<lambda>f m. f m) options \<lparr>fallbackTo = None, fallbackReason = [], fallbackMessage = []\<rparr>;
          c = (case Get from ReadyCondition of
                 Some c \<Rightarrow> Some c
               | None \<Rightarrow>
                   (case fallbackTo o1 of
                      None \<Rightarrow> None
                    | Some True \<Rightarrow> Some (TrueCondition target (fallbackReason o1) (fallbackMessage o1))
                    | Some False \<Rightarrow> Some (FalseCondition target (fallbackReason o1) (fallbackMessage o1))))
      in map_option (\<lambda>c. c\<lparr>ctype := target\<rparr>) c)"

definition aggregate :: "Obj list \<Rightarrow> string \<Rightarrow> MergeOption list \<Rightarrow> Condition option" where
  "aggregate from target options =
     (let o1 = fold (\<lambda>f m. f m) options (zeroMergeOptions\<lparr>stepCounter := int (length from)\<rparr>);
          cs = concat (map (\<lambda>o'. map (localize o')
                 (filter (inScope (conditionTypes o1)) (conditions o'))) from);
          o2 = (case addCounterOnlyIfConditionTypes o1 of
                  None \<Rightarrow> o1
                | Some ts \<Rightarrow>
                    if list_all (\<lambda>c. inScope (Some ts) (lcond c)) cs then o1 else o1\<lparr>addCounter := False\<rparr>);
          o3 = (case addSourceRefIfConditionTypes o2 of
                  None \<Rightarrow> o2
                | Some ts \<Rightarrow>
                    if list_ex (\<lambda>c. inScope (Some ts) (lcond c)) cs then o2\<lparr>addSourceRef := True\<rparr> else o2)
      in merge cs target o3)"

definition SetSummary :: "int \<Rightarrow> Obj \<Rightarrow> string \<Rightarrow> MergeOption list \<Rightarrow> Obj" where
  "SetSummary now to target options = Set now to (summary to target options)"

definition SetMirror :: "int \<Rightarrow> Obj \<Rightarrow> string \<Rightarrow> Obj \<Rightarrow> MirrorOption list \<Rightarrow> Obj" where
  "SetMirror now to target from options = Set now to (mirror from target options)"

definition SetAggregate :: "int \<Rightarrow> Obj \<Rightarrow> string \<Rightarrow> Obj list \<Rightarrow> MergeOption list \<Rightarrow> Obj" where
  "SetAggregate now to target from options = Set now to (aggregate from target options)"

end
