(* ===== verification/Merge_Properties.thy ===== *)
theory Merge_Properties
  imports Condition_Merge
begin

text \<open>
  What merging guarantees: the status of the merged condition is the documented priority over the
  conditions in scope, reason and message come from a condition of that priority, and for one object
  the summary does not depend on the order of its conditions. The comparison used across several objects, on
  the other hand, is not an order.
\<close>

section \<open>Grouping\<close>

definition condKey :: "mergeOptions \<Rightarrow> localizedCondition \<Rightarrow> ConditionStatus \<times> bool \<times> int" where
  "condKey opts c = (status (lcond c),
     stringInSlice (negativePolarityConditionTypes opts) (ctype (lcond c)),
     if withLatestGeneration opts then observedGeneration (lcond c) else 0)"

definition groupKey :: "mergeOptions \<Rightarrow> conditionGroup \<Rightarrow> ConditionStatus \<times> bool \<times> int" where
  "groupKey opts g = (gstatus g, negativePolarity g, if withLatestGeneration opts then ggeneration g else 0)"

definition grouped :: "mergeOptions \<Rightarrow> localizedCondition list \<Rightarrow> conditionGroup list \<Rightarrow> bool" where
  "grouped opts cs gs \<longleftrightarrow>
     distinct (map (groupKey opts) gs) \<and>
     (\<forall>g \<in> set gs. gconditions g = filter (\<lambda>c. condKey opts c = groupKey opts g) cs \<and> gconditions g \<noteq> []) \<and>
     condKey opts ` set cs = groupKey opts ` set gs"

lemma addToGroups_key:
  "addToGroups opts c (g # gs) =
     (if groupKey opts g = condKey opts c then g\<lparr>gconditions := gconditions g @ [c]\<rparr> # gs
      else g # addToGroups opts c gs)"
  by (auto simp: groupKey_def condKey_def)

lemma groupKey_update [simp]: "groupKey opts (g\<lparr>gconditions := xs\<rparr>) = groupKey opts g"
  by (simp add: groupKey_def)

lemma addToGroups_found:
  assumes "distinct (map (groupKey opts) gs)" "condKey opts c \<in> groupKey opts ` set gs"
  shows "addToGroups opts c gs =
    map (\<lambda>g. if groupKey opts g = condKey opts c then g\<lparr>gconditions := gconditions g @ [c]\<rparr> else g) gs"
  using assms
proof (induction gs)
  case (Cons g gs)
  show ?case
  proof (cases "groupKey opts g = condKey opts c")
    case True
    with Cons.prems(1) have "\<forall>h \<in> set gs. groupKey opts h \<noteq> condKey opts c" by (auto simp: image_iff)
    then have "map (\<lambda>g. if groupKey opts g = condKey opts c then g\<lparr>gconditions := gconditions g @ [c]\<rparr> else g) gs = gs"
      by (intro map_idI) auto
    with True show ?thesis by (simp only: addToGroups_key) simp
  next
    case False
    with Cons show ?thesis by (simp only: addToGroups_key) auto
  qed
qed simp

lemma addToGroups_new:
  assumes "condKey opts c \<notin> groupKey opts ` set gs"
  obtains g where "addToGroups opts c gs = gs @ [g]" "groupKey opts g = condKey opts c" "gconditions g = [c]"
proof -
  let ?g = "\<lparr>gstatus = status (lcond c),
    negativePolarity = stringInSlice (negativePolarityConditionTypes opts) (ctype (lcond c)),
    gconditions = [c], ggeneration = observedGeneration (lcond c)\<rparr>"
  have "addToGroups opts c gs = gs @ [?g]"
    using assms
  proof (induction gs)
    case (Cons g gs)
    then show ?case by (simp only: addToGroups_key) auto
  qed simp
  then show ?thesis by (rule that) (simp_all add: groupKey_def condKey_def)
qed

lemma grouped_add:
  assumes "grouped opts cs gs"
  shows "grouped opts (cs @ [c]) (addToGroups opts c gs)"
proof (cases "condKey opts c \<in> groupKey opts ` set gs")
  case True
  note D = assms [unfolded grouped_def]
  let ?f = "\<lambda>g. if groupKey opts g = condKey opts c then g\<lparr>gconditions := gconditions g @ [c]\<rparr> else g"
  have keys: "map (groupKey opts) (map ?f gs) = map (groupKey opts) gs" by simp
  have "condKey opts ` set (cs @ [c]) = groupKey opts ` set (map ?f gs)"
    using D True keys by (metis (no_types, lifting) image_insert insert_absorb list.set_map list.simps(15)
      rotate1.simps(2) set_rotate1)
  moreover have "\<forall>g \<in> set (map ?f gs).
      gconditions g = filter (\<lambda>d. condKey opts d = groupKey opts g) (cs @ [c]) \<and> gconditions g \<noteq> []"
  proof
    fix g
    assume "g \<in> set (map ?f gs)"
    then obtain h where h: "h \<in> set gs" "g = ?f h" by auto
    with D have "gconditions h = filter (\<lambda>d. condKey opts d = groupKey opts h) cs" "gconditions h \<noteq> []"
      by blast+
    with h(2) show "gconditions g = filter (\<lambda>d. condKey opts d = groupKey opts g) (cs @ [c]) \<and> gconditions g \<noteq> []"
      by (cases "groupKey opts h = condKey opts c") auto
  qed
  moreover have "distinct (map (groupKey opts) (map ?f gs))" unfolding keys using D by blast
  ultimately show ?thesis
    unfolding addToGroups_found [OF conjunct1 [OF D] True] grouped_def by blast
next
  case False
  note D = assms [unfolded grouped_def]
  from False obtain g where g: "addToGroups opts c gs = gs @ [g]" "groupKey opts g = condKey opts c"
    "gconditions g = [c]" by (rule addToGroups_new)
  have none: "filter (\<lambda>d. condKey opts d = condKey opts c) cs = []"
    using D False by (simp add: filter_empty_conv) (metis image_eqI)
  have neq: "groupKey opts h \<noteq> condKey opts c" if "h \<in> set gs" for h
    using False that by (metis image_eqI)
  have "gconditions h = filter (\<lambda>d. condKey opts d = groupKey opts h) (cs @ [c]) \<and> gconditions h \<noteq> []"
    if "h \<in> set (gs @ [g])" for h
  proof (cases "h \<in> set gs")
    case True
    with D have "gconditions h = filter (\<lambda>d. condKey opts d = groupKey opts h) cs" "gconditions h \<noteq> []"
      by blast+
    with neq [OF True] show ?thesis by auto
  next
    case False
    with that have "h = g" by simp
    with g none show ?thesis by simp
  qed
  moreover have "distinct (map (groupKey opts) (gs @ [g]))" using D False g(2) by auto
  moreover have "condKey opts ` set (cs @ [c]) = groupKey opts ` set (gs @ [g])" using D g(2) by simp
  ultimately show ?thesis unfolding g(1) grouped_def by blast
qed

lemma grouped_fold: "grouped opts pre gs \<Longrightarrow> grouped opts (pre @ cs) (fold (addToGroups opts) cs gs)"
proof (induction cs arbitrary: pre gs)
  case (Cons c cs)
  then show ?case using grouped_add [of opts pre gs c] Cons.IH [of "pre @ [c]"] by simp
qed simp

lemma grouped_all: "grouped opts cs (fold (addToGroups opts) cs [])"
proof -
  have "grouped opts [] []" by (simp add: grouped_def)
  from grouped_fold [OF this, of cs] show ?thesis by simp
qed

section \<open>The conditions that count\<close>

text \<open>With \<open>withLatestGeneration\<close> only the conditions of the latest generation are in scope.\<close>

definition latestOf :: "localizedCondition list \<Rightarrow> int" where
  "latestOf cs = Max (insert 0 (observedGeneration ` lcond ` set cs))"

definition scopeOf :: "mergeOptions \<Rightarrow> localizedCondition list \<Rightarrow> localizedCondition list" where
  "scopeOf opts cs =
     (if withLatestGeneration opts then filter (\<lambda>c. observedGeneration (lcond c) = latestOf cs) cs else cs)"

definition polarity :: "mergeOptions \<Rightarrow> localizedCondition \<Rightarrow> ConditionStatus \<times> bool" where
  "polarity opts c = (status (lcond c),
     stringInSlice (negativePolarityConditionTypes opts) (ctype (lcond c)))"

abbreviation gpolarity :: "conditionGroup \<Rightarrow> ConditionStatus \<times> bool" where
  "gpolarity g \<equiv> (gstatus g, negativePolarity g)"

definition rank :: "ConditionStatus \<times> bool \<Rightarrow> nat" where
  "rank p = (case p of
      (ConditionTrue, True) \<Rightarrow> 0 | (ConditionFalse, False) \<Rightarrow> 1
    | (ConditionTrue, False) \<Rightarrow> 2 | (ConditionFalse, True) \<Rightarrow> 3
    | (ConditionUnknown, _) \<Rightarrow> 4 | (OtherStatus _, _) \<Rightarrow> 99)"

lemma mergePriority_rank: "mergePriority g = rank (gpolarity g)"
  by (simp add: mergePriority_def rank_def split: ConditionStatus.split bool.split)

lemma fold_max:
  "fold (\<lambda>x m. if f x > m then f x else m) xs a = Max (insert a (f ` set xs))"
  for f :: "'a \<Rightarrow> int"
proof (induction xs arbitrary: a)
  case (Cons x xs)
  have "Max (insert (if f x > a then f x else a) (f ` set xs)) = Max (insert a (insert (f x) (f ` set xs)))"
    by (cases "f ` set xs = {}") (auto simp: max_def)
  with Cons show ?case by simp
qed simp

definition selected :: "mergeOptions \<Rightarrow> localizedCondition list \<Rightarrow> conditionGroup list" where
  "selected opts cs =
     (let groups = fold (addToGroups opts) cs [] in
      if withLatestGeneration opts
      then filter (\<lambda>g. ggeneration g = latestGeneration groups) groups else groups)"

lemma latest_groups:
  assumes "withLatestGeneration opts" "grouped opts cs gs"
  shows "latestGeneration gs = latestOf cs"
proof -
  have "(\<lambda>k. snd (snd k)) ` condKey opts ` set cs = (\<lambda>k. snd (snd k)) ` groupKey opts ` set gs"
    using assms(2) by (simp add: grouped_def)
  then have "observedGeneration ` lcond ` set cs = ggeneration ` set gs"
    using assms(1) by (simp add: image_image condKey_def groupKey_def)
  then show ?thesis by (simp add: latestGeneration_def fold_max latestOf_def)
qed

lemma image_key: "(\<lambda>x. p (k x)) ` {x \<in> S. P (k x)} = p ` {y \<in> k ` S. P y}"
  by blast

lemma selected_groups:
  shows "g \<in> set (selected opts cs) \<Longrightarrow>
      gconditions g = filter (\<lambda>c. polarity opts c = gpolarity g) (scopeOf opts cs) \<and> gconditions g \<noteq> []"
    and "polarity opts ` set (scopeOf opts cs) = gpolarity ` set (selected opts cs)"
    and "distinct (map gpolarity (selected opts cs))"
proof -
  let ?gs = "fold (addToGroups opts) cs []"
  note G = grouped_all [of opts cs]
  note D = G [unfolded grouped_def]
  have sel: "selected opts cs =
    (if withLatestGeneration opts then filter (\<lambda>g. ggeneration g = latestOf cs) ?gs else ?gs)"
    using latest_groups [OF _ G] by (simp add: selected_def)
  let ?n = "if withLatestGeneration opts then latestOf cs else 0"
  have key: "g \<in> set ?gs \<Longrightarrow> g \<in> set (selected opts cs) \<longleftrightarrow> snd (snd (groupKey opts g)) = ?n" for g
    by (simp add: sel groupKey_def)
  have ckey: "c \<in> set cs \<Longrightarrow> c \<in> set (scopeOf opts cs) \<longleftrightarrow> snd (snd (condKey opts c)) = ?n" for c
    by (simp add: scopeOf_def condKey_def)
  have scope: "scopeOf opts cs = filter (\<lambda>c. snd (snd (condKey opts c)) = ?n) cs"
    by (simp add: scopeOf_def condKey_def)
  have gk: "groupKey opts g = (fst (gpolarity g), snd (gpolarity g), snd (snd (groupKey opts g)))" for g
    by (simp add: groupKey_def)
  have ck: "condKey opts c = (fst (polarity opts c), snd (polarity opts c), snd (snd (condKey opts c)))" for c
    by (simp add: condKey_def polarity_def)
  show "gconditions g = filter (\<lambda>c. polarity opts c = gpolarity g) (scopeOf opts cs) \<and> gconditions g \<noteq> []"
    if "g \<in> set (selected opts cs)"
  proof -
    have g: "g \<in> set ?gs" using that by (auto simp: sel split: if_splits)
    then have "gconditions g = filter (\<lambda>c. condKey opts c = groupKey opts g) cs" "gconditions g \<noteq> []"
      using D by blast+
    moreover have "condKey opts c = groupKey opts g \<longleftrightarrow>
        polarity opts c = gpolarity g \<and> snd (snd (condKey opts c)) = ?n" for c
      using key [OF g] that gk [of g] ck [of c] by (metis fst_conv prod.collapse snd_conv)
    ultimately show ?thesis by (simp add: scope conj_commute)
  qed
  let ?p = "\<lambda>k. (fst k, fst (snd k))"
  have "polarity opts = (\<lambda>c. ?p (condKey opts c))" by (simp add: fun_eq_iff condKey_def polarity_def)
  then have "polarity opts ` set (scopeOf opts cs) = ?p ` {k \<in> condKey opts ` set cs. snd (snd k) = ?n}"
    unfolding scope set_filter
    by (simp only: image_key [of ?p "condKey opts" "set cs" "\<lambda>k. snd (snd k) = ?n"])
  also have "\<dots> = ?p ` {k \<in> groupKey opts ` set ?gs. snd (snd k) = ?n}" using D by simp
  also have "\<dots> = (\<lambda>g. ?p (groupKey opts g)) ` {g \<in> set ?gs. snd (snd (groupKey opts g)) = ?n}"
    by (simp only: image_key [of ?p "groupKey opts" "set ?gs" "\<lambda>k. snd (snd k) = ?n"])
  also have "(\<lambda>g. ?p (groupKey opts g)) = gpolarity" by (simp add: fun_eq_iff groupKey_def)
  also have "{g \<in> set ?gs. snd (snd (groupKey opts g)) = ?n} = set (selected opts cs)"
    by (auto simp: sel groupKey_def)
  finally show "polarity opts ` set (scopeOf opts cs) = gpolarity ` set (selected opts cs)" .
  have d: "distinct (map (groupKey opts) (selected opts cs))"
    using D by (simp add: sel distinct_map_filter)
  have "inj_on gpolarity (set (selected opts cs))"
  proof (rule inj_onI)
    fix g h
    assume gh: "g \<in> set (selected opts cs)" "h \<in> set (selected opts cs)" "gpolarity g = gpolarity h"
    then have "g \<in> set ?gs" "h \<in> set ?gs" by (auto simp: sel split: if_splits)
    with gh have "groupKey opts g = groupKey opts h" using key gk by (metis (no_types))
    with d gh(1,2) show "g = h" by (auto simp: distinct_map dest: inj_onD)
  qed
  with d show "distinct (map gpolarity (selected opts cs))" by (simp add: distinct_map)
qed

section \<open>The top group\<close>

interpretation priority: less_order groups_Less
  unfolding groups_Less_def by (rule less_order_key)

lemma getConditionGroups_selected:
  "getConditionGroups cs opts =
     (case sort_Slice groups_Less (selected opts cs) of
        [] \<Rightarrow> []
      | g # gs \<Rightarrow> g\<lparr>gconditions := sort_Slice topLess (gconditions g)\<rparr> # gs)"
  by (simp add: getConditionGroups_def selected_def Let_def)

lemma top_None: "TopGroup (getConditionGroups cs opts) = None \<longleftrightarrow> scopeOf opts cs = []"
proof -
  have "selected opts cs = [] \<longleftrightarrow> scopeOf opts cs = []"
    using selected_groups(2) [of opts cs] by (metis image_is_empty set_empty)
  moreover have "sort_Slice groups_Less gs = [] \<longleftrightarrow> gs = []" for gs
    by (metis length_0_conv length_sort_Slice)
  moreover have "TopGroup (getConditionGroups cs opts) = None \<longleftrightarrow>
      sort_Slice groups_Less (selected opts cs) = []"
    by (simp add: getConditionGroups_selected TopGroup_def split: list.split)
  ultimately show ?thesis by blast
qed

lemma top_Some:
  assumes "TopGroup (getConditionGroups cs opts) = Some g"
  shows "gconditions g = sort_Slice topLess (filter (\<lambda>c. polarity opts c = gpolarity g) (scopeOf opts cs))"
    and "gpolarity g \<in> polarity opts ` set (scopeOf opts cs)"
    and "c \<in> set (scopeOf opts cs) \<Longrightarrow> rank (gpolarity g) \<le> rank (polarity opts c)"
proof -
  obtain h hs where h: "sort_Slice groups_Less (selected opts cs) = h # hs"
    "g = h\<lparr>gconditions := sort_Slice topLess (gconditions h)\<rparr>"
    using assms by (auto simp: getConditionGroups_selected TopGroup_def split: list.splits)
  have set_h: "set (h # hs) = set (selected opts cs)" using h(1) by (metis set_sort_Slice)
  then have hs: "h \<in> set (selected opts cs)" by auto
  have pol: "gpolarity g = gpolarity h" by (simp add: h(2))
  show "gconditions g = sort_Slice topLess (filter (\<lambda>c. polarity opts c = gpolarity g) (scopeOf opts cs))"
    using selected_groups(1) [OF hs] by (simp add: h(2))
  show "gpolarity g \<in> polarity opts ` set (scopeOf opts cs)"
    unfolding selected_groups(2) pol using hs by blast
  assume "c \<in> set (scopeOf opts cs)"
  then have "polarity opts c \<in> gpolarity ` set (h # hs)"
    unfolding set_h selected_groups(2) [symmetric] by (rule imageI)
  then obtain k where k: "k \<in> set (h # hs)" "polarity opts c = gpolarity k" by blast
  have "\<not> groups_Less k h"
    using priority.sorted_sort_Slice [of "selected opts cs"] k(1) unfolding h(1)
    by (rule priority.hd_minimal)
  then show "rank (gpolarity g) \<le> rank (polarity opts c)"
    unfolding pol k(2) by (simp add: groups_Less_def mergePriority_rank)
qed

text \<open>The documented status of the merged condition, as a function of what is in scope.\<close>

definition mergedStatus :: "bool \<Rightarrow> (ConditionStatus \<times> bool) list \<Rightarrow> ConditionStatus option" where
  "mergedStatus targetNegative ps =
     (if ps = [] then None
      else if (ConditionTrue, True) \<in> set ps \<or> (ConditionFalse, False) \<in> set ps
        then Some (if targetNegative then ConditionTrue else ConditionFalse)
      else if (ConditionTrue, False) \<in> set ps \<or> (ConditionFalse, True) \<in> set ps
        then Some (if targetNegative then ConditionFalse else ConditionTrue)
      else Some ConditionUnknown)"

lemma mergedStatus_top:
  assumes "p \<in> set ps" "\<And>q. q \<in> set ps \<Longrightarrow> rank p \<le> rank q"
  shows "mergedStatus n ps =
    (case fst p of
       ConditionTrue \<Rightarrow> Some (if snd p \<noteq> n then ConditionFalse else ConditionTrue)
     | ConditionFalse \<Rightarrow> Some (if snd p \<noteq> n then ConditionTrue else ConditionFalse)
     | _ \<Rightarrow> Some ConditionUnknown)"
proof -
  have ne: "ps \<noteq> []" using assms(1) by auto
  have lt: "rank q < rank p \<Longrightarrow> q \<notin> set ps" for q using assms(2) by (meson not_le)
  obtain s b where p: "p = (s, b)" by (cases p)
  have r: "rank (ConditionTrue, True) = 0" "rank (ConditionFalse, False) = 1"
    "rank (ConditionTrue, False) = 2" "rank (ConditionFalse, True) = 3"
    "rank (ConditionUnknown, b) = 4" "rank (OtherStatus x, b) = 99" for b x
    by (simp_all add: rank_def)
  show ?thesis
    using assms(1) ne lt [of "(ConditionTrue, True)"] lt [of "(ConditionFalse, False)"]
      lt [of "(ConditionTrue, False)"] lt [of "(ConditionFalse, True)"]
    by (cases s; cases b) (simp_all add: p mergedStatus_def r)
qed

lemma merge_top:
  "merge cs t opts =
     (case TopGroup (getConditionGroups cs opts) of
        None \<Rightarrow> None
      | Some g \<Rightarrow> Some (newCondition t
          (the (mergedStatus (stringInSlice (negativePolarityConditionTypes opts) t) [gpolarity g]))
          (getReason (getConditionGroups cs opts) opts) (getMessage (getConditionGroups cs opts) opts)))"
  by (auto simp: merge_def mergedStatus_def Let_def TrueCondition_def FalseCondition_def UnknownCondition_def
      split: option.split ConditionStatus.split)

lemma mergedStatus_scope:
  assumes "TopGroup (getConditionGroups cs opts) = Some g"
  shows "mergedStatus n [gpolarity g] = mergedStatus n (map (polarity opts) (scopeOf opts cs))"
proof -
  have "mergedStatus n (map (polarity opts) (scopeOf opts cs)) = mergedStatus n [gpolarity g]"
    using top_Some(2,3) [OF assms] by (subst (1 2) mergedStatus_top [where p = "gpolarity g"]) auto
  then show ?thesis by simp
qed

lemma getFirstCondition_top:
  assumes "TopGroup (getConditionGroups cs opts) = Some g"
  obtains c where "getFirstCondition (getConditionGroups cs opts) order = Some c" "c \<in> set (gconditions g)"
proof -
  have ne: "gconditions g \<noteq> []"
  proof -
    obtain c where "c \<in> set (scopeOf opts cs)" "polarity opts c = gpolarity g"
      using top_Some(2) [OF assms] by auto
    then have "c \<in> set (gconditions g)" unfolding top_Some(1) [OF assms] by simp
    then show ?thesis by auto
  qed
  have first: "firstOfTypes ps xs = Some d \<Longrightarrow> d \<in> set xs" for ps xs d
    by (induction ps) (auto simp: find_Some_iff in_set_conv_nth split: option.splits)
  let ?o = "case order of None \<Rightarrow> [] | Some ps \<Rightarrow> ps"
  obtain c ds where c: "gconditions g = c # ds" using ne by (cases "gconditions g") auto
  have "\<exists>d. getFirstCondition (getConditionGroups cs opts) order = Some d \<and> d \<in> set (gconditions g)"
    using first [of ?o "gconditions g"] assms c
    by (cases ds; cases "firstOfTypes ?o (gconditions g)") (simp_all add: getFirstCondition_def)
  with that show ?thesis by blast
qed

section \<open>Independence of the order\<close>

lemma rank_inj: "rank p = rank q \<Longrightarrow> rank p < 4 \<Longrightarrow> p = q"
  by (cases p; cases q) (auto simp: rank_def split: ConditionStatus.splits bool.splits)

definition undecided :: "mergeOptions \<Rightarrow> localizedCondition list \<Rightarrow> bool" where
  "undecided opts cs \<longleftrightarrow> (\<forall>c \<in> set (scopeOf opts cs). status (lcond c) \<notin> {ConditionTrue, ConditionFalse})"

lemma rank_decided: "rank (s, b) < 4 \<longleftrightarrow> s \<in> {ConditionTrue, ConditionFalse}"
  by (auto simp: rank_def split: ConditionStatus.splits bool.splits)

lemma scopeOf_mset:
  assumes "mset cs = mset ds"
  shows "mset (scopeOf opts cs) = mset (scopeOf opts ds)"
proof -
  have "latestOf cs = latestOf ds" using mset_eq_setD [OF assms] by (simp add: latestOf_def)
  with assms show ?thesis by (simp add: scopeOf_def)
qed

lemma scopeOf_sub: "set (scopeOf opts cs) \<subseteq> set cs"
  by (auto simp: scopeOf_def)

lemma sort_topLess:
  assumes "distinct (map (ctype \<circ> lcond) xs)" "mset xs = mset ys"
  shows "sort_Slice topLess xs = sort_Slice topLess ys"
proof -
  let ?lt = "\<lambda>a b. lexicographicLess (lcond a) (lcond b)"
  have ord: "less_order ?lt" unfolding lexicographicLess_key by (rule less_order_key)
  have dy: "distinct (map (ctype \<circ> lcond) ys)"
    using assms by (metis mset_map mset_eq_imp_distinct_iff)
  have eq: "sort_Slice topLess zs = sort_Slice ?lt zs" if "distinct (map (ctype \<circ> lcond) zs)" for zs
    using that by (intro sort_Slice_cong) (auto simp: topLess_def distinct_map inj_on_def)
  have "sort_Slice ?lt xs = sort_Slice ?lt ys"
  proof (rule less_order.sort_unique [OF ord])
    fix a b
    assume "a \<in> set (sort_Slice ?lt xs)" "b \<in> set (sort_Slice ?lt xs)" "a \<noteq> b"
    then have "ctype (lcond a) \<noteq> ctype (lcond b)" using assms(1) by (auto simp: distinct_map inj_on_def)
    then show "?lt a b \<or> ?lt b a" by (rule lexicographicLess_total)
  qed (use assms(2) less_order.sorted_sort_Slice [OF ord] in auto)
  with eq [OF assms(1)] eq [OF dy] show ?thesis by simp
qed

lemma top_mset:
  assumes "distinct (map (ctype \<circ> lcond) cs)" "mset cs = mset ds" "\<not> undecided opts cs"
    and "TopGroup (getConditionGroups cs opts) = Some g" "TopGroup (getConditionGroups ds opts) = Some h"
  shows "gpolarity g = gpolarity h" "gconditions g = gconditions h"
proof -
  note m = scopeOf_mset [OF assms(2), of opts]
  note s = mset_eq_setD [OF m]
  obtain c where c: "c \<in> set (scopeOf opts cs)" "rank (polarity opts c) < 4"
    using assms(3) by (auto simp: undecided_def polarity_def rank_decided)
  have "rank (gpolarity g) \<le> rank (gpolarity h)" "rank (gpolarity h) \<le> rank (gpolarity g)"
    using top_Some(2,3) [OF assms(4)] top_Some(2,3) [OF assms(5)] s by auto
  moreover have "rank (gpolarity g) < 4"
    using top_Some(3) [OF assms(4) c(1)] c(2) by simp
  ultimately show pol: "gpolarity g = gpolarity h" by (intro rank_inj) auto
  have "distinct (map (ctype \<circ> lcond) (filter P (scopeOf opts cs)))" for P
    using assms(1) by (simp add: scopeOf_def distinct_map_filter)
  then show "gconditions g = gconditions h"
    unfolding top_Some(1) [OF assms(4)] top_Some(1) [OF assms(5)] pol using m
    by (intro sort_topLess) simp_all
qed

lemma step_count:
  "(case TruePositivePolarityGroup (getConditionGroups cs opts) of None \<Rightarrow> 0 | Some g \<Rightarrow> length (gconditions g)) =
     length (filter (\<lambda>c. polarity opts c = (ConditionTrue, False)) (scopeOf opts cs))"
proof -
  let ?G = "getConditionGroups cs opts"
  have mem: "(\<forall>x \<in> set ?G. \<exists>h \<in> set (selected opts cs). gpolarity x = gpolarity h \<and>
      length (gconditions x) = length (gconditions h)) \<and>
    (\<forall>h \<in> set (selected opts cs). \<exists>x \<in> set ?G. gpolarity x = gpolarity h)"
  proof (cases "sort_Slice groups_Less (selected opts cs)")
    case Nil
    then have "selected opts cs = []" by (metis length_0_conv length_sort_Slice)
    then show ?thesis by (simp add: getConditionGroups_selected)
  next
    case (Cons g gs)
    then have "set (selected opts cs) = set (g # gs)" by (metis set_sort_Slice)
    with Cons show ?thesis by (auto simp: getConditionGroups_selected)
  qed
  show ?thesis
  proof (cases "TruePositivePolarityGroup ?G")
    case None
    then have "(ConditionTrue, False) \<notin> gpolarity ` set (selected opts cs)"
      using mem by (fastforce simp: TruePositivePolarityGroup_def find_None_iff)
    then have "filter (\<lambda>c. polarity opts c = (ConditionTrue, False)) (scopeOf opts cs) = []"
      unfolding selected_groups(2) [symmetric] by (auto simp: filter_empty_conv image_iff)
    with None show ?thesis by simp
  next
    case (Some x)
    then have x: "x \<in> set ?G" "gpolarity x = (ConditionTrue, False)"
      by (auto simp: TruePositivePolarityGroup_def find_Some_iff)
    then obtain h where "h \<in> set (selected opts cs)" "gpolarity x = gpolarity h"
      "length (gconditions x) = length (gconditions h)" using mem by blast
    with Some x(2) selected_groups(1) [of h opts cs] show ?thesis by simp
  qed
qed

lemma merge_mset:
  assumes "distinct (map (ctype \<circ> lcond) cs)" "mset cs = mset ds" "\<not> undecided opts cs"
  shows "merge cs t opts = merge ds t opts"
proof -
  note m = scopeOf_mset [OF assms(2), of opts]
  have "scopeOf opts cs \<noteq> []" using assms(3) by (auto simp: undecided_def)
  then obtain g h where gh: "TopGroup (getConditionGroups cs opts) = Some g"
    "TopGroup (getConditionGroups ds opts) = Some h"
    using m top_None by (metis mset_zero_iff not_None_eq)
  note top = top_mset [OF assms gh]
  have first: "getFirstCondition (getConditionGroups cs opts) o' = getFirstCondition (getConditionGroups ds opts) o'" for o'
    unfolding getFirstCondition_def gh option.case top(2) ..
  have "length (filter P (scopeOf opts cs)) = length (filter P (scopeOf opts ds))" for P
    using m by (metis mset_filter size_mset)
  then have step: "getStepCounterMessage (getConditionGroups cs opts) n =
      getStepCounterMessage (getConditionGroups ds opts) n" for n
    by (simp add: getStepCounterMessage_def step_count)
  show ?thesis
    using top by (simp add: merge_top gh getReason_def getFirstReason_def getMessage_def getFirstMessage_def
        getCounterMessage_def first step)
qed

text \<open>Lifting to summaries of one object.\<close>

definition summaryScope :: "Obj \<Rightarrow> string \<Rightarrow> MergeOption list \<Rightarrow> Condition list" where
  "summaryScope from t options =
     filter (\<lambda>c. ctype c \<noteq> t \<and> inScope (conditionTypes (fold (\<lambda>f m. f m) options zeroMergeOptions)) c)
       (conditions from)"

text \<open>Some condition in scope (of the latest generation, if that is requested) is true or false.\<close>

definition decided_scope :: "Obj \<Rightarrow> string \<Rightarrow> MergeOption list \<Rightarrow> bool" where
  "decided_scope from t options \<longleftrightarrow>
     \<not> undecided (fold (\<lambda>f m. f m) options zeroMergeOptions) (map (localize from) (summaryScope from t options))"

definition summaryOptions :: "Condition list \<Rightarrow> mergeOptions \<Rightarrow> mergeOptions" where
  "summaryOptions cs o1 =
     (let o2 = (case addStepCounterIfOnlyConditionTypes o1 of
                  None \<Rightarrow> o1
                | Some ts \<Rightarrow>
                    if list_all (inScope (Some ts)) cs then o1 else o1\<lparr>addStepCounter := False\<rparr>)
      in if addStepCounter o2 then
           o2\<lparr>stepCounter :=
             (case addStepCounterIfOnlyConditionTypes o2 of
                Some ts \<Rightarrow> int (length ts)
              | None \<Rightarrow> (case conditionTypes o2 of Some ts \<Rightarrow> int (length ts) | None \<Rightarrow> int (length cs)))\<rparr>
         else o2)"

lemma summary_merge:
  "summary from t options =
     merge (map (localize from) (summaryScope from t options)) t
       (summaryOptions (summaryScope from t options) (fold (\<lambda>f m. f m) options zeroMergeOptions))"
  by (simp add: summary_def summaryScope_def summaryOptions_def Let_def)

lemma summaryOptions_scope:
  "scopeOf (summaryOptions cs o1) ls = scopeOf o1 ls"
  "undecided (summaryOptions cs o1) ls = undecided o1 ls"
  by (auto simp: scopeOf_def undecided_def summaryOptions_def Let_def split: option.split)

lemma summary_mset:
  assumes "types_distinct a" "mset (filter (\<lambda>c. ctype c \<noteq> t) (conditions a)) =
      mset (filter (\<lambda>c. ctype c \<noteq> t) (conditions b))" "decided_scope a t options"
    and "okind a = okind b" "oname a = oname b"
  shows "summary a t options = summary b t options"
proof -
  have loc: "localize b = localize a" using assms(4,5) by (simp add: localize_def fun_eq_iff)
  let ?o = "fold (\<lambda>f m. f m) options zeroMergeOptions"
  have m: "mset (summaryScope a t options) = mset (summaryScope b t options)"
  proof -
    have "mset (summaryScope o' t options) =
        filter_mset (inScope (conditionTypes ?o)) (mset (filter (\<lambda>c. ctype c \<noteq> t) (conditions o')))" for o'
      by (simp add: summaryScope_def filter_filter_mset conj_commute)
    with assms(2) show ?thesis by metis
  qed
  have opts: "summaryOptions (summaryScope a t options) ?o = summaryOptions (summaryScope b t options) ?o"
    unfolding summaryOptions_def list_all_iff mset_eq_setD [OF m] mset_eq_length [OF m] ..
  have "distinct (map (ctype \<circ> lcond) (map (localize a) (summaryScope a t options)))"
    using assms(1) by (simp add: types_distinct_def summaryScope_def distinct_map_filter localize_def comp_def)
  then show ?thesis
    unfolding summary_merge opts loc
    by (rule merge_mset) (use m assms(3) in \<open>simp_all add: decided_scope_def summaryOptions_scope\<close>)
qed

lemma summary_Some:
  assumes "decided_scope o' t options"
  shows "\<exists>s. summary o' t options = Some s \<and> ctype s = t"
proof -
  let ?cs = "map (localize o') (summaryScope o' t options)"
  let ?o = "summaryOptions (summaryScope o' t options) (fold (\<lambda>f m. f m) options zeroMergeOptions)"
  have "scopeOf ?o ?cs \<noteq> []"
    using assms by (auto simp: decided_scope_def undecided_def summaryOptions_scope)
  then obtain g where "TopGroup (getConditionGroups ?cs ?o) = Some g" using top_None by blast
  then show ?thesis by (simp add: summary_merge merge_top newCondition_def)
qed

lemma summary_type: "summary o' t options = Some c \<Longrightarrow> ctype c = t"
  unfolding summary_merge merge_def
  by (auto simp: Let_def split: option.splits ConditionStatus.splits if_splits)

lemma Set_other_mset:
  assumes "types_distinct o'"
  shows "mset (filter (\<lambda>d. ctype d \<noteq> ctype c) (conditions (Set now o' (Some c)))) =
    mset (filter (\<lambda>d. ctype d \<noteq> ctype c) (conditions o'))"
proof -
  obtain as bs where ab: "conditions (Set now o' (Some c)) =
      sort_Slice lexicographicLess (as @ storedCondition now o' c # bs)"
    "conditions o' = as @ (case Get o' (ctype c) of None \<Rightarrow> [] | Some e \<Rightarrow> [e]) @ bs"
    by (rule Set_conditions)
  have "Get o' (ctype c) = Some e \<Longrightarrow> ctype e = ctype c" for e
    using find_type_Some by (simp add: Get_find)
  then show ?thesis by (cases "Get o' (ctype c)") (simp_all add: ab)
qed

section \<open>Properties\<close>

text \<open>
  C12. The status of a merged condition is the documented priority over the conditions in scope
  (those of the latest generation, if requested): there is no condition if nothing is in scope;
  otherwise it is bad if some negative-polarity condition is true or some positive one false, else good if some
  condition is decided, else unknown, where bad and good are inverted for a target of negative
  polarity. In particular it does not depend on the order of the conditions.
\<close>

theorem merge_status_priority:
  "map_option status (merge cs t opts) =
     mergedStatus (stringInSlice (negativePolarityConditionTypes opts) t)
       (map (polarity opts) (scopeOf opts cs))"
proof (cases "TopGroup (getConditionGroups cs opts)")
  case None
  then show ?thesis using top_None [of cs opts] by (simp add: merge_top mergedStatus_def)
next
  case (Some g)
  let ?n = "stringInSlice (negativePolarityConditionTypes opts) t"
  have "mergedStatus ?n [gpolarity g] \<noteq> None" by (simp add: mergedStatus_def)
  with Some show ?thesis
    by (auto simp: merge_top mergedStatus_scope [OF Some, symmetric] newCondition_def)
qed

text \<open>
  Without counters and source references, the reason and message of a merged condition are those of one of
  the conditions in scope of the highest priority.
\<close>

theorem merge_reports_top_condition:
  assumes "merge cs t opts = Some r"
    and "\<not> addSourceRef opts" "\<not> addCounter opts" "\<not> addStepCounter opts"
  shows "ctype r = t \<and> (\<exists>c \<in> set (scopeOf opts cs). reason r = reason (lcond c) \<and> message r = message (lcond c) \<and>
    (\<forall>d \<in> set (scopeOf opts cs). rank (polarity opts c) \<le> rank (polarity opts d)))"
proof -
  obtain g where g: "TopGroup (getConditionGroups cs opts) = Some g"
    using assms(1) by (auto simp: merge_top split: option.splits)
  obtain c where c: "getFirstCondition (getConditionGroups cs opts) (conditionTypes opts) = Some c"
    "c \<in> set (gconditions g)" by (rule getFirstCondition_top [OF g])
  have "ctype r = t" "reason r = reason (lcond c)" "message r = message (lcond c)"
    using assms c(1) g
    by (auto simp: merge_top newCondition_def getReason_def getFirstReason_def getMessage_def getFirstMessage_def)
  moreover have "c \<in> set (scopeOf opts cs)" "polarity opts c = gpolarity g"
    using c(2) top_Some(1) [OF g] by auto
  ultimately show ?thesis using top_Some(3) [OF g] by auto
qed

theorem merge_reports_top_condition_witness:
  "\<exists>r. merge [localize demo_object (newCondition ''A'' ConditionTrue ''Ok'' ''fine''),
      localize demo_object (newCondition ''B'' ConditionFalse ''Bad'' ''broken'')] ''Ready'' zeroMergeOptions = Some r \<and>
    reason r = ''Bad''"
proof -
  let ?cs = "[localize demo_object (newCondition ''A'' ConditionTrue ''Ok'' ''fine''),
      localize demo_object (newCondition ''B'' ConditionFalse ''Bad'' ''broken'')]"
  obtain r where r: "merge ?cs ''Ready'' zeroMergeOptions = Some r" "reason r = ''Bad''"
  proof -
    have "map_option reason (merge ?cs ''Ready'' zeroMergeOptions) = Some ''Bad''" by code_simp
    then show ?thesis using that by auto
  qed
  from merge_reports_top_condition [OF r(1)] have "ctype r = ''Ready''" by (simp add: zeroMergeOptions_def)
  with r show ?thesis by blast
qed

text \<open>
  A summary is canonical and stable: for an object with distinct condition types that has a true or
  false condition in scope, the summary does not depend on the order of the conditions, and
  setting it again, at any time, changes nothing.
\<close>

theorem SetSummary_stable:
  assumes "types_distinct o'" "mset cs = mset (conditions o')" "decided_scope o' t options"
  shows "summary (o'\<lparr>conditions := cs\<rparr>) t options = summary o' t options \<and>
    SetSummary now' (SetSummary now o' t options) t options = SetSummary now o' t options"
proof
  show "summary (o'\<lparr>conditions := cs\<rparr>) t options = summary o' t options"
    by (rule summary_mset [OF assms(1) _ assms(3), symmetric]) (simp_all add: assms(2))
  obtain s where s: "summary o' t options = Some s" "ctype s = t"
    using summary_Some [OF assms(3)] by blast
  have "mset (filter (\<lambda>c. ctype c \<noteq> t) (conditions o')) =
      mset (filter (\<lambda>c. ctype c \<noteq> t) (conditions (Set now o' (Some s))))"
    using Set_other_mset [OF assms(1), of s now] s(2) by simp
  then have "summary (Set now o' (Some s)) t options = summary o' t options"
    using assms(1,3) by (intro summary_mset [symmetric]) simp_all
  then show "SetSummary now' (SetSummary now o' t options) t options = SetSummary now o' t options"
    using s(1) Set_again [OF assms(1)] by (simp add: SetSummary_def)
qed

theorem SetSummary_stable_witness:
  "SetSummary 9 (SetSummary 7 demo_object ''Ready'' []) ''Ready'' [] = SetSummary 7 demo_object ''Ready'' []"
proof -
  have "types_distinct demo_object" "decided_scope demo_object ''Ready'' []" by code_simp+
  from SetSummary_stable [OF this(1) refl this(2)] show ?thesis by blast
qed

text \<open>
  The comparison with which \<open>getConditionGroups\<close> sorts the top group is not an order once
  several objects are involved: conditions of one type are compared by object name but conditions of
  different types by generation first, so three conditions can form a cycle, and then no
  arrangement of them is sorted.
\<close>

theorem topLess_cyclic:
  "\<exists>a b c. topLess a b \<and> topLess b c \<and> topLess c a \<and>
     {xs. mset xs = {#a, b, c#} \<and> sorted_by topLess xs} = {}"
proof -
  define mk where "mk t g n = \<lparr>lcond = \<lparr>ctype = t, status = ConditionFalse, observedGeneration = g,
    lastTransitionTime = 0, reason = [], message = []\<rparr>, lkind = ''K'', lname = n\<rparr>"
    for t :: string and g :: int and n :: string
  let ?a = "mk ''X'' 1 ''a''" and ?b = "mk ''X'' 3 ''b''" and ?c = "mk ''Y'' 2 ''c''"
  have cyc: "topLess ?a ?b" "topLess ?b ?c" "topLess ?c ?a"
    unfolding mk_def by code_simp+
  have "\<not> sorted_by topLess xs" if m: "mset xs = {#?a, ?b, ?c#}" for xs
  proof
    assume s: "sorted_by topLess xs"
    have "xs \<noteq> []" using m by auto
    then obtain x ys where xs: "xs = x # ys" by (cases xs) auto
    have st: "set xs = {?a, ?b, ?c}" using arg_cong [OF m, of set_mset] by simp
    then have "x \<in> {?a, ?b, ?c}" using xs by auto
    then obtain y where "y \<in> set xs" "topLess y x" using cyc st by blast
    moreover have "\<not> topLess x x" by (simp add: topLess_def)
    ultimately show False using s xs by auto
  qed
  with cyc show ?thesis by blast
qed

end
