(* ===== verification/Reconcile_Result.thy ===== *)
theory Reconcile_Result
  imports Merge_Properties
begin

text \<open>
  \<open>runtime/reconcile/result.go\<close>: from the result and error of a reconciliation to a kstatus
  compliant object status. The controller-runtime result type is a parameter with its zero value,
  the success predicate belongs to the reconciler, and an error is its message. The writes of one call share one
  clock reading. The status field for the handled request is set through an unstructured conversion
  whose error \<open>Finalize\<close> ignores; the model is the successful conversion.
\<close>

section \<open>Definitions\<close>

definition FailedReason :: string where "FailedReason = ''Failed''"

definition SucceededReason :: string where "SucceededReason = ''Succeeded''"

definition ReconcileRequestAnnotation :: string where
  "ReconcileRequestAnnotation = ''reconcile.fluxcd.io/requestedAt''"

record Conditions =
  Target :: string
  Owned :: "string list"
  Summarize :: "string list"
  NegativePolarity :: "string list"

datatype SuccessType = SuccessWithRequeue | SuccessNoRequeue

record 'r ResultFinalizer =
  isSuccess :: "'r \<Rightarrow> string option \<Rightarrow> bool"
  readySuccessMsg :: string
  rconditions :: "Conditions list"

text \<open>The object: its conditions, its annotations and the handled request in its status.\<close>

record ReconcileObject =
  robj :: Obj
  annotations :: "(string, string) gomap"
  lastHandledReconcileAt :: string

definition determineSuccessType :: "'r \<Rightarrow> ('r \<Rightarrow> string option \<Rightarrow> bool) \<Rightarrow> SuccessType" where
  "determineSuccessType zero isSucc = (if isSucc zero None then SuccessNoRequeue else SuccessWithRequeue)"

definition overwriteReady :: "Obj \<Rightarrow> bool" where
  "overwriteReady o' \<longleftrightarrow> IsUnknown o' ReadyCondition \<or> IsTrue o' ReadyCondition"

text \<open>
  The steps of \<open>Finalize\<close>, in order: drop Stalled on an error; analyse an unsuccessful or
  no-requeue result; drop Reconciling; make Ready reflect the error; summarise; derive the
  returned error; mark Ready.
\<close>

definition finalizeStalled ::
  "int \<Rightarrow> 'r \<Rightarrow> ('r \<Rightarrow> string option \<Rightarrow> bool) \<Rightarrow> 'r \<Rightarrow> string option \<Rightarrow> Obj \<Rightarrow> Obj" where
  "finalizeStalled now zero isSucc res recErr o' =
     (if \<not> isSucc res recErr \<or> determineSuccessType zero isSucc = SuccessNoRequeue then
        let o1 = (if res \<noteq> zero \<and> \<not> isSucc res None then Delete o' StalledCondition else o') in
        if IsTrue o1 StalledCondition \<and> overwriteReady o1 then
          (case Get o1 StalledCondition of
             Some sc \<Rightarrow> MarkFalse now o1 ReadyCondition (reason sc) (message sc)
           | None \<Rightarrow> o1)
        else o1
      else o')"

definition finalizeConditions ::
  "int \<Rightarrow> 'r \<Rightarrow> ('r \<Rightarrow> string option \<Rightarrow> bool) \<Rightarrow> 'r \<Rightarrow> string option \<Rightarrow> Obj \<Rightarrow> Obj" where
  "finalizeConditions now zero isSucc res recErr o' =
     (let o1 = (if recErr \<noteq> None then Delete o' StalledCondition else o');
          o2 = finalizeStalled now zero isSucc res recErr o1;
          o3 = (if isSucc res recErr \<or> IsTrue o2 StalledCondition
                then Delete o2 ReconcilingCondition else o2)
      in case recErr of
           Some e \<Rightarrow> if overwriteReady o3 then MarkFalse now o3 ReadyCondition FailedReason e else o3
         | None \<Rightarrow> o3)"

definition finalizeSummary :: "int \<Rightarrow> Conditions list \<Rightarrow> Obj \<Rightarrow> Obj" where
  "finalizeSummary now cs o' =
     fold (\<lambda>c o'. SetSummary now o' (Target c)
        [WithConditions (Summarize c), WithNegativePolarityConditions (NegativePolarity c)]) cs o'"

definition finalizeError ::
  "'r \<Rightarrow> ('r \<Rightarrow> string option \<Rightarrow> bool) \<Rightarrow> bool \<Rightarrow> string option \<Rightarrow> Obj \<Rightarrow> string option" where
  "finalizeError zero isSucc successResult recErr o' =
     (if successResult \<and> determineSuccessType zero isSucc \<noteq> SuccessNoRequeue \<and>
         \<not> IsUnknown o' ReadyCondition \<and> IsFalse o' ReadyCondition \<and> \<not> IsStalled o'
      then Some (GetMessage o' ReadyCondition) else recErr)"

definition Finalize ::
  "int \<Rightarrow> 'r \<Rightarrow> 'r ResultFinalizer \<Rightarrow> ReconcileObject \<Rightarrow> 'r \<Rightarrow> string option \<Rightarrow>
     string option \<times> ReconcileObject" where
  "Finalize now zero rs obj res recErr =
     (let o1 = finalizeConditions now zero (isSuccess rs) res recErr (robj obj);
          o2 = finalizeSummary now (rconditions rs) o1;
          err = finalizeError zero (isSuccess rs) (isSuccess rs res recErr) recErr o2;
          o3 = (if IsUnknown o2 ReadyCondition \<and> isSuccess rs res err \<and> \<not> IsReconciling o2 \<and> \<not> IsStalled o2
                then MarkTrue now o2 ReadyCondition SucceededReason (readySuccessMsg rs) else o2);
          obj1 = obj\<lparr>robj := o3\<rparr>
      in (err, case map_of (annotations obj) ReconcileRequestAnnotation of
                 Some v \<Rightarrow> obj1\<lparr>lastHandledReconcileAt := v\<rparr>
               | None \<Rightarrow> obj1))"

definition ProgressiveStatus :: "int \<Rightarrow> bool \<Rightarrow> Obj \<Rightarrow> string \<Rightarrow> string \<Rightarrow> Obj" where
  "ProgressiveStatus now drift o' r m =
     (let o1 = MarkReconciling now o' r m in
      if drift \<or> \<not> Has o1 ReadyCondition \<or> IsUnknown o1 ReadyCondition
      then MarkUnknown now o1 ReadyCondition r m else o1)"

datatype patch_option =
    PatchOwnedConditions "string list"
  | PatchFieldOwner string
  | PatchStatusObservedGeneration

definition AddPatchOptions :: "Obj \<Rightarrow> patch_option list \<Rightarrow> string list \<Rightarrow> string \<Rightarrow> patch_option list" where
  "AddPatchOptions o' opts owned fieldOwner =
     (let opts1 = opts @ [PatchOwnedConditions owned, PatchFieldOwner fieldOwner] in
      if IsStalled o' \<or> IsReady o' then opts1 @ [PatchStatusObservedGeneration] else opts1)"

section \<open>Facts\<close>

lemma IsFalse_Set:
  "types_distinct o' \<Longrightarrow> IsFalse (Set now o' (Some c)) t =
     (if t = ctype c then status c = ConditionFalse else IsFalse o' t)"
  using stored_norm [of now o' c]
  by (simp add: IsFalse_def Get_Set hasSameState_def normCondition_def)

lemma IsUnknown_Set:
  "types_distinct o' \<Longrightarrow> IsUnknown (Set now o' (Some c)) t =
     (if t = ctype c then status c = ConditionUnknown else IsUnknown o' t)"
  using stored_norm [of now o' c]
  by (simp add: IsUnknown_def Get_Set hasSameState_def normCondition_def)

lemma IsFalse_Delete: "IsFalse (Delete o' u) t \<longleftrightarrow> t \<noteq> u \<and> IsFalse o' t"
  by (simp add: IsFalse_def Get_Delete)

lemma IsUnknown_Delete: "IsUnknown (Delete o' u) t \<longleftrightarrow> t = u \<or> IsUnknown o' t"
  by (simp add: IsUnknown_def Get_Delete)

lemmas status_simps = IsTrue_Set IsFalse_Set IsUnknown_Set IsTrue_Delete IsFalse_Delete IsUnknown_Delete

lemma status_exclusive:
  "IsTrue o' t \<Longrightarrow> \<not> IsFalse o' t" "IsTrue o' t \<Longrightarrow> \<not> IsUnknown o' t" "IsFalse o' t \<Longrightarrow> \<not> IsUnknown o' t"
  by (auto simp: IsTrue_def IsFalse_def IsUnknown_def split: option.splits)

lemma IsTrue_Get: "IsTrue o' t \<Longrightarrow> \<exists>c. Get o' t = Some c"
  by (auto simp: IsTrue_def split: option.splits)

text \<open>The operations of one call on the store of conditions, by the types they touch.\<close>

definition touches :: "string set \<Rightarrow> Obj \<Rightarrow> Obj \<Rightarrow> bool" where
  "touches ts a b \<longleftrightarrow> (\<exists>ops. touched ` set ops \<subseteq> ts \<and> b = cs.run ops a)"

lemma touches_refl [intro]: "touches ts a a"
  unfolding touches_def by (rule exI [of _ "[]"]) simp

lemma touches_trans: "touches ts a b \<Longrightarrow> touches ts b c \<Longrightarrow> touches ts a c"
  unfolding touches_def by (metis Un_least image_Un cs.run_simps(3) set_append)

lemma touches_Set: "ctype c \<in> ts \<Longrightarrow> touches ts a (Set now a (Some c))"
  unfolding touches_def by (rule exI [of _ "[Put now c]"]) simp

lemma touches_Delete: "t \<in> ts \<Longrightarrow> touches ts a (Delete a t)"
  unfolding touches_def by (rule exI [of _ "[Drop t]"]) simp

lemma touches_mono: "touches ts a b \<Longrightarrow> ts \<subseteq> us \<Longrightarrow> touches us a b"
  unfolding touches_def by blast

lemma touches_distinct: "touches ts a b \<Longrightarrow> types_distinct a \<Longrightarrow> types_distinct b"
  unfolding touches_def using cs.run_ok by blast

lemma touches_Get: "touches ts a b \<Longrightarrow> types_distinct a \<Longrightarrow> t \<notin> ts \<Longrightarrow> Get b t = Get a t"
  unfolding touches_def using cs.run_untouched by blast

lemma touches_status:
  assumes "touches ts a b" "types_distinct a" "t \<notin> ts"
  shows "IsTrue b t = IsTrue a t" "IsFalse b t = IsFalse a t" "IsUnknown b t = IsUnknown a t"
  using touches_Get [OF assms] by (simp_all add: IsTrue_def IsFalse_def IsUnknown_def)

lemma touches_SetSummary: "touches {t} a (SetSummary now a t options)"
proof (cases "summary a t options")
  case None
  then show ?thesis by (auto simp: SetSummary_def Set_def)
next
  case (Some c)
  then have "ctype c = t" by (rule summary_type)
  with Some show ?thesis by (simp add: SetSummary_def touches_Set)
qed

lemma touches_finalizeSummary: "touches (Target ` set l) a (finalizeSummary now l a)"
proof (induction l arbitrary: a)
  case Nil
  then show ?case by (auto simp: finalizeSummary_def)
next
  case (Cons c l)
  let ?b = "SetSummary now a (Target c)
    [WithConditions (Summarize c), WithNegativePolarityConditions (NegativePolarity c)]"
  have "touches (Target ` set (c # l)) a ?b"
    by (rule touches_mono [OF touches_SetSummary]) simp
  moreover have "touches (Target ` set (c # l)) ?b (finalizeSummary now l ?b)"
    by (rule touches_mono [OF Cons.IH]) auto
  ultimately show ?case by (auto intro: touches_trans simp: finalizeSummary_def)
qed

lemma touches_finalizeStalled:
  "touches {StalledCondition, ReadyCondition} a (finalizeStalled now zero isSucc res recErr a)"
  unfolding finalizeStalled_def MarkFalse_def
  by (auto simp: Let_def split: option.split intro: touches_Set touches_Delete intro!: touches_trans [OF touches_Delete touches_Set])

lemma touches_finalizeConditions:
  "touches {StalledCondition, ReconcilingCondition, ReadyCondition} a
     (finalizeConditions now zero isSucc res recErr a)"
proof -
  let ?T = "{StalledCondition, ReconcilingCondition, ReadyCondition}"
  define o1 where "o1 = (if recErr \<noteq> None then Delete a StalledCondition else a)"
  define o2 where "o2 = finalizeStalled now zero isSucc res recErr o1"
  define o3 where "o3 = (if isSucc res recErr \<or> IsTrue o2 StalledCondition
    then Delete o2 ReconcilingCondition else o2)"
  have "touches ?T a o1" by (auto simp: o1_def intro: touches_Delete)
  moreover have "touches ?T o1 o2" unfolding o2_def by (rule touches_mono [OF touches_finalizeStalled]) simp
  moreover have "touches ?T o2 o3" by (auto simp: o3_def intro: touches_Delete)
  moreover have "touches ?T o3 (finalizeConditions now zero isSucc res recErr a)"
    unfolding finalizeConditions_def Let_def o1_def [symmetric] o2_def [symmetric] o3_def [symmetric]
    by (auto simp: MarkFalse_def split: option.split intro: touches_Set)
  ultimately show ?thesis by (meson touches_trans)
qed

lemma finalizeStalled_ready:
  assumes "types_distinct o'" "\<not> isSucc res recErr \<or> determineSuccessType zero isSucc = SuccessNoRequeue"
    and "IsTrue (finalizeStalled now zero isSucc res recErr o') StalledCondition"
  shows "\<not> IsTrue (finalizeStalled now zero isSucc res recErr o') ReadyCondition"
proof -
  define o1 where "o1 = (if res \<noteq> zero \<and> \<not> isSucc res None then Delete o' StalledCondition else o')"
  have d: "types_distinct o1" using assms(1) by (simp add: o1_def Delete_distinct)
  have f: "finalizeStalled now zero isSucc res recErr o' =
    (if IsTrue o1 StalledCondition \<and> overwriteReady o1 then
       (case Get o1 StalledCondition of
          Some sc \<Rightarrow> MarkFalse now o1 ReadyCondition (reason sc) (message sc) | None \<Rightarrow> o1) else o1)"
    unfolding finalizeStalled_def Let_def o1_def [symmetric] using assms(2) by simp
  show ?thesis
  proof (cases "IsTrue o1 StalledCondition \<and> overwriteReady o1")
    case True
    then obtain sc where "Get o1 StalledCondition = Some sc" using IsTrue_Get by blast
    with True show ?thesis by (simp add: f MarkFalse_def status_simps d)
  next
    case False
    with assms(3) show ?thesis by (auto simp: f overwriteReady_def)
  qed
qed

lemma finalizeStalled_absent:
  assumes "types_distinct o'" "\<not> IsTrue o' StalledCondition"
  shows "\<not> IsTrue (finalizeStalled now zero isSucc res recErr o') StalledCondition"
  using assms by (auto simp: finalizeStalled_def Let_def IsTrue_Delete)

text \<open>The three kstatus conditions after the steps before the summaries.\<close>

lemma finalizeConditions_kstatus:
  assumes d: "types_distinct o'" and r_def: "r = finalizeConditions now zero isSucc res recErr o'"
  shows "\<not> (IsTrue r StalledCondition \<and> IsTrue r ReconcilingCondition)"
    and "isSucc res recErr \<Longrightarrow> \<not> IsTrue r ReconcilingCondition"
    and "recErr \<noteq> None \<Longrightarrow> \<not> IsTrue r StalledCondition \<and> \<not> IsTrue r ReadyCondition \<and> \<not> IsUnknown r ReadyCondition"
    and "IsTrue r StalledCondition \<Longrightarrow>
      \<not> isSucc res recErr \<or> determineSuccessType zero isSucc = SuccessNoRequeue \<Longrightarrow> \<not> IsTrue r ReadyCondition"
proof -
  define o1 where "o1 = (if recErr \<noteq> None then Delete o' StalledCondition else o')"
  define o2 where "o2 = finalizeStalled now zero isSucc res recErr o1"
  define o3 where "o3 = (if isSucc res recErr \<or> IsTrue o2 StalledCondition
    then Delete o2 ReconcilingCondition else o2)"
  have d1: "types_distinct o1" using d by (simp add: o1_def Delete_distinct)
  have d2: "types_distinct o2" unfolding o2_def by (rule touches_distinct [OF touches_finalizeStalled d1])
  have d3: "types_distinct o3" using d2 by (simp add: o3_def Delete_distinct)
  have r: "r = (case recErr of Some e \<Rightarrow>
      if overwriteReady o3 then MarkFalse now o3 ReadyCondition FailedReason e else o3 | None \<Rightarrow> o3)"
    unfolding r_def finalizeConditions_def Let_def o3_def o2_def o1_def ..
  have same: "IsTrue r t = IsTrue o3 t" if "t \<noteq> ReadyCondition" for t
    using that d3 by (auto simp: r MarkFalse_def status_simps split: option.split)
  have stalled: "IsTrue r StalledCondition = IsTrue o2 StalledCondition"
    by (simp add: same o3_def IsTrue_Delete)
  show "\<not> (IsTrue r StalledCondition \<and> IsTrue r ReconcilingCondition)"
    by (auto simp: stalled same o3_def IsTrue_Delete)
  show "isSucc res recErr \<Longrightarrow> \<not> IsTrue r ReconcilingCondition"
    by (simp add: same o3_def IsTrue_Delete)
  show "\<not> IsTrue r StalledCondition \<and> \<not> IsTrue r ReadyCondition \<and> \<not> IsUnknown r ReadyCondition" if "recErr \<noteq> None"
  proof -
    have "\<not> IsTrue o1 StalledCondition" using that by (simp add: o1_def IsTrue_Delete)
    then have "\<not> IsTrue r StalledCondition" unfolding stalled o2_def by (rule finalizeStalled_absent [OF d1])
    moreover have "\<not> IsTrue r ReadyCondition \<and> \<not> IsUnknown r ReadyCondition"
      using that d3 by (auto simp: r MarkFalse_def status_simps overwriteReady_def split: if_splits)
    ultimately show ?thesis by blast
  qed
  show "\<not> IsTrue r ReadyCondition" if s: "IsTrue r StalledCondition"
    and n: "\<not> isSucc res recErr \<or> determineSuccessType zero isSucc = SuccessNoRequeue"
  proof -
    have "\<not> IsTrue o2 ReadyCondition"
      using finalizeStalled_ready [OF d1 n] s by (simp add: stalled o2_def)
    then show ?thesis using d3 by (auto simp: r o3_def MarkFalse_def status_simps split: option.split)
  qed
qed

lemma finalizeError_Some: "recErr \<noteq> None \<Longrightarrow> finalizeError zero isSucc ok recErr o' \<noteq> None"
  by (simp add: finalizeError_def)

text \<open>A call in terms of its two stages.\<close>

lemma Finalize_robj:
  assumes "Finalize now zero rs obj res recErr = (err, obj')"
    and "o2 = finalizeSummary now (rconditions rs)
      (finalizeConditions now zero (isSuccess rs) res recErr (robj obj))"
  shows "err = finalizeError zero (isSuccess rs) (isSuccess rs res recErr) recErr o2"
    and "robj obj' = (if IsUnknown o2 ReadyCondition \<and> isSuccess rs res err \<and> \<not> IsReconciling o2 \<and> \<not> IsStalled o2
       then MarkTrue now o2 ReadyCondition SucceededReason (readySuccessMsg rs) else o2)"
    and "annotations obj' = annotations obj"
    and "lastHandledReconcileAt obj' =
      (case map_of (annotations obj) ReconcileRequestAnnotation of Some v \<Rightarrow> v | None \<Rightarrow> lastHandledReconcileAt obj)"
  using assms(1) unfolding Finalize_def Let_def assms(2) [symmetric]
  by (auto split: option.splits)

definition demo_finalizer :: "int ResultFinalizer" where
  "demo_finalizer = \<lparr>isSuccess = (\<lambda>res err. res = 60 \<and> err = None), readySuccessMsg = ''done'', rconditions = []\<rparr>"

definition demo_reconciled :: ReconcileObject where
  "demo_reconciled = \<lparr>robj = demo_object, annotations = [(''reconcile.fluxcd.io/requestedAt'', ''t1'')],
     lastHandledReconcileAt = ''t0''\<rparr>"

section \<open>Properties\<close>





text \<open>
  The patch options ask to record the observed generation exactly when the object is ready or stalled, so
  never after a reconcile error.
\<close>

lemma AddPatchOptions_generation:
  "PatchStatusObservedGeneration \<notin> set opts \<Longrightarrow>
   PatchStatusObservedGeneration \<in> set (AddPatchOptions o' opts owned fieldOwner) \<longleftrightarrow> IsStalled o' \<or> IsReady o'"
  by (simp add: AddPatchOptions_def Let_def)

lemma ProgressiveStatus_ready:
  assumes "types_distinct o'"
  shows "IsReconciling (ProgressiveStatus now drift o' r m) \<and>
    IsUnknown (ProgressiveStatus now drift o' r m) ReadyCondition = (drift \<or> IsUnknown o' ReadyCondition)"
proof -
  define o1 where "o1 = MarkReconciling now o' r m"
  have d: "types_distinct o1" using assms by (simp add: o1_def)
  have U: "IsUnknown o1 ReadyCondition = IsUnknown o' ReadyCondition"
    using assms by (simp add: o1_def mark_defs status_simps Delete_distinct)
  have H: "\<not> Has o1 ReadyCondition \<Longrightarrow> IsUnknown o1 ReadyCondition"
    by (simp add: Has_def IsUnknown_def)
  have "IsReconciling o1" using assms by (simp add: IsReconciling_def o1_def Mark_IsTrue)
  then show ?thesis
    using d U H unfolding ProgressiveStatus_def Let_def o1_def [symmetric]
    by (auto simp: IsReconciling_def Mark_IsTrue MarkUnknown_def status_simps)
qed

text \<open>
  A status is written for the generation only when it is final: after \<open>Finalize\<close> with a
  reconcile error, where none of the three kstatus conditions is summarised, \<open>AddPatchOptions\<close> adds
  the owner options and never the observed generation, and neither does it once the next reconciliation has reported
  progress.
\<close>

theorem observed_generation_only_when_final:
  assumes "types_distinct (robj obj)" "Finalize now zero rs obj res (Some e) = (err, obj')"
    and "Target ` set (rconditions rs) \<inter> {StalledCondition, ReconcilingCondition, ReadyCondition} = {}"
  shows "AddPatchOptions (robj obj') opts owned fieldOwner =
      opts @ [PatchOwnedConditions owned, PatchFieldOwner fieldOwner] \<and>
    AddPatchOptions (ProgressiveStatus now drift (robj obj') r m) opts owned fieldOwner =
      opts @ [PatchOwnedConditions owned, PatchFieldOwner fieldOwner]"
proof -
  define o1 where "o1 = finalizeConditions now zero (isSuccess rs) res (Some e) (robj obj)"
  define o2 where "o2 = finalizeSummary now (rconditions rs) o1"
  note F = Finalize_robj [OF assms(2) o2_def [unfolded o1_def]]
  note k = finalizeConditions_kstatus [OF assms(1) o1_def]
  have d1: "types_distinct o1"
    unfolding o1_def by (rule touches_distinct [OF touches_finalizeConditions assms(1)])
  have t2: "touches (Target ` set (rconditions rs)) o1 o2" unfolding o2_def by (rule touches_finalizeSummary)
  have "IsTrue o2 t = IsTrue o1 t" "IsUnknown o2 t = IsUnknown o1 t"
    if "t \<in> {StalledCondition, ReadyCondition}" for t
    using touches_status [OF t2 d1] assms(3) that by auto
  then have n: "\<not> IsTrue o2 StalledCondition" "\<not> IsTrue o2 ReadyCondition" "robj obj' = o2"
    using k(3) by (simp_all add: F(2))
  have "IsReconciling (ProgressiveStatus now drift o2 r m)"
    using ProgressiveStatus_ready [OF touches_distinct [OF t2 d1]] by blast
  then show ?thesis using n by (simp add: AddPatchOptions_def IsStalled_def IsReady_def IsReconciling_def)
qed

theorem observed_generation_only_when_final_witness:
  "AddPatchOptions (robj (snd (Finalize 7 0 demo_finalizer demo_reconciled 0 (Some ''boom'')))) [] [] ''c'' =
     [PatchOwnedConditions [], PatchFieldOwner ''c'']"
proof -
  obtain err obj' where F: "Finalize 7 0 demo_finalizer demo_reconciled 0 (Some ''boom'') = (err, obj')"
    by (cases "Finalize 7 0 demo_finalizer demo_reconciled 0 (Some ''boom'')")
  have "types_distinct (robj demo_reconciled)" by code_simp
  moreover have "rconditions demo_finalizer = []" by (simp add: demo_finalizer_def)
  ultimately show ?thesis using observed_generation_only_when_final [OF _ F] F by simp
qed

end
