(* ===== verification/Go_Utf8.thy ===== *)
theory Go_Utf8
  imports Go_Prelude
begin

text \<open>
  What the modelled packages use of Go's runes: \<open>utf8.DecodeRuneInString\<close>, the conversions between
  strings and runes, and the parts of \<open>strings\<close> and \<open>strconv\<close> that work on them. A string is a list of
  bytes, a rune a natural number. The tables of the \<open>unicode\<close> package are a parameter, a record of
  its four functions that the code calls.
\<close>

section \<open>Decoding and encoding\<close>

abbreviation rune :: "char \<Rightarrow> nat" where
  "rune c \<equiv> of_char c"

definition RuneError :: nat where "RuneError = 65533"

text \<open>The size that a first byte announces and the range it admits for the second byte.\<close>

definition utf8_first :: "nat \<Rightarrow> (nat \<times> nat \<times> nat) option" where
  "utf8_first b =
     (if b < 194 then None
      else if b \<le> 223 then Some (2, 128, 191)
      else if b = 224 then Some (3, 160, 191)
      else if b = 237 then Some (3, 128, 159)
      else if b \<le> 239 then Some (3, 128, 191)
      else if b = 240 then Some (4, 144, 191)
      else if b \<le> 243 then Some (4, 128, 191)
      else if b = 244 then Some (4, 128, 143)
      else None)"

definition utf8_cont :: "nat \<Rightarrow> bool" where
  "utf8_cont b \<longleftrightarrow> 128 \<le> b \<and> b \<le> 191"

definition DecodeRuneInString :: "string \<Rightarrow> nat \<times> nat" where
  "DecodeRuneInString s =
     (case map rune s of
        [] \<Rightarrow> (RuneError, 0)
      | b0 # bs \<Rightarrow>
          if b0 < 128 then (b0, 1)
          else (case utf8_first b0 of
                  None \<Rightarrow> (RuneError, 1)
                | Some (n, lo, hi) \<Rightarrow>
                    (case bs of
                       [] \<Rightarrow> (RuneError, 1)
                     | b1 # bs1 \<Rightarrow>
                         if length bs + 1 < n \<or> b1 < lo \<or> hi < b1 then (RuneError, 1)
                         else if n = 2 then ((b0 mod 32) * 64 + b1 mod 64, 2)
                         else if \<not> utf8_cont (bs1 ! 0) then (RuneError, 1)
                         else if n = 3 then ((b0 mod 16) * 4096 + (b1 mod 64) * 64 + bs1 ! 0 mod 64, 3)
                         else if \<not> utf8_cont (bs1 ! 1) then (RuneError, 1)
                         else ((b0 mod 8) * 262144 + (b1 mod 64) * 4096 + (bs1 ! 0 mod 64) * 64 +
                                bs1 ! 1 mod 64, 4))))"

definition encodeRune :: "nat \<Rightarrow> string" where
  "encodeRune r0 =
     (let r = (if r0 > 1114111 \<or> 55296 \<le> r0 \<and> r0 \<le> 57343 then RuneError else r0) in
      map char_of
        (if r < 128 then [r]
         else if r < 2048 then [192 + r div 64, 128 + r mod 64]
         else if r < 65536 then [224 + r div 4096, 128 + r div 64 mod 64, 128 + r mod 64]
         else [240 + r div 262144, 128 + r div 4096 mod 64, 128 + r div 64 mod 64, 128 + r mod 64]))"

lemma utf8_first_size: "utf8_first b = Some (n, lo, hi) \<Longrightarrow> n \<in> {2, 3, 4} \<and> 128 \<le> lo \<and> 194 \<le> b"
  by (auto simp: utf8_first_def split: if_splits)

lemma DecodeRune_Nil [simp]: "DecodeRuneInString [] = (RuneError, 0)"
  by (simp add: DecodeRuneInString_def)

lemma DecodeRune_ascii [simp]: "rune c < (128 :: nat) \<Longrightarrow> DecodeRuneInString (c # s) = (rune c, 1)"
  by (simp add: DecodeRuneInString_def)

lemma DecodeRune_width:
  "s \<noteq> [] \<Longrightarrow> 1 \<le> snd (DecodeRuneInString s) \<and> snd (DecodeRuneInString s) \<le> length s"
  by (cases s) (auto simp: DecodeRuneInString_def Suc_le_eq dest!: utf8_first_size split: option.split list.split)

text \<open>A rune that starts with a byte outside ASCII is outside ASCII, and so are all its bytes.\<close>

lemma two_byte_high: "194 \<le> b \<Longrightarrow> b \<le> 223 \<Longrightarrow> 128 \<le> b mod 32 * 64 + x" for b :: nat
proof -
  assume "194 \<le> b" "b \<le> 223"
  then have "b mod 32 = b - 192" by (simp add: mod_if)
  with \<open>194 \<le> b\<close> show ?thesis by simp
qed

lemma three_byte_high:
  assumes "utf8_first b = Some (3, lo, hi)" "lo \<le> c" "c \<le> hi"
  shows "128 \<le> b mod 16 * 4096 + c mod 64 * 64 + x"
proof (cases "b = 224")
  case True
  with assms have "160 \<le> c" "c \<le> 191" by (auto simp: utf8_first_def)
  then have "c mod 64 = c - 128" by (simp add: mod_if)
  with \<open>160 \<le> c\<close> have "2 \<le> c mod 64" by simp
  then show ?thesis by simp
next
  case False
  with assms have "224 < b" "b \<le> 239" by (auto simp: utf8_first_def split: if_splits)
  then have "b mod 16 = b - 224" by (simp add: mod_if)
  with \<open>224 < b\<close> have "1 \<le> b mod 16" by simp
  then show ?thesis by simp
qed

lemma four_byte_high:
  assumes "utf8_first b = Some (4, lo, hi)" "lo \<le> c" "c \<le> hi"
  shows "128 \<le> b mod 8 * 262144 + c mod 64 * 4096 + x"
proof (cases "b = 240")
  case True
  with assms have "144 \<le> c" "c \<le> 191" by (auto simp: utf8_first_def)
  then have "c mod 64 = c - 128" by (simp add: mod_if)
  with \<open>144 \<le> c\<close> have "1 \<le> c mod 64" by simp
  then show ?thesis by simp
next
  case False
  with assms have "240 < b" "b \<le> 244" by (auto simp: utf8_first_def split: if_splits)
  then have "b mod 8 = b - 240" by (simp add: mod_if)
  with \<open>240 < b\<close> have "1 \<le> b mod 8" by simp
  then show ?thesis by simp
qed

lemma DecodeRune_high:
  assumes "128 \<le> (rune c :: nat)"
  shows "128 \<le> fst (DecodeRuneInString (c # s)) \<and>
    (\<forall>d \<in> set (take (snd (DecodeRuneInString (c # s))) (c # s)). 128 \<le> (rune d :: nat))"
proof (cases "utf8_first (rune c)")
  case None
  with assms show ?thesis by (simp add: DecodeRuneInString_def RuneError_def)
next
  case (Some p)
  obtain n lo hi where p: "p = (n, lo, hi)" by (cases p)
  note first = utf8_first_size [OF Some [unfolded p]]
  show ?thesis
  proof (cases "fst (DecodeRuneInString (c # s)) = RuneError \<and> snd (DecodeRuneInString (c # s)) = 1")
    case True
    with assms show ?thesis by (simp add: RuneError_def)
  next
    case False
    with assms Some p obtain b1 s1 where s: "s = b1 # s1" "\<not> Suc (length s) < n" "lo \<le> rune b1" "rune b1 \<le> hi"
      by (cases s) (auto simp: DecodeRuneInString_def not_less split: if_splits)
    consider "n = 2" | "n = 3" | "n = 4" using first by auto
    then show ?thesis
    proof cases
      case 1
      then have "194 \<le> (rune c :: nat)" "(rune c :: nat) \<le> 223"
        using Some p by (auto simp: utf8_first_def split: if_splits)
      then show ?thesis
        using assms Some p s first 1 two_byte_high [of "rune c" "rune b1 mod 64"]
        by (auto simp: DecodeRuneInString_def)
    next
      case 2
      with s obtain b2 s2 where s1: "s1 = b2 # s2" by (cases s1) auto
      show ?thesis
        using assms Some p s s1 first 2 False three_byte_high [of "rune c" lo hi "rune b1" "rune b2 mod 64"]
        by (auto simp: DecodeRuneInString_def utf8_cont_def split: if_splits)
    next
      case 3
      with s obtain b2 s2 where s1: "s1 = b2 # s2" "s2 \<noteq> []" by (cases s1) auto
      then obtain b3 s3 where s2: "s2 = b3 # s3" by (cases s2) auto
      show ?thesis
        using assms Some p s s1 s2 first 3 False
          four_byte_high [of "rune c" lo hi "rune b1" "rune b2 mod 64 * 64 + rune b3 mod 64"]
        by (auto simp: DecodeRuneInString_def utf8_cont_def add.assoc split: if_splits)
    qed
  qed
qed

lemma DecodeRune_low:
  assumes "s \<noteq> []" "fst (DecodeRuneInString s) < 128"
  shows "DecodeRuneInString s = (rune (hd s), 1)"
  using assms DecodeRune_high [of "hd s" "tl s"] DecodeRune_ascii [of "hd s" "tl s"]
  by (cases s) (auto simp: not_less [symmetric] simp del: DecodeRune_ascii)

lemma DecodeRune_width4: "snd (DecodeRuneInString s) \<le> 4"
  by (auto simp: DecodeRuneInString_def split: list.split option.split)

section \<open>Strings of runes\<close>

text \<open>The conversion of a string to its runes.\<close>

function runes :: "string \<Rightarrow> nat list" where
  "runes s = (if s = [] then []
     else fst (DecodeRuneInString s) # runes (drop (snd (DecodeRuneInString s)) s))"
  by auto
termination
  by (relation "measure length") (use DecodeRune_width in \<open>auto simp: Suc_le_eq\<close>)

declare runes.simps [simp del]

definition encodeRunes :: "nat list \<Rightarrow> string" where
  "encodeRunes rs = concat (map encodeRune rs)"

record unicode =
  IsLetter :: "nat \<Rightarrow> bool"
  IsDigit :: "nat \<Rightarrow> bool"
  ToLowerRune :: "nat \<Rightarrow> nat"
  ToUpperRune :: "nat \<Rightarrow> nat"

definition isLower :: "nat \<Rightarrow> bool" where "isLower r \<longleftrightarrow> rune (CHR ''a'') \<le> r \<and> r \<le> rune (CHR ''z'')"

definition isUpper :: "nat \<Rightarrow> bool" where "isUpper r \<longleftrightarrow> rune (CHR ''A'') \<le> r \<and> r \<le> rune (CHR ''Z'')"

definition isDecimal :: "nat \<Rightarrow> bool" where "isDecimal r \<longleftrightarrow> rune (CHR ''0'') \<le> r \<and> r \<le> rune (CHR ''9'')"

text \<open>What the Unicode tables say of ASCII.\<close>

definition ascii_tables :: "unicode \<Rightarrow> bool" where
  "ascii_tables u \<longleftrightarrow> (\<forall>r < 128. IsLetter u r = (isLower r \<or> isUpper r) \<and> IsDigit u r = isDecimal r \<and>
     ToLowerRune u r = (if isUpper r then r + 32 else r) \<and> ToUpperRune u r = (if isLower r then r - 32 else r))"

text \<open>Tables that know ASCII only.\<close>

definition ascii_only :: unicode where
  "ascii_only = \<lparr>IsLetter = (\<lambda>r. isLower r \<or> isUpper r), IsDigit = isDecimal,
     ToLowerRune = (\<lambda>r. if isUpper r then r + 32 else r), ToUpperRune = (\<lambda>r. if isLower r then r - 32 else r)\<rparr>"

lemma ascii_only_tables [simp]: "ascii_tables ascii_only"
  by (simp add: ascii_tables_def ascii_only_def)

definition ToLower :: "unicode \<Rightarrow> string \<Rightarrow> string" where
  "ToLower u s = encodeRunes (map (ToLowerRune u) (runes s))"

definition ToUpper :: "unicode \<Rightarrow> string \<Rightarrow> string" where
  "ToUpper u s = encodeRunes (map (ToUpperRune u) (runes s))"

definition ascii :: "string \<Rightarrow> bool" where
  "ascii s \<longleftrightarrow> (\<forall>c \<in> set s. (rune c :: nat) < 128)"

lemma ascii_simps [simp]:
  "ascii []" "ascii (c # s) \<longleftrightarrow> (rune c :: nat) < 128 \<and> ascii s" "ascii (s @ t) \<longleftrightarrow> ascii s \<and> ascii t"
  by (auto simp: ascii_def)

lemma ascii_drop: "ascii s \<Longrightarrow> ascii (drop n s)"
  by (auto simp: ascii_def dest: in_set_dropD)

lemma runes_ascii: "ascii s \<Longrightarrow> runes s = map rune s"
  by (induction s) (simp_all add: runes.simps)

lemma encode_ascii: "ascii s \<Longrightarrow> encodeRunes (map rune s) = s"
  by (induction s) (simp_all add: encodeRunes_def encodeRune_def)

section \<open>Conversion and replacement\<close>

text \<open>\<open>strconv.Atoi\<close>: an optional sign and decimal digits, within the range of an int.\<close>

definition digitsValue :: "string \<Rightarrow> int option" where
  "digitsValue s = (if s \<noteq> [] \<and> list_all (\<lambda>c. isDecimal (rune c)) s
     then Some (foldl (\<lambda>n c. n * 10 + int (rune c - rune (CHR ''0''))) 0 s) else None)"

definition Atoi :: "string \<Rightarrow> int option" where
  "Atoi s =
     (let v = (case s of
                 [] \<Rightarrow> None
               | c # cs \<Rightarrow> if c = CHR ''-'' then map_option uminus (digitsValue cs)
                           else if c = CHR ''+'' then digitsValue cs else digitsValue s)
      in case v of Some n \<Rightarrow> if - (2 ^ 63) \<le> n \<and> n < 2 ^ 63 then Some n else None | None \<Rightarrow> None)"

text \<open>
  \<open>strings.Replace\<close> with a count, where \<open>None\<close> is a negative count: the leftmost instances that do
  not overlap. An empty old string matches before each rune and at the end.
\<close>

definition count_pred :: "nat option \<Rightarrow> nat option" where
  "count_pred n = map_option (\<lambda>k. k - 1) n"

function replaceFrom :: "nat option \<Rightarrow> string \<Rightarrow> string \<Rightarrow> string \<Rightarrow> string" where
  "replaceFrom n old new s =
     (if n = Some 0 \<or> s = [] \<or> old = [] then s
      else if HasPrefix s old then new @ replaceFrom (count_pred n) old new (drop (length old) s)
      else hd s # replaceFrom n old new (tl s))"
  by auto
termination
  by (relation "measure (\<lambda>(n, old, new, s). length s)") auto

declare replaceFrom.simps [simp del]

function replaceEmpty :: "nat option \<Rightarrow> string \<Rightarrow> string \<Rightarrow> string" where
  "replaceEmpty n new s =
     (if n = Some 0 then s
      else if s = [] then new
      else new @ take (snd (DecodeRuneInString s)) s @
        replaceEmpty (count_pred n) new (drop (snd (DecodeRuneInString s)) s))"
  by auto
termination
  by (relation "measure (\<lambda>(n, new, s). length s)") (use DecodeRune_width in \<open>auto simp: Suc_le_eq\<close>)

declare replaceEmpty.simps [simp del]

definition Replace :: "string \<Rightarrow> string \<Rightarrow> string \<Rightarrow> nat option \<Rightarrow> string" where
  "Replace s old new n = (if old = [] then replaceEmpty n new s else replaceFrom n old new s)"

definition TrimPrefix :: "string \<Rightarrow> string \<Rightarrow> string" where
  "TrimPrefix s p = (if HasPrefix s p then drop (length p) s else s)"

definition TrimSuffix :: "string \<Rightarrow> string \<Rightarrow> string" where
  "TrimSuffix s p = (if HasSuffix s p then take (length s - length p) s else s)"

end
