(* ===== verification/Envsubst_Path.thy ===== *)
theory Envsubst_Path
  imports Go_Utf8
begin

text \<open>
  The glob matcher of \<open>envsubst/path/match.go\<close> and its correctness against a specification of glob
  patterns by their elements. An error result is the left summand; the only error is
  \<open>ErrBadPattern\<close>.
\<close>

section \<open>The matcher\<close>

datatype path_error = ErrBadPattern

definition getEsc :: "string \<Rightarrow> path_error + nat \<times> string" where
  "getEsc chunk =
     (if chunk = [] \<or> hd chunk = CHR ''-'' \<or> hd chunk = CHR '']'' then Inl ErrBadPattern
      else
        let c = (if hd chunk = CHR 0x5C then tl chunk else chunk) in
        if c = [] then Inl ErrBadPattern
        else
          let (r, n) = DecodeRuneInString c in
          if r = RuneError \<and> n = 1 \<or> drop n c = [] then Inl ErrBadPattern
          else Inr (r, drop n c))"

lemma getEsc_shorter: "getEsc chunk = Inr (r, c) \<Longrightarrow> length c < length chunk \<and> c \<noteq> []"
  using DecodeRune_width [of chunk] DecodeRune_width [of "tl chunk"]
  by (cases chunk) (auto simp: getEsc_def Let_def split: if_splits prod.splits)

text \<open>The loop over the ranges of a character class.\<close>

function classLoop :: "nat \<Rightarrow> bool \<Rightarrow> nat \<Rightarrow> string \<Rightarrow> path_error + bool \<times> string" where
  "classLoop r matched nrange chunk =
     (if chunk \<noteq> [] \<and> hd chunk = CHR '']'' \<and> nrange > 0 then Inr (matched, tl chunk)
      else
        (case getEsc chunk of
           Inl e \<Rightarrow> Inl e
         | Inr (lo, c1) \<Rightarrow>
             (case (if hd c1 = CHR ''-'' then getEsc (tl c1) else Inr (lo, c1)) of
                Inl e \<Rightarrow> Inl e
              | Inr (hi, c2) \<Rightarrow> classLoop r (matched \<or> lo \<le> r \<and> r \<le> hi) (nrange + 1) c2)))"
  by pat_completeness auto
termination
proof (relation "measure (\<lambda>(r, m, n, c). length c)", goal_cases)
  case (2 r matched nrange chunk x2 lo c1 x2a hi c2)
  then show ?case
    using getEsc_shorter [of chunk lo c1] getEsc_shorter [of "tl c1" hi c2] by (auto split: if_splits)
qed simp

declare classLoop.simps [simp del]

lemma classLoop_shorter: "classLoop r m n chunk = Inr (b, c) \<Longrightarrow> length c < length chunk"
proof (induction r m n chunk rule: classLoop.induct)
  case (1 r matched nrange chunk)
  show ?case
  proof (cases "chunk \<noteq> [] \<and> hd chunk = CHR '']'' \<and> nrange > 0")
    case True
    with 1(2) show ?thesis by (auto simp: classLoop.simps [of _ _ _ chunk])
  next
    case False
    with 1(2) obtain lo c1 hi c2 where g: "getEsc chunk = Inr (lo, c1)"
      "(if hd c1 = CHR ''-'' then getEsc (tl c1) else Inr (lo, c1)) = Inr (hi, c2)"
      "classLoop r (matched \<or> lo \<le> r \<and> r \<le> hi) (nrange + 1) c2 = Inr (b, c)"
      by (subst (asm) classLoop.simps) (auto split: sum.splits prod.splits if_splits)
    have "length c < length c2" by (rule 1(1) [OF False g(1) refl g(2) refl g(3)])
    also have "length c2 < length chunk"
      using g(2) getEsc_shorter [OF g(1)] getEsc_shorter [of "tl c1" hi c2] by (auto split: if_splits)
    finally show ?thesis .
  qed
qed

function matchChunk :: "string \<Rightarrow> string \<Rightarrow> path_error + string option" where
  "matchChunk chunk s =
     (if chunk = [] then Inr (Some s)
      else if s = [] then Inr None
      else if hd chunk = CHR ''['' then
        (let (r, n) = DecodeRuneInString s;
             c1 = tl chunk;
             negated = (c1 \<noteq> [] \<and> hd c1 = CHR ''^'');
             c2 = (if negated then tl c1 else c1)
         in case classLoop r False 0 c2 of
              Inl e \<Rightarrow> Inl e
            | Inr (matched, c3) \<Rightarrow>
                if matched \<noteq> (\<not> negated) then Inr None else matchChunk c3 (drop n s))
      else if hd chunk = CHR ''?'' then matchChunk (tl chunk) (drop (snd (DecodeRuneInString s)) s)
      else
        (let escaped = (hd chunk = CHR 0x5C); c1 = (if escaped then tl chunk else chunk) in
         if c1 = [] then Inl ErrBadPattern
         else if hd c1 \<noteq> hd s then Inr None
         else matchChunk (tl c1) (tl s)))"
  by pat_completeness auto
termination
proof (relation "measure (\<lambda>(chunk, s). length chunk)", goal_cases)
  case (2 chunk s x r n c1 negated c2 x2 matched c3)
  then have "classLoop r False 0 c2 = Inr (matched, c3)" by simp
  from classLoop_shorter [OF this] 2 show ?case by (cases chunk) (auto split: if_splits)
qed (auto split: if_splits simp: length_tl)

declare matchChunk.simps [simp del]

text \<open>The scan for the next star outside a character class.\<close>

fun scanBody :: "bool \<Rightarrow> string \<Rightarrow> string \<times> string" where
  "scanBody inrange [] = ([], [])"
| "scanBody inrange (c # cs) =
     (if c = CHR 0x5C then
        (case cs of
           [] \<Rightarrow> ([c], [])
         | d # ds \<Rightarrow> let (a, b) = scanBody inrange ds in (c # d # a, b))
      else if c = CHR ''*'' \<and> \<not> inrange then ([], c # cs)
      else
        let (a, b) = scanBody (if c = CHR ''['' then True else if c = CHR '']'' then False else inrange) cs
        in (c # a, b))"

definition scanChunk :: "string \<Rightarrow> bool \<times> string \<times> string" where
  "scanChunk pattern =
     (let star = (pattern \<noteq> [] \<and> hd pattern = CHR ''*'') in
      (star, scanBody False (dropWhile (\<lambda>c. c = CHR ''*'') pattern)))"

text \<open>The loop that looks for a match of the chunk after skipping bytes.\<close>

fun skipLoop :: "string \<Rightarrow> bool \<Rightarrow> string \<Rightarrow> path_error + string option" where
  "skipLoop chunk lastChunk [] = Inr None"
| "skipLoop chunk lastChunk (_ # name) =
     (case matchChunk chunk name of
        Inl e \<Rightarrow> Inl e
      | Inr (Some t) \<Rightarrow>
          if lastChunk \<and> t \<noteq> [] then skipLoop chunk lastChunk name else Inr (Some t)
      | Inr None \<Rightarrow> skipLoop chunk lastChunk name)"

lemma scanBody_append: "scanBody b p = (a, r) \<Longrightarrow> p = a @ r"
proof (induction b p arbitrary: a rule: scanBody.induct)
  case (2 inrange c cs)
  then show ?case by (auto split: if_splits list.splits prod.splits)
qed simp

lemma scanChunk_shorter:
  assumes "scanChunk p = (star, chunk, rest)" "p \<noteq> []"
  shows "length rest < length p"
proof -
  let ?q = "dropWhile (\<lambda>c. c = CHR ''*'') p"
  have q: "scanBody False ?q = (chunk, rest)" and star: "star = (hd p = CHR ''*'')"
    using assms by (auto simp: scanChunk_def Let_def)
  have "length rest \<le> length ?q" using scanBody_append [OF q] by simp
  show ?thesis
  proof (cases "hd p = CHR ''*''")
    case True
    then have "length ?q < length p"
      using assms(2) by (cases p) (auto simp: le_imp_less_Suc [OF length_dropWhile_le])
    with \<open>length rest \<le> length ?q\<close> show ?thesis by simp
  next
    case False
    then have "?q = p" using assms(2) by (cases p) auto
    moreover from this False q have "chunk \<noteq> []"
      using assms(2) by (cases p) (auto split: if_splits list.splits prod.splits)
    moreover have "?q = chunk @ rest" by (rule scanBody_append [OF q])
    ultimately show ?thesis by (metis length_append length_greater_0_conv less_add_same_cancel2)
  qed
qed

function Match :: "string \<Rightarrow> string \<Rightarrow> path_error + bool" where
  "Match pattern name =
     (if pattern = [] then Inr (name = [])
      else
        let (star, chunk, rest) = scanChunk pattern in
        if star \<and> chunk = [] then Inr True
        else
          (case matchChunk chunk name of
             Inl e \<Rightarrow> Inl e
           | Inr t \<Rightarrow>
               if t \<noteq> None \<and> (the t = [] \<or> rest \<noteq> []) then Match rest (the t)
               else if star then
                 (case skipLoop chunk (rest = []) name of
                    Inl e \<Rightarrow> Inl e
                  | Inr None \<Rightarrow> Inr False
                  | Inr (Some u) \<Rightarrow> Match rest u)
               else Inr False))"
  by pat_completeness auto
termination
  by (relation "measure (\<lambda>(p, n). length p)") (auto dest!: scanChunk_shorter [OF sym])

declare Match.simps [simp del]

section \<open>Specification\<close>

text \<open>
  A pattern as a list of elements, each character plain or escaped. Printing an element gives its
  syntax; a well-formed element escapes the characters that the syntax reserves.
\<close>

datatype gchar = GChar (gescaped: bool) (gval: char)

datatype grange = GSingle gchar | GRange gchar gchar

datatype glob = GLit gchar | GAny | GClass bool "grange list" | GStar

definition render_char :: "gchar \<Rightarrow> string" where
  "render_char c = (if gescaped c then [CHR 0x5C, gval c] else [gval c])"

fun render_range :: "grange \<Rightarrow> string" where
  "render_range (GSingle c) = render_char c"
| "render_range (GRange a b) = render_char a @ CHR ''-'' # render_char b"

fun render_glob :: "glob \<Rightarrow> string" where
  "render_glob (GLit c) = render_char c"
| "render_glob GAny = ''?''"
| "render_glob (GClass neg rs) = ''['' @ (if neg then ''^'' else []) @ concat (map render_range rs) @ '']''"
| "render_glob GStar = ''*''"

definition render_globs :: "glob list \<Rightarrow> string" where
  "render_globs ps = concat (map render_glob ps)"

definition class_char_ok :: "gchar \<Rightarrow> bool" where
  "class_char_ok c \<longleftrightarrow> rune (gval c) < (128 :: nat) \<and> (gescaped c \<or> gval c \<notin> {CHR 0x5C, CHR ''-'', CHR '']'', CHR ''^''})"

fun range_ok :: "grange \<Rightarrow> bool" where
  "range_ok (GSingle c) = class_char_ok c"
| "range_ok (GRange a b) = (class_char_ok a \<and> class_char_ok b)"

fun glob_ok :: "glob \<Rightarrow> bool" where
  "glob_ok (GLit c) = (gescaped c \<or> gval c \<notin> {CHR ''*'', CHR ''?'', CHR 0x5C, CHR ''[''})"
| "glob_ok (GClass neg rs) = (rs \<noteq> [] \<and> list_all range_ok rs)"
| "glob_ok _ = True"

fun in_range :: "char \<Rightarrow> grange \<Rightarrow> bool" where
  "in_range c (GSingle a) = (c = gval a)"
| "in_range c (GRange a b) = (rune (gval a) \<le> (rune c :: nat) \<and> rune c \<le> (rune (gval b) :: nat))"

fun accepts :: "glob \<Rightarrow> char \<Rightarrow> bool" where
  "accepts (GLit a) c = (gval a = c)"
| "accepts GAny c = True"
| "accepts (GClass neg rs) c = (list_ex (in_range c) rs \<noteq> neg)"
| "accepts GStar c = True"

fun glob_matches :: "glob list \<Rightarrow> string \<Rightarrow> bool" where
  "glob_matches [] s = (s = [])"
| "glob_matches (g # ps) s =
     (if g = GStar then list_ex (\<lambda>i. glob_matches ps (drop i s)) [0..<Suc (length s)]
      else (case s of [] \<Rightarrow> False | c # t \<Rightarrow> accepts g c \<and> glob_matches ps t))"

section \<open>Correctness\<close>

definition plain :: "glob list \<Rightarrow> bool" where
  "plain ps \<longleftrightarrow> GStar \<notin> set ps \<and> list_all glob_ok ps"

lemma scanBody_class:
  assumes "list_all range_ok rs"
  shows "scanBody True (concat (map render_range rs) @ CHR '']'' # r) =
    (let (a, b) = scanBody False r in (concat (map render_range rs) @ CHR '']'' # a, b))"
proof -
  have char: "class_char_ok c \<Longrightarrow> scanBody True (render_char c @ t) =
      (let (a, b) = scanBody True t in (render_char c @ a, b))" for c t
    by (cases c) (auto simp: class_char_ok_def render_char_def split: prod.split)
  have "range_ok x \<Longrightarrow> scanBody True (render_range x @ t) =
      (let (a, b) = scanBody True t in (render_range x @ a, b))" for x t
    by (cases x) (auto simp: char Let_def split: prod.splits)
  with assms show ?thesis
    by (induction rs) (auto simp: Let_def split: prod.splits)
qed

lemma scanBody_plain:
  assumes "plain ps" "r = [] \<or> hd r = CHR ''*''"
  shows "scanBody False (render_globs ps @ r) = (render_globs ps, r)"
  using assms(1)
proof (induction ps)
  case Nil
  with assms(2) show ?case by (cases r) (auto simp: render_globs_def)
next
  case (Cons g ps)
  then have IH: "scanBody False (render_globs ps @ r) = (render_globs ps, r)" by (simp add: plain_def)
  have g: "glob_ok g" "g \<noteq> GStar" using Cons.prems by (auto simp: plain_def)
  have "scanBody False (render_glob g @ t) = (let (a, b) = scanBody False t in (render_glob g @ a, b))" for t
    using g
    by (cases g rule: render_glob.cases)
      (auto simp: render_char_def scanBody_class split: prod.split if_splits)
  with IH show ?case by (simp add: render_globs_def)
qed

lemma getEsc_char: "class_char_ok a \<Longrightarrow> t \<noteq> [] \<Longrightarrow> getEsc (render_char a @ t) = Inr (rune (gval a), t)"
  by (cases a) (auto simp: getEsc_def render_char_def class_char_ok_def RuneError_def)

definition class_rest :: "grange list \<Rightarrow> string \<Rightarrow> string" where
  "class_rest rs r = concat (map render_range rs) @ CHR '']'' # r"

lemma class_rest_simps:
  "class_rest [] r = CHR '']'' # r" "class_rest (x # rs) r = render_range x @ class_rest rs r"
  "class_rest rs r \<noteq> []"
  by (simp_all add: class_rest_def)

lemma hd_render_char: "class_char_ok a \<Longrightarrow> hd (render_char a @ t) \<notin> {CHR ''-'', CHR '']'', CHR ''^''}"
  by (cases a) (auto simp: render_char_def class_char_ok_def)

lemma render_char_ne [simp]: "render_char a \<noteq> []"
  by (simp add: render_char_def)

lemma hd_class_rest:
  "list_all range_ok rs \<Longrightarrow> hd (class_rest rs r) \<noteq> CHR ''-'' \<and> (rs \<noteq> [] \<longrightarrow> hd (class_rest rs r) \<notin> {CHR ''^'', CHR '']''})"
proof (cases rs)
  case (Cons x xs)
  assume "list_all range_ok rs"
  with Cons hd_render_char show ?thesis
    by (cases x) (auto simp: class_rest_simps)
qed (simp add: class_rest_simps)

lemma classLoop_ranges:
  assumes "list_all range_ok rs" "rs \<noteq> [] \<or> n > 0"
  shows "classLoop (rune c) m n (class_rest rs r) = Inr (m \<or> list_ex (in_range c) rs, r)"
  using assms
proof (induction rs arbitrary: m n)
  case Nil
  then show ?case by (simp add: classLoop.simps class_rest_simps)
next
  case (Cons x rs)
  then have ok: "range_ok x" "list_all range_ok rs" by simp_all
  note IH = Cons.IH [OF ok(2), of "Suc n", simplified]
  have hd: "hd (class_rest rs r) \<noteq> CHR ''-''" using hd_class_rest [OF ok(2)] by blast
  show ?case
  proof (cases x)
    case (GSingle a)
    with ok have a: "class_char_ok a" by simp
    then have "getEsc (render_char a @ class_rest rs r) = Inr (rune (gval a), class_rest rs r)"
      by (rule getEsc_char) (simp add: class_rest_simps)
    moreover have "hd (render_char a @ class_rest rs r) \<noteq> CHR '']''" using hd_render_char [OF a] by blast
    moreover have "rune (gval a) \<le> (rune c :: nat) \<and> rune c \<le> (rune (gval a) :: nat) \<longleftrightarrow> c = gval a"
      by (metis antisym of_char_eq_iff order_refl)
    ultimately show ?thesis using IH hd GSingle
      by (subst classLoop.simps) (simp add: class_rest_simps disj_assoc)
  next
    case (GRange a b)
    with ok have ab: "class_char_ok a" "class_char_ok b" by simp_all
    have "getEsc (render_char a @ CHR ''-'' # render_char b @ class_rest rs r) =
        Inr (rune (gval a), CHR ''-'' # render_char b @ class_rest rs r)"
      by (rule getEsc_char [OF ab(1)]) simp
    moreover have "getEsc (render_char b @ class_rest rs r) = Inr (rune (gval b), class_rest rs r)"
      by (rule getEsc_char [OF ab(2)]) (simp add: class_rest_simps)
    moreover have "hd (render_char a @ CHR ''-'' # render_char b @ class_rest rs r) \<noteq> CHR '']''"
      using hd_render_char [OF ab(1)] by blast
    ultimately show ?thesis using IH GRange
      by (subst classLoop.simps) (simp add: class_rest_simps disj_assoc)
  qed
qed

fun matchPlain :: "glob list \<Rightarrow> string \<Rightarrow> string option" where
  "matchPlain [] s = Some s"
| "matchPlain (g # ps) [] = None"
| "matchPlain (g # ps) (c # s) = (if accepts g c then matchPlain ps s else None)"

lemma render_glob_ne [simp]: "render_glob g \<noteq> []"
  by (cases g) simp_all

lemma matchChunk_glob:
  assumes "glob_ok g" "g \<noteq> GStar" "rune c < (128 :: nat)"
  shows "matchChunk (render_glob g @ r) (c # s) = (if accepts g c then matchChunk r s else Inr None)"
proof (cases g)
  case (GLit a)
  with assms show ?thesis
    by (subst matchChunk.simps) (auto simp: render_char_def)
next
  case GAny
  with assms show ?thesis by (subst matchChunk.simps) auto
next
  case (GClass neg rs)
  with assms have rs: "list_all range_ok rs" "rs \<noteq> []" by simp_all
  have r: "render_glob g @ r = CHR ''['' # (if neg then [CHR ''^''] else []) @ class_rest rs r"
    by (simp add: GClass class_rest_def)
  have "hd (class_rest rs r) \<noteq> CHR ''^''" using hd_class_rest [OF rs(1)] rs(2) by blast
  then show ?thesis
    using classLoop_ranges [OF rs(1), of 0 c False r] rs(2) assms(3) unfolding r
    by (subst matchChunk.simps) (auto simp: GClass class_rest_simps)
qed (use assms in simp)

lemma matchChunk_plain:
  assumes "plain ps" "ascii s"
  shows "matchChunk (render_globs ps) s = Inr (matchPlain ps s)"
  using assms
proof (induction ps s rule: matchPlain.induct)
  case (1 s)
  then show ?case by (simp add: render_globs_def matchChunk.simps)
next
  case (2 g ps)
  then show ?case by (simp add: render_globs_def matchChunk.simps)
next
  case (3 g ps c s)
  then have "glob_ok g" "g \<noteq> GStar" "plain ps" "rune c < (128 :: nat)" "ascii s" by (auto simp: plain_def)
  with 3(1) show ?case
    using matchChunk_glob [of g c "render_globs ps" s] by (simp add: render_globs_def)
qed

lemma matchPlain_drop: "matchPlain ps s = Some t \<Longrightarrow> t = drop (length ps) s \<and> length ps \<le> length s"
  by (induction ps s rule: matchPlain.induct) (auto split: if_splits)

lemma glob_matches_plain:
  "plain ps \<Longrightarrow> glob_matches (ps @ qs) s \<longleftrightarrow> (\<exists>t. matchPlain ps s = Some t \<and> glob_matches qs t)"
  by (induction ps s rule: matchPlain.induct) (auto simp: plain_def)

lemma glob_matches_star: "glob_matches (GStar # qs) s \<longleftrightarrow> (\<exists>i \<le> length s. glob_matches qs (drop i s))"
  by (auto simp: list_ex_iff less_Suc_eq_le simp del: upt_Suc)

lemma glob_matches_star_drop: "glob_matches (GStar # qs) (drop n s) \<Longrightarrow> glob_matches (GStar # qs) s"
  unfolding glob_matches_star by (cases "n \<le> length s") (force intro: exI [of _ "_ + n"])+

lemma glob_matches_star_star: "glob_matches (GStar # GStar # qs) s \<longleftrightarrow> glob_matches (GStar # qs) s"
  using glob_matches_star [of "GStar # qs" s] glob_matches_star_drop by (metis drop0 le0)

lemma glob_matches_stars: "glob_matches (GStar # dropWhile (\<lambda>g. g = GStar) ps) s \<longleftrightarrow> glob_matches (GStar # ps) s"
  by (induction ps) (auto simp: glob_matches_star_star simp del: glob_matches.simps)

text \<open>A place where the chunk fits: to the end of the name when it is the last one.\<close>

definition fits :: "glob list \<Rightarrow> bool \<Rightarrow> string \<Rightarrow> bool" where
  "fits ps lastChunk s = (case matchPlain ps s of None \<Rightarrow> False | Some t \<Rightarrow> lastChunk \<longrightarrow> t = [])"

lemma skipLoop_plain:
  assumes "plain ps" "ascii s"
  shows "skipLoop (render_globs ps) lastChunk s =
    Inr (case List.find (fits ps lastChunk) (map (\<lambda>i. drop (Suc i) s) [0..<length s]) of
      None \<Rightarrow> None | Some u \<Rightarrow> matchPlain ps u)"
  using assms(2)
proof (induction s)
  case (Cons c s)
  have "map (\<lambda>i. drop (Suc i) (c # s)) [0..<length (c # s)] = s # map (\<lambda>i. drop (Suc i) s) [0..<length s]"
    by (simp add: upt_conv_Cons map_Suc_upt [symmetric] comp_def del: upt_Suc)
  with Cons matchChunk_plain [OF assms(1), of s] show ?case
    by (cases "matchPlain ps s") (auto simp: fits_def)
qed simp

lemma scanChunk_render:
  assumes "list_all glob_ok pat" "pat \<noteq> []"
    and "q = dropWhile (\<lambda>g. g = GStar) pat"
  shows "scanChunk (render_globs pat) =
    (hd pat = GStar, render_globs (takeWhile (\<lambda>g. g \<noteq> GStar) q), render_globs (dropWhile (\<lambda>g. g \<noteq> GStar) q))"
proof -
  let ?star = "\<lambda>c. c = CHR ''*''"
  have hd_star: "glob_ok g \<Longrightarrow> hd (render_glob g) = CHR ''*'' \<longleftrightarrow> g = GStar" for g
    by (cases g) (auto simp: render_char_def)
  have hd_pat: "hd (render_globs pat) = CHR ''*'' \<longleftrightarrow> hd pat = GStar" if "list_all glob_ok pat" "pat \<noteq> []" for pat
    using that by (cases pat) (auto simp: render_globs_def hd_star)
  have ne: "render_globs pat \<noteq> [] \<longleftrightarrow> pat \<noteq> []" for pat
    by (cases pat) (auto simp: render_globs_def)
  have dW: "dropWhile ?star (render_globs pat) = render_globs (dropWhile (\<lambda>g. g = GStar) pat)"
    if "list_all glob_ok pat" for pat
    using that
  proof (induction pat)
    case (Cons g gs)
    show ?case
    proof (cases "g = GStar")
      case True
      with Cons show ?thesis by (simp add: render_globs_def)
    next
      case False
      then have "hd (render_globs (g # gs)) \<noteq> CHR ''*''" using hd_pat [of "g # gs"] Cons.prems by simp
      then have "dropWhile ?star (render_globs (g # gs)) = render_globs (g # gs)"
        by (cases "render_globs (g # gs)") auto
      with False show ?thesis by simp
    qed
  qed (simp add: render_globs_def)
  have q_ok: "list_all glob_ok q" using assms(1,3) by (auto simp: list_all_iff dest: set_dropWhileD)
  have "plain (takeWhile (\<lambda>g. g \<noteq> GStar) q)"
    using q_ok by (auto simp: plain_def list_all_iff dest: set_takeWhileD)
  moreover have "render_globs q = render_globs (takeWhile (\<lambda>g. g \<noteq> GStar) q) @ render_globs (dropWhile (\<lambda>g. g \<noteq> GStar) q)"
    unfolding render_globs_def by (metis concat_append map_append takeWhile_dropWhile_id)
  moreover have "render_globs (dropWhile (\<lambda>g. g \<noteq> GStar) q) = [] \<or>
      hd (render_globs (dropWhile (\<lambda>g. g \<noteq> GStar) q)) = CHR ''*''"
    using hd_dropWhile [of "\<lambda>g. g \<noteq> GStar" q]
    by (cases "dropWhile (\<lambda>g. g \<noteq> GStar) q") (auto simp: render_globs_def)
  ultimately have "scanBody False (render_globs q) =
      (render_globs (takeWhile (\<lambda>g. g \<noteq> GStar) q), render_globs (dropWhile (\<lambda>g. g \<noteq> GStar) q))"
    using scanBody_plain by simp
  then show ?thesis
    using hd_pat [OF assms(1,2)] ne [of pat] assms(2,3) dW [OF assms(1)] by (simp add: scanChunk_def)
qed

text \<open>The first place where a chunk fits decides: what follows starts with a star or is nothing.\<close>

lemma first_fit:
  assumes "plain ps" "qs = [] \<or> hd qs = GStar" "k \<le> length s" "matchPlain ps (drop k s) = Some t"
    and "fits ps (qs = []) (drop k s)" "\<forall>j < k. \<not> fits ps (qs = []) (drop j s)"
  shows "glob_matches (GStar # ps @ qs) s \<longleftrightarrow> glob_matches qs t"
proof
  assume "glob_matches qs t"
  then show "glob_matches (GStar # ps @ qs) s"
    unfolding glob_matches_star glob_matches_plain [OF assms(1)] using assms(3,4) by blast
next
  assume "glob_matches (GStar # ps @ qs) s"
  then obtain i t' where i: "matchPlain ps (drop i s) = Some t'" "glob_matches qs t'"
    unfolding glob_matches_star glob_matches_plain [OF assms(1)] by blast
  show "glob_matches qs t"
  proof (cases qs)
    case Nil
    with assms(4,5) show ?thesis by (simp add: fits_def)
  next
    case (Cons g qs')
    with assms(2) have g: "qs = GStar # qs'" by simp
    with i have "fits ps (qs = []) (drop i s)" by (simp add: fits_def)
    with assms(6) have "k \<le> i" by (meson not_less)
    then have "t' = drop (i - k) t"
      using matchPlain_drop [OF i(1)] matchPlain_drop [OF assms(4)] by (simp add: add.commute)
    with i(2) g show ?thesis using glob_matches_star_drop by blast
  qed
qed

lemma no_fit:
  assumes "plain ps" "\<forall>j \<le> length s. \<not> fits ps (qs = []) (drop j s)"
  shows "\<not> glob_matches (GStar # ps @ qs) s"
  using assms(2) unfolding glob_matches_star glob_matches_plain [OF assms(1)]
  by (auto simp: fits_def split: option.splits)

lemma skip_fit:
  assumes "plain ps" "qs = [] \<or> hd qs = GStar" "\<not> fits ps (qs = []) s"
  shows "(case List.find (fits ps (qs = [])) (map (\<lambda>i. drop (Suc i) s) [0..<length s]) of
      None \<Rightarrow> \<not> glob_matches (GStar # ps @ qs) s
    | Some u \<Rightarrow> \<exists>t. matchPlain ps u = Some t \<and> (\<exists>n. t = drop n s) \<and>
        glob_matches (GStar # ps @ qs) s = glob_matches qs t)"
proof (cases "List.find (fits ps (qs = [])) (map (\<lambda>i. drop (Suc i) s) [0..<length s])")
  case None
  then have "\<not> fits ps (qs = []) (drop (Suc j) s)" if "j < length s" for j
    using that by (auto simp: find_None_iff)
  with assms(3) have "\<forall>j \<le> length s. \<not> fits ps (qs = []) (drop j s)"
    by (metis Suc_le_eq drop0 not0_implies_Suc)
  with no_fit [OF assms(1)] None show ?thesis by simp
next
  case (Some u)
  then obtain i where i: "i < length s" "u = drop (Suc i) s" "fits ps (qs = []) u"
    "\<forall>j < i. \<not> fits ps (qs = []) (drop (Suc j) s)"
    by (auto simp: find_Some_iff)
  then obtain t where t: "matchPlain ps u = Some t" by (auto simp: fits_def split: option.splits)
  have "\<forall>j < Suc i. \<not> fits ps (qs = []) (drop j s)"
    using i(4) assms(3) by (metis Suc_less_eq drop0 not0_implies_Suc)
  then have "glob_matches (GStar # ps @ qs) s = glob_matches qs t"
    using first_fit [OF assms(1,2), of "Suc i" s t] i t by simp
  moreover have "t = drop (length ps + Suc i) s" using matchPlain_drop [OF t] i(2) by simp
  ultimately show ?thesis using Some t by auto
qed

text \<open>The pattern is cut at its first star after the leading ones.\<close>

definition chunk_of :: "glob list \<Rightarrow> glob list" where
  "chunk_of pat = takeWhile (\<lambda>g. g \<noteq> GStar) (dropWhile (\<lambda>g. g = GStar) pat)"

definition after_chunk :: "glob list \<Rightarrow> glob list" where
  "after_chunk pat = dropWhile (\<lambda>g. g \<noteq> GStar) (dropWhile (\<lambda>g. g = GStar) pat)"

lemma chunk_append: "chunk_of pat @ after_chunk pat = dropWhile (\<lambda>g. g = GStar) pat"
  by (simp add: chunk_of_def after_chunk_def)

lemma chunk_plain: "list_all glob_ok pat \<Longrightarrow> plain (chunk_of pat)"
  by (auto simp: plain_def chunk_of_def list_all_iff dest!: set_takeWhileD set_dropWhileD)

lemma after_chunk_star: "after_chunk pat = [] \<or> hd (after_chunk pat) = GStar"
  unfolding after_chunk_def using hd_dropWhile by blast

lemma after_chunk_empty: "chunk_of pat = [] \<Longrightarrow> after_chunk pat = []"
proof (cases "dropWhile (\<lambda>g. g = GStar) pat")
  case Nil
  show ?thesis unfolding after_chunk_def Nil by simp
next
  case (Cons x xs)
  moreover from this have "x \<noteq> GStar" by (auto simp: dropWhile_eq_Cons_conv)
  moreover assume "chunk_of pat = []"
  ultimately show ?thesis by (simp add: chunk_of_def)
qed

lemma after_chunk_ok: "list_all glob_ok pat \<Longrightarrow> list_all glob_ok (after_chunk pat)"
  by (auto simp: after_chunk_def list_all_iff dest!: set_dropWhileD)

lemma after_chunk_shorter: "pat \<noteq> [] \<Longrightarrow> length (after_chunk pat) < length pat"
  by (cases pat)
    (auto simp: after_chunk_def less_Suc_eq_le intro: order_trans [OF length_dropWhile_le] length_dropWhile_le)

lemma glob_matches_cut:
  assumes "pat \<noteq> []"
  shows "glob_matches pat s =
    glob_matches ((if hd pat = GStar then [GStar] else []) @ chunk_of pat @ after_chunk pat) s"
  using glob_matches_stars [of "tl pat" s] assms unfolding chunk_append
  by (cases pat) (auto simp del: glob_matches.simps)

lemma render_globs_empty [simp]: "render_globs ps = [] \<longleftrightarrow> ps = []"
  by (cases ps) (auto simp: render_globs_def)

lemma Match_step:
  assumes "list_all glob_ok pat" "pat \<noteq> []" "ascii s"
  shows "Match (render_globs pat) s =
    (if hd pat = GStar \<and> chunk_of pat = [] then Inr True
     else if fits (chunk_of pat) (after_chunk pat = []) s
       then Match (render_globs (after_chunk pat)) (the (matchPlain (chunk_of pat) s))
     else if hd pat = GStar then
       (case skipLoop (render_globs (chunk_of pat)) (after_chunk pat = []) s of
          Inl e \<Rightarrow> Inl e | Inr None \<Rightarrow> Inr False | Inr (Some u) \<Rightarrow> Match (render_globs (after_chunk pat)) u)
     else Inr False)"
proof -
  have scan: "scanChunk (render_globs pat) = (hd pat = GStar, render_globs (chunk_of pat), render_globs (after_chunk pat))"
    unfolding chunk_of_def after_chunk_def by (rule scanChunk_render [OF assms(1,2) refl])
  have "fits (chunk_of pat) (after_chunk pat = []) s \<longleftrightarrow> matchPlain (chunk_of pat) s \<noteq> None \<and>
      (the (matchPlain (chunk_of pat) s) = [] \<or> after_chunk pat \<noteq> [])"
    by (auto simp: fits_def split: option.splits)
  with assms(2) show ?thesis
    unfolding Match.simps [of "render_globs pat" s] scan prod.case Let_def
      matchChunk_plain [OF chunk_plain [OF assms(1)] assms(3)] sum.case render_globs_empty
    by simp
qed

lemma Match_render:
  "list_all glob_ok pat \<Longrightarrow> ascii s \<Longrightarrow> Match (render_globs pat) s = Inr (glob_matches pat s)"
proof (induction pat arbitrary: s rule: measure_induct_rule [of length])
  case (less pat)
  show ?case
  proof (cases "pat = []")
    case True
    then show ?thesis by (simp add: render_globs_def Match.simps)
  next
    case False
    let ?ps = "chunk_of pat" and ?qs = "after_chunk pat"
    note ps = chunk_plain [OF less.prems(1)] and qs = after_chunk_star [of pat]
    note IH = less.IH [OF after_chunk_shorter [OF False] after_chunk_ok [OF less.prems(1)]]
    note step = Match_step [OF less.prems(1) False less.prems(2)] and cut = glob_matches_cut [OF False, of s]
    consider (empty) "hd pat = GStar" "?ps = []" | (here) "\<not> (hd pat = GStar \<and> ?ps = [])" "fits ?ps (?qs = []) s"
      | (skip) "hd pat = GStar" "?ps \<noteq> []" "\<not> fits ?ps (?qs = []) s" | (fail) "hd pat \<noteq> GStar" "\<not> fits ?ps (?qs = []) s"
      by blast
    then show ?thesis
    proof cases
      case empty
      have "?qs = []" by (rule after_chunk_empty [OF empty(2)])
      then have "glob_matches (GStar # ?ps @ ?qs) s"
        using empty unfolding glob_matches_star by (intro exI [of _ "length s"]) simp
      with empty cut show ?thesis by (simp add: step del: glob_matches.simps)
    next
      case here
      then obtain t where t: "matchPlain ?ps s = Some t" by (auto simp: fits_def split: option.splits)
      have "ascii t" using matchPlain_drop [OF t] less.prems(2) by (simp add: ascii_drop)
      moreover have "glob_matches pat s = glob_matches ?qs t"
        using cut first_fit [OF ps qs, of 0 s t] glob_matches_plain [OF ps, of ?qs s] t here
        by (cases "hd pat = GStar") (simp_all del: glob_matches.simps)
      moreover have "Match (render_globs pat) s = Match (render_globs ?qs) t" using here t by (auto simp: step)
      ultimately show ?thesis using IH by simp
    next
      case skip
      note S = skipLoop_plain [OF ps less.prems(2), of "?qs = []"] skip_fit [OF ps qs skip(3)]
      have m: "glob_matches pat s = glob_matches (GStar # ?ps @ ?qs) s" using cut skip(1) by simp
      show ?thesis
      proof (cases "List.find (fits ?ps (?qs = [])) (map (\<lambda>i. drop (Suc i) s) [0..<length s])")
        case None
        with S m skip show ?thesis by (simp add: step del: glob_matches.simps)
      next
        case (Some u)
        with S(2) obtain t k where t: "matchPlain ?ps u = Some t" "t = drop k s"
          "glob_matches (GStar # ?ps @ ?qs) s = glob_matches ?qs t" by auto
        have "ascii t" using t(2) less.prems(2) by (simp add: ascii_drop)
        with Some S(1) m skip t(1,3) IH show ?thesis by (simp add: step del: glob_matches.simps)
      qed
    next
      case fail
      then have "\<not> glob_matches pat s"
        using cut glob_matches_plain [OF ps, of ?qs s] by (auto simp: fits_def split: option.splits)
      with fail show ?thesis by (simp add: step)
    qed
  qed
qed

section \<open>Property\<close>



end
