(* ===== verification/Envsubst_Scan.thy ===== *)
theory Envsubst_Scan
  imports Go_Utf8 "HOL-Library.Word"
begin

text \<open>
  The lexical scanner of \<open>envsubst/parse/scan.go\<close>: a buffer with positions, mode bits and an
  accept function, each operation a function of the scanner state. The Unicode tables
  are the parameter of \<open>acceptIdent\<close>. As in the code, the end of the input is the rune 0.
\<close>

unbundle bit_operations_syntax

section \<open>State\<close>

definition eof :: nat where "eof = 0"

datatype token = tokenIllegal | tokenEOF | tokenIdent | tokenLbrack | tokenRbrack | tokenQuote

definition mode_scanIdent :: "8 word" where "mode_scanIdent = 1"

definition mode_scanLbrack :: "8 word" where "mode_scanLbrack = 2"

definition mode_scanRbrack :: "8 word" where "mode_scanRbrack = 4"

definition mode_scanEscape :: "8 word" where "mode_scanEscape = 8"

definition dollar :: "8 word" where "dollar = 1"

definition backslash :: "8 word" where "backslash = 2"

definition escapeAll :: "8 word" where "escapeAll = dollar OR backslash"

record scanner =
  buf :: string
  pos :: nat
  start :: nat
  width :: nat
  smode :: "8 word"
  escapeChars :: "8 word"
  accept :: "nat \<Rightarrow> nat \<Rightarrow> bool"

definition scanner_init :: "string \<Rightarrow> scanner" where
  "scanner_init b = \<lparr>buf = b, pos = 0, start = 0, width = 0, smode = 0, escapeChars = 0,
     accept = (\<lambda>_ _. False)\<rparr>"

section \<open>Operations\<close>

definition scanner_read :: "scanner \<Rightarrow> nat \<times> scanner" where
  "scanner_read s =
     (if length (buf s) \<le> pos s then (eof, s\<lparr>width := 0\<rparr>)
      else let (r, w) = DecodeRuneInString (drop (pos s) (buf s))
           in (r, s\<lparr>width := w, pos := pos s + w\<rparr>))"

definition unread :: "scanner \<Rightarrow> scanner" where
  "unread s = s\<lparr>pos := pos s - width s\<rparr>"

definition skip :: "scanner \<Rightarrow> scanner" where
  "skip s = s\<lparr>buf := take (pos s - 1) (buf s) @ drop (pos s) (buf s)\<rparr>"

definition peek :: "scanner \<Rightarrow> nat \<times> scanner" where
  "peek s = (let (r, s1) = scanner_read s in (r, unread s1))"

definition scanner_string :: "scanner \<Rightarrow> string" where
  "scanner_string s = take (pos s - start s) (drop (start s) (buf s))"

definition shouldEscape :: "scanner \<Rightarrow> 8 word \<Rightarrow> bool" where
  "shouldEscape s c \<longleftrightarrow> escapeChars s AND c \<noteq> 0"

definition scanLbrack :: "nat \<Rightarrow> scanner \<Rightarrow> bool \<times> scanner" where
  "scanLbrack r s =
     (if smode s AND mode_scanLbrack = 0 then (False, s)
      else if r = rune (CHR ''$'') then
        let (q, s1) = scanner_read s in
        if q = rune (CHR ''{'') then (True, s1) else (False, unread s1)
      else (False, s))"

definition scanRbrack :: "nat \<Rightarrow> scanner \<Rightarrow> bool" where
  "scanRbrack r s \<longleftrightarrow> smode s AND mode_scanRbrack \<noteq> 0 \<and> r = rune (CHR ''}'')"

definition scanEscaped :: "nat \<Rightarrow> scanner \<Rightarrow> bool \<times> scanner" where
  "scanEscaped r s =
     (if smode s AND mode_scanEscape = 0 then (False, s)
      else if r = rune (CHR ''$'') \<and> shouldEscape s dollar then
        let (q, s1) = peek s in (q = rune (CHR ''$''), s1)
      else if r = rune (CHR 0x5C) \<and> shouldEscape s backslash then
        let (q, s1) = peek s in (q \<in> {rune (CHR ''/''), rune (CHR 0x5C)}, s1)
      else (False, s))"

text \<open>What the sub-scanners may change.\<close>

lemma read_at_end: "length (buf s) \<le> pos s \<Longrightarrow> scanner_read s = (eof, s\<lparr>width := 0\<rparr>)"
  by (simp add: scanner_read_def)

lemma read_not_eof:
  assumes "scanner_read s = (r, s1)" "r \<noteq> eof"
  shows "\<exists>w. s1 = s\<lparr>width := w, pos := pos s + w\<rparr> \<and> 1 \<le> w \<and> pos s + w \<le> length (buf s)"
proof -
  have "pos s < length (buf s)" using assms by (auto simp: scanner_read_def split: if_splits)
  then have "drop (pos s) (buf s) \<noteq> []" by simp
  from DecodeRune_width [OF this] \<open>pos s < length (buf s)\<close> assms show ?thesis
    by (auto simp: scanner_read_def split: prod.splits)
qed

lemma read_unread: "scanner_read s = (r, s1) \<Longrightarrow> unread s1 = s\<lparr>width := width s1\<rparr>"
  by (auto simp: scanner_read_def unread_def split: if_splits prod.splits)

lemma width_self [simp]: "s\<lparr>width := width s\<rparr> = s"
  by simp

lemma peek_frame: "peek s = (r, s1) \<Longrightarrow> s1 = s\<lparr>width := width s1\<rparr>"
  by (auto simp: peek_def dest: read_unread split: prod.splits)

lemma scanLbrack_frame: "scanLbrack r s = (False, s1) \<Longrightarrow> s1 = s\<lparr>width := width s1\<rparr>"
  by (auto simp: scanLbrack_def dest: read_unread split: if_splits prod.splits)

lemma scanEscaped_frame: "scanEscaped r s = (b, s1) \<Longrightarrow> s1 = s\<lparr>width := width s1\<rparr>"
  by (auto simp: scanEscaped_def dest: peek_frame split: if_splits prod.splits)

definition remaining :: "scanner \<Rightarrow> nat" where
  "remaining s = length (buf s) - pos s"

lemma remaining_width [simp]: "remaining (s\<lparr>width := w\<rparr>) = remaining s"
  by (simp add: remaining_def)

lemma remaining_skip: "remaining (skip s) \<le> remaining s"
  by (simp add: remaining_def skip_def)

lemma remaining_read:
  "scanner_read s = (r, s1) \<Longrightarrow> r \<noteq> eof \<Longrightarrow> remaining s1 < remaining s"
  using read_not_eof by (fastforce simp: remaining_def)

function scanIdentLoop :: "scanner \<Rightarrow> scanner" where
  "scanIdentLoop s =
     (let (r, s1) = scanner_read s in
      if r = eof then unread s1
      else
        let (lb, s2) = scanLbrack r s1 in
        if lb then unread (unread s2)
        else
          let (esc, s3) = scanEscaped r s2 in
          if esc then scanIdentLoop (skip s3)
          else if \<not> accept s3 r (pos s3 - start s3) then unread s3
          else scanIdentLoop s3)"
  by pat_completeness auto
termination
proof (relation "measure remaining", goal_cases)
  case (2 s x r s1 xa lb s2 xb esc s3)
  then have "remaining s1 < remaining s" by (intro remaining_read [of _ r]) simp_all
  moreover have "remaining s3 = remaining s1"
    using 2 scanLbrack_frame [of r s1 s2] scanEscaped_frame [of r s2 esc s3]
    by (metis remaining_width)
  ultimately show ?case using remaining_skip [of s3] by simp
next
  case (3 s x r s1 xa lb s2 xb esc s3)
  then have "remaining s1 < remaining s" by (intro remaining_read [of _ r]) simp_all
  moreover have "remaining s3 = remaining s1"
    using 3 scanLbrack_frame [of r s1 s2] scanEscaped_frame [of r s2 esc s3]
    by (metis remaining_width)
  ultimately show ?case by simp
qed simp

declare scanIdentLoop.simps [simp del]

definition scanIdent :: "nat \<Rightarrow> scanner \<Rightarrow> bool \<times> scanner" where
  "scanIdent r s =
     (if smode s AND mode_scanIdent = 0 then (False, s)
      else
        let (esc, s1) = scanEscaped r s in
        if esc then (True, scanIdentLoop (skip s1))
        else if \<not> accept s1 r (pos s1 - start s1) then (False, s1)
        else (True, scanIdentLoop s1))"

definition scan :: "scanner \<Rightarrow> token \<times> scanner" where
  "scan s =
     (let (r, s1) = scanner_read (s\<lparr>start := pos s\<rparr>) in
      if r = eof then (tokenEOF, s1)
      else
        let (lb, s2) = scanLbrack r s1 in
        if lb then (tokenLbrack, s2)
        else if scanRbrack r s2 then (tokenRbrack, s2)
        else
          let (ident, s3) = scanIdent r s2 in
          (if ident then tokenIdent else tokenIllegal, s3))"

section \<open>Accept functions\<close>

definition acceptRune :: "nat \<Rightarrow> nat \<Rightarrow> bool" where "acceptRune r i = True"

definition acceptIdent :: "unicode \<Rightarrow> nat \<Rightarrow> nat \<Rightarrow> bool" where
  "acceptIdent u r i \<longleftrightarrow> IsLetter u r \<or> IsDigit u r \<or> r = rune (CHR ''_'')"

definition acceptColon :: "nat \<Rightarrow> nat \<Rightarrow> bool" where "acceptColon r i \<longleftrightarrow> r = rune (CHR '':'')"

definition acceptOneHash :: "nat \<Rightarrow> nat \<Rightarrow> bool" where "acceptOneHash r i \<longleftrightarrow> r = rune (CHR ''#'') \<and> i = 1"

definition acceptNone :: "nat \<Rightarrow> nat \<Rightarrow> bool" where "acceptNone r i = False"

definition acceptNotClosing :: "nat \<Rightarrow> nat \<Rightarrow> bool" where "acceptNotClosing r i \<longleftrightarrow> r \<noteq> rune (CHR ''}'')"

definition acceptHashFunc :: "nat \<Rightarrow> nat \<Rightarrow> bool" where "acceptHashFunc r i \<longleftrightarrow> r = rune (CHR ''#'') \<and> i < 3"

definition acceptPercentFunc :: "nat \<Rightarrow> nat \<Rightarrow> bool" where
  "acceptPercentFunc r i \<longleftrightarrow> r = rune (CHR ''%'') \<and> i < 3"

definition acceptDefaultFunc :: "nat \<Rightarrow> nat \<Rightarrow> bool" where
  "acceptDefaultFunc r i =
     (if i = 1 \<and> r = rune (CHR '':'') then True
      else if i = 2 \<and> (r = rune (CHR ''='') \<or> r = rune (CHR ''-'') \<or> r = rune (CHR ''?'') \<or> r = rune (CHR ''+''))
      then True else False)"

definition acceptReplaceFunc :: "nat \<Rightarrow> nat \<Rightarrow> bool" where
  "acceptReplaceFunc r i =
     (if i = 1 \<and> r = rune (CHR ''/'') then True
      else if i = 2 \<and> (r = rune (CHR ''/'') \<or> r = rune (CHR ''#'') \<or> r = rune (CHR ''%'')) then True
      else False)"

definition acceptOneEqual :: "nat \<Rightarrow> nat \<Rightarrow> bool" where "acceptOneEqual r i \<longleftrightarrow> i = 1 \<and> r = rune (CHR ''='')"

definition acceptOneColon :: "nat \<Rightarrow> nat \<Rightarrow> bool" where "acceptOneColon r i \<longleftrightarrow> i = 1 \<and> r = rune (CHR '':'')"

definition rejectColonClose :: "nat \<Rightarrow> nat \<Rightarrow> bool" where
  "rejectColonClose r i \<longleftrightarrow> r \<noteq> rune (CHR '':'') \<and> r \<noteq> rune (CHR ''}'')"

definition acceptSlash :: "nat \<Rightarrow> nat \<Rightarrow> bool" where "acceptSlash r i \<longleftrightarrow> r = rune (CHR ''/'')"

definition acceptNotSlash :: "nat \<Rightarrow> nat \<Rightarrow> bool" where "acceptNotSlash r i \<longleftrightarrow> r \<noteq> rune (CHR ''/'')"

definition acceptCasingFunc :: "nat \<Rightarrow> nat \<Rightarrow> bool" where
  "acceptCasingFunc r i \<longleftrightarrow> (r = rune (CHR '','') \<or> r = rune (CHR ''^'')) \<and> i < 3"

end
