(* ===== verification/Envsubst_Parse.thy ===== *)
theory Envsubst_Parse
  imports Envsubst_Scan
begin

text \<open>
  The parser of \<open>envsubst/parse/parse.go\<close> and the nodes of \<open>envsubst/parse/node.go\<close>. A parser
  takes and returns the scanner state; its result is an error or a node. The functions that may parse a nested
  substitution take the parser for it as an argument, which ties the recursion to a fuel; running out of fuel is
  \<open>None\<close>. The length of the input is enough fuel, see the termination property.
\<close>

section \<open>Nodes and results\<close>

text \<open>\<open>EmptyNode\<close> is the shared empty text node, which the parser recognises by its address.\<close>

datatype Node =
    EmptyNode
  | TextNode (Value: string)
  | FuncNode (Param: string) (Name: string) (Args: "Node list")
  | ListNode (Nodes: "Node list")

datatype parse_error =
    ErrBadSubstitution
  | ErrMissingClosingBrace
  | ErrParseVariableName
  | ErrParseFuncSubstitution
  | ErrParseDefaultFunction

type_synonym 'a presult = "(parse_error + 'a \<times> scanner) option"

definition pbind :: "'a presult \<Rightarrow> ('a \<Rightarrow> scanner \<Rightarrow> 'b presult) \<Rightarrow> 'b presult" where
  "pbind m f =
     (case m of None \<Rightarrow> None | Some (Inl e) \<Rightarrow> Some (Inl e) | Some (Inr (x, s)) \<Rightarrow> f x s)"

abbreviation pfail :: "parse_error \<Rightarrow> 'a presult" where
  "pfail e \<equiv> Some (Inl e)"

abbreviation preturn :: "'a \<Rightarrow> scanner \<Rightarrow> 'a presult" where
  "preturn x s \<equiv> Some (Inr (x, s))"

section \<open>Substitutions\<close>

text \<open>The scan of one identifier token with the given accept function, which opens every function.\<close>

definition scanOperator :: "(nat \<Rightarrow> nat \<Rightarrow> bool) \<Rightarrow> parse_error \<Rightarrow> scanner \<Rightarrow> string presult" where
  "scanOperator acc e s =
     (let (t, s1) = scan (s\<lparr>accept := acc, smode := mode_scanIdent\<rparr>) in
      if t = tokenIdent then preturn (scanner_string s1) s1 else pfail e)"

definition consumeRbrack :: "'a \<Rightarrow> scanner \<Rightarrow> 'a presult" where
  "consumeRbrack node s =
     (let (t, s1) = scan (s\<lparr>smode := mode_scanRbrack\<rparr>) in
      if t \<noteq> tokenRbrack then pfail ErrBadSubstitution else preturn node s1)"

definition parseLenFunc :: "unicode \<Rightarrow> scanner \<Rightarrow> Node presult" where
  "parseLenFunc u s =
     pbind (scanOperator acceptOneHash ErrBadSubstitution s) (\<lambda>name s1.
     pbind (scanOperator (acceptIdent u) ErrBadSubstitution s1) (\<lambda>param s2.
     consumeRbrack (FuncNode param name []) s2))"

definition parseParam ::
  "(scanner \<Rightarrow> Node presult) \<Rightarrow> (nat \<Rightarrow> nat \<Rightarrow> bool) \<Rightarrow> 8 word \<Rightarrow> scanner \<Rightarrow> Node presult" where
  "parseParam pf acc m s =
     (let (t, s1) = scan (s\<lparr>accept := acc, smode := m OR mode_scanLbrack\<rparr>) in
      case t of
        tokenLbrack \<Rightarrow> pf s1
      | tokenIdent \<Rightarrow> preturn (TextNode (scanner_string s1)) s1
      | tokenRbrack \<Rightarrow> preturn (TextNode (scanner_string s1)) s1
      | _ \<Rightarrow> pfail ErrParseFuncSubstitution)"

definition parseSubstrFunc :: "(scanner \<Rightarrow> Node presult) \<Rightarrow> string \<Rightarrow> scanner \<Rightarrow> Node presult" where
  "parseSubstrFunc pf param s =
     pbind (scanOperator acceptOneColon ErrBadSubstitution s) (\<lambda>name s1.
     pbind (parseParam pf rejectColonClose mode_scanIdent s1) (\<lambda>arg1 s2.
     let (t, s3) = scan (s2\<lparr>accept := acceptColon, smode := mode_scanIdent OR mode_scanRbrack\<rparr>) in
     case t of
       tokenRbrack \<Rightarrow> preturn (FuncNode param name [arg1]) s3
     | tokenIdent \<Rightarrow>
         pbind (parseParam pf acceptNotClosing mode_scanIdent s3) (\<lambda>arg2 s4.
         consumeRbrack (FuncNode param name [arg1, arg2]) s4)
     | _ \<Rightarrow> pfail ErrBadSubstitution))"

definition parseRemoveFunc ::
  "(scanner \<Rightarrow> Node presult) \<Rightarrow> string \<Rightarrow> (nat \<Rightarrow> nat \<Rightarrow> bool) \<Rightarrow> scanner \<Rightarrow> Node presult" where
  "parseRemoveFunc pf param acc s =
     pbind (scanOperator acc ErrBadSubstitution s) (\<lambda>name s1.
     pbind (parseParam pf acceptNotClosing mode_scanIdent s1) (\<lambda>arg s2.
     consumeRbrack (FuncNode param name [arg]) s2))"

definition parseReplaceFunc :: "(scanner \<Rightarrow> Node presult) \<Rightarrow> string \<Rightarrow> scanner \<Rightarrow> Node presult" where
  "parseReplaceFunc pf param s =
     pbind (scanOperator acceptReplaceFunc ErrBadSubstitution s) (\<lambda>name s1.
     pbind (parseParam pf acceptNotSlash (mode_scanIdent OR mode_scanEscape) s1) (\<lambda>arg1 s2.
     pbind (scanOperator acceptSlash ErrBadSubstitution s2) (\<lambda>_ s3.
     let (r, s4) = peek s3 in
     if r = rune (CHR ''}'') then consumeRbrack (FuncNode param name [arg1]) s4
     else
       pbind (parseParam pf acceptNotClosing (mode_scanIdent OR mode_scanEscape) s4) (\<lambda>arg2 s5.
       consumeRbrack (FuncNode param name [arg1, arg2]) s5))))"

fun parseDefaultLoop ::
  "(scanner \<Rightarrow> Node presult) \<Rightarrow> nat \<Rightarrow> string \<Rightarrow> string \<Rightarrow> Node list \<Rightarrow> scanner \<Rightarrow> Node presult" where
  "parseDefaultLoop pf 0 param name args s = None"
| "parseDefaultLoop pf (Suc n) param name args s =
     (let (r, s1) = peek s in
      if r = rune (CHR ''}'') then consumeRbrack (FuncNode param name args) s1
      else pbind (parseParam pf acceptNotClosing mode_scanIdent s1) (\<lambda>arg s2.
        parseDefaultLoop pf n param name (args @ [arg]) s2))"

definition parseDefaultFunc :: "(scanner \<Rightarrow> Node presult) \<Rightarrow> nat \<Rightarrow> string \<Rightarrow> scanner \<Rightarrow> Node presult" where
  "parseDefaultFunc pf n param s =
     (let (r, s1) = peek s;
          acc = (if r = rune (CHR ''='') then acceptOneEqual else acceptDefaultFunc)
      in pbind (scanOperator acc ErrParseDefaultFunction s1) (\<lambda>name s2.
         parseDefaultLoop pf n param name [] s2))"

definition parseDefaultOrSubstr :: "(scanner \<Rightarrow> Node presult) \<Rightarrow> nat \<Rightarrow> string \<Rightarrow> scanner \<Rightarrow> Node presult" where
  "parseDefaultOrSubstr pf n param s =
     (let (_, s1) = scanner_read s; (r, s2) = peek s1; s3 = unread s2 in
      if r \<in> {rune (CHR ''=''), rune (CHR ''-''), rune (CHR ''?''), rune (CHR ''+'')}
      then parseDefaultFunc pf n param s3 else parseSubstrFunc pf param s3)"

definition parseCasingFunc :: "string \<Rightarrow> scanner \<Rightarrow> Node presult" where
  "parseCasingFunc param s =
     pbind (scanOperator acceptCasingFunc ErrBadSubstitution s) (\<lambda>name s1.
     consumeRbrack (FuncNode param name []) s1)"

definition parseFuncBody :: "unicode \<Rightarrow> nat \<Rightarrow> (scanner \<Rightarrow> Node presult) \<Rightarrow> scanner \<Rightarrow> Node presult" where
  "parseFuncBody u n pf s =
     (let (r0, s0) = peek (s\<lparr>escapeChars := escapeAll\<rparr>) in
      if r0 = rune (CHR ''#'') then parseLenFunc u s0
      else
        pbind (scanOperator (acceptIdent u) ErrParseVariableName s0) (\<lambda>param s1.
        let (r, s2) = peek s1 in
        if r = rune (CHR '':'') then parseDefaultOrSubstr pf n param s2
        else if r = rune (CHR ''='') then parseDefaultFunc pf n param s2
        else if r \<in> {rune (CHR '',''), rune (CHR ''^'')} then parseCasingFunc param s2
        else if r = rune (CHR ''/'') then parseReplaceFunc pf param s2
        else if r = rune (CHR ''#'') then parseRemoveFunc pf param acceptHashFunc s2
        else if r = rune (CHR ''%'') then parseRemoveFunc pf param acceptPercentFunc s2
        else
          let (t, s3) = scan (s2\<lparr>accept := acceptIdent u, smode := mode_scanRbrack\<rparr>) in
          if t = tokenRbrack then preturn (FuncNode param [] []) s3 else pfail ErrMissingClosingBrace))"

fun parseFunc :: "unicode \<Rightarrow> nat \<Rightarrow> scanner \<Rightarrow> Node presult" where
  "parseFunc u 0 s = None"
| "parseFunc u (Suc n) s = parseFuncBody u n (parseFunc u n) s"

section \<open>Templates\<close>

definition joinRight :: "Node \<Rightarrow> Node \<Rightarrow> Node" where
  "joinRight left right = (if right = EmptyNode then left else ListNode [left, right])"

fun parseAny :: "unicode \<Rightarrow> nat \<Rightarrow> scanner \<Rightarrow> Node presult" where
  "parseAny u 0 s = None"
| "parseAny u (Suc n) s =
     (let (t, s1) = scan (s\<lparr>accept := acceptRune,
            smode := mode_scanIdent OR mode_scanLbrack OR mode_scanEscape, escapeChars := dollar\<rparr>)
      in case t of
           tokenIdent \<Rightarrow>
             (let left = TextNode (scanner_string s1) in
              pbind (parseAny u n s1) (\<lambda>right s2. preturn (joinRight left right) s2))
         | tokenEOF \<Rightarrow> preturn EmptyNode s1
         | tokenLbrack \<Rightarrow>
             pbind (parseFunc u n s1) (\<lambda>left s2.
             pbind (parseAny u n s2) (\<lambda>right s3. preturn (joinRight left right) s3))
         | _ \<Rightarrow> pfail ErrBadSubstitution)"

text \<open>\<open>parse.Parse\<close>, with the fuel for an input of that length.\<close>

definition Parse :: "unicode \<Rightarrow> string \<Rightarrow> (parse_error + Node) option" where
  "Parse u b =
     (case parseAny u (Suc (Suc (length b))) (scanner_init b) of
        None \<Rightarrow> None
      | Some (Inl e) \<Rightarrow> Some (Inl e)
      | Some (Inr (node, _)) \<Rightarrow> Some (Inr node))"

end
