(* ===== verification/Envsubst_Progress.thy ===== *)
theory Envsubst_Progress
  imports Envsubst_Parse
begin

text \<open>
  The parser of \<open>envsubst/parse/parse.go\<close> consumes input with every token it takes, so it ends on
  every input. The accounting is by \<open>remaining\<close>, the bytes of the buffer that are still ahead; the scanner
  may step back further than it read when a multi-byte rune follows the colon of a substring, which
  the bounds below allow for.
\<close>

section \<open>The scanner\<close>

text \<open>
  When a rune is rejected the scanner steps back by the width of the rune that it read last. That is the rejected rune unless
  the scanner looked ahead, which it does after a dollar or a backslash only.
\<close>

definition steady :: "scanner \<Rightarrow> bool" where
  "steady s \<longleftrightarrow> smode s AND mode_scanLbrack = 0 \<and> smode s AND mode_scanEscape = 0 \<or>
     (\<forall>i. accept s (rune (CHR ''$'')) i \<and> accept s (rune (CHR 0x5C)) i)"

lemma read_width:
  assumes "scanner_read s = (r, s1)" "r \<noteq> eof" "r < 128"
  shows "s1 = s\<lparr>width := 1, pos := pos s + 1\<rparr>"
  using assms DecodeRune_low [of "drop (pos s) (buf s)"]
  by (auto simp: scanner_read_def split: if_splits prod.splits)

lemma scanLbrack_True:
  assumes "scanLbrack r s = (True, s1)"
  shows "r = rune (CHR ''$'') \<and> s1 = s\<lparr>width := 1, pos := pos s + 1\<rparr> \<and> remaining s1 < remaining s"
proof -
  have r: "r = rune (CHR ''$'')" "scanner_read s = (rune (CHR ''{''), s1)"
    using assms by (auto simp: scanLbrack_def split: if_splits prod.splits)
  have "rune (CHR ''{'') \<noteq> eof" "rune (CHR ''{'') < (128 :: nat)" by (simp_all add: eof_def)
  with read_width [OF r(2)] remaining_read [OF r(2)] r(1) show ?thesis by simp
qed

lemma scanLbrack_same: "smode s AND mode_scanLbrack = 0 \<or> r \<noteq> rune (CHR ''$'') \<Longrightarrow> scanLbrack r s = (False, s)"
  by (auto simp: scanLbrack_def)

lemma scanEscaped_same:
  "smode s AND mode_scanEscape = 0 \<or> r \<notin> {rune (CHR ''$''), rune (CHR 0x5C)} \<Longrightarrow> scanEscaped r s = (False, s)"
  by (auto simp: scanEscaped_def)

lemma rejected_unread:
  assumes "steady s" "scanner_read s = (r, s1)" "r \<noteq> eof" "scanLbrack r s1 = (False, s2)"
    "scanEscaped r s2 = (False, s3)" "\<not> accept s3 r (pos s3 - start s3)"
  shows "unread s3 = s\<lparr>width := width s3\<rparr>"
proof -
  obtain w where w: "s1 = s\<lparr>width := w, pos := pos s + w\<rparr>" using read_not_eof [OF assms(2,3)] by blast
  obtain w2 w3 where "s2 = s1\<lparr>width := w2\<rparr>" "s3 = s2\<lparr>width := w3\<rparr>"
    using scanLbrack_frame [OF assms(4)] scanEscaped_frame [OF assms(5)] by blast
  then have a: "accept s3 = accept s" "smode s1 = smode s" "smode s2 = smode s" using w by simp_all
  consider "smode s AND mode_scanLbrack = 0" "smode s AND mode_scanEscape = 0" | "r \<notin> {rune (CHR ''$''), rune (CHR 0x5C)}"
    using assms(1,6) a(1) by (auto simp: steady_def)
  then have "s3 = s1"
    using assms(4,5) scanLbrack_same [of s1 r] scanEscaped_same [of s2 r] a by cases auto
  with w show ?thesis by (simp add: unread_def)
qed

text \<open>One round of the loop over the runes of a token.\<close>

lemma scanIdentLoop_step:
  obtains r s1 where "scanner_read s = (r, s1)" "r = eof" "scanIdentLoop s = unread s1"
  | r s1 s2 where "scanner_read s = (r, s1)" "r \<noteq> eof" "scanLbrack r s1 = (True, s2)"
      "scanIdentLoop s = unread (unread s2)"
  | r s1 s2 s3 where "scanner_read s = (r, s1)" "r \<noteq> eof" "scanLbrack r s1 = (False, s2)"
      "scanEscaped r s2 = (True, s3)" "scanIdentLoop s = scanIdentLoop (skip s3)"
  | r s1 s2 s3 where "scanner_read s = (r, s1)" "r \<noteq> eof" "scanLbrack r s1 = (False, s2)"
      "scanEscaped r s2 = (False, s3)" "\<not> accept s3 r (pos s3 - start s3)" "scanIdentLoop s = unread s3"
  | r s1 s2 s3 where "scanner_read s = (r, s1)" "r \<noteq> eof" "scanLbrack r s1 = (False, s2)"
      "scanEscaped r s2 = (False, s3)" "accept s3 r (pos s3 - start s3)" "scanIdentLoop s = scanIdentLoop s3"
proof -
  obtain r s1 where r: "scanner_read s = (r, s1)" by (cases "scanner_read s")
  obtain lb s2 where lb: "scanLbrack r s1 = (lb, s2)" by (cases "scanLbrack r s1")
  obtain esc s3 where esc: "scanEscaped r s2 = (esc, s3)" by (cases "scanEscaped r s2")
  note step = scanIdentLoop.simps [of s, unfolded r prod.case Let_def lb esc]
  show thesis
    using that(1) [OF r] that(2) [OF r] that(3) [OF r] that(4) [OF r] that(5) [OF r] lb esc step
    by (cases "r = eof"; cases lb; cases esc; cases "accept s3 r (pos s3 - start s3)") simp_all
qed

definition framed :: "scanner \<Rightarrow> scanner \<Rightarrow> bool" where
  "framed s s' \<longleftrightarrow> smode s' = smode s \<and> accept s' = accept s \<and> escapeChars s' = escapeChars s \<and> start s' = start s"

lemma framed_steady: "framed s s' \<Longrightarrow> steady s' = steady s"
  by (simp add: framed_def steady_def)

lemma framed_trans: "framed a b \<Longrightarrow> framed b c \<Longrightarrow> framed a c"
  by (simp add: framed_def)

lemma framed_basic [simp]:
  "framed s s" "framed s (s\<lparr>width := w\<rparr>)" "framed s (unread s)" "framed s (skip s)" "framed s (s\<lparr>pos := p\<rparr>)"
  by (simp_all add: framed_def unread_def skip_def)

lemma framed_read: "scanner_read s = (r, s1) \<Longrightarrow> framed s s1"
  by (auto simp: scanner_read_def framed_def split: if_splits prod.splits)

lemma framed_Lbrack: "scanLbrack r s = (b, s1) \<Longrightarrow> framed s s1"
  by (auto simp: scanLbrack_def split: if_splits prod.splits
      intro: framed_read framed_trans [OF framed_read framed_basic(3)])

lemma framed_Escaped: "scanEscaped r s = (b, s1) \<Longrightarrow> framed s s1"
  using scanEscaped_frame by (metis framed_basic(2))

lemma scanIdentLoop_progress:
  assumes "steady s"
  shows "framed s (scanIdentLoop s) \<and> remaining (scanIdentLoop s) \<le> remaining s"
  using assms
proof (induction s rule: measure_induct_rule [of remaining])
  case (less s)
  show ?case
  proof (cases s rule: scanIdentLoop_step)
    case (1 r s1)
    then show ?thesis using read_unread [OF 1(1)] by (metis framed_basic(2) order_refl remaining_width)
  next
    case (2 r s1 s2)
    note f = scanLbrack_True [OF 2(3)]
    have "r < 128" using f by simp
    then have "s1 = s\<lparr>width := 1, pos := pos s + 1\<rparr>" by (rule read_width [OF 2(1,2)])
    then have "scanIdentLoop s = s\<lparr>width := 1\<rparr>" using 2(4) f by (simp add: unread_def)
    then show ?thesis by simp
  next
    case (3 r s1 s2 s3)
    have fr: "framed s (skip s3)"
      using framed_read [OF 3(1)] framed_Lbrack [OF 3(3)] framed_Escaped [OF 3(4)] framed_trans framed_basic(4) by blast
    have "remaining (skip s3) \<le> remaining s3" by (rule remaining_skip)
    also have "\<dots> = remaining s1"
      using scanLbrack_frame [OF 3(3)] scanEscaped_frame [OF 3(4)] by (metis remaining_width)
    also have "\<dots> < remaining s" by (rule remaining_read [OF 3(1,2)])
    finally show ?thesis
      using less.IH [of "skip s3"] less.prems framed_steady [OF fr] framed_trans [OF fr] 3(5) by auto
  next
    case (4 r s1 s2 s3)
    then show ?thesis using rejected_unread [OF less.prems 4(1-5)] by simp
  next
    case (5 r s1 s2 s3)
    have fr: "framed s s3"
      using framed_read [OF 5(1)] framed_Lbrack [OF 5(3)] framed_Escaped [OF 5(4)] framed_trans by blast
    have "remaining s3 = remaining s1"
      using scanLbrack_frame [OF 5(3)] scanEscaped_frame [OF 5(4)] by (metis remaining_width)
    also have "\<dots> < remaining s" by (rule remaining_read [OF 5(1,2)])
    finally show ?thesis
      using less.IH [of s3] less.prems framed_steady [OF fr] framed_trans [OF fr] 5(6) by auto
  qed
qed

lemma scanIdent_progress:
  assumes "steady s" "scanIdent r s = (True, s1)"
  shows "remaining s1 \<le> remaining s"
proof -
  obtain esc s2 where e: "scanEscaped r s = (esc, s2)" by (cases "scanEscaped r s")
  have f: "framed s s2" "remaining s2 = remaining s"
    using framed_Escaped [OF e] scanEscaped_frame [OF e] by (auto, metis remaining_width)
  then have "steady s2" "steady (skip s2)"
    using assms(1) framed_steady framed_trans framed_basic(4) by blast+
  moreover have "s1 = scanIdentLoop (skip s2) \<or> s1 = scanIdentLoop s2"
    using assms(2) e by (auto simp: scanIdent_def split: if_splits)
  ultimately show ?thesis
    using scanIdentLoop_progress [of s2] scanIdentLoop_progress [of "skip s2"] remaining_skip [of s2] f(2) by auto
qed

definition token_size :: "token \<Rightarrow> nat" where
  "token_size t = (case t of tokenLbrack \<Rightarrow> 2 | tokenIdent \<Rightarrow> 1 | tokenRbrack \<Rightarrow> 1 | _ \<Rightarrow> 0)"

lemma scan_progress:
  assumes "steady s" "scan s = (t, s1)" "0 < token_size t"
  shows "remaining s1 + token_size t \<le> remaining s"
proof -
  obtain r s2 where r: "scanner_read (s\<lparr>start := pos s\<rparr>) = (r, s2)" by (cases "scanner_read (s\<lparr>start := pos s\<rparr>)")
  obtain lb s3 where lb: "scanLbrack r s2 = (lb, s3)" by (cases "scanLbrack r s2")
  obtain i s4 where i: "scanIdent r s3 = (i, s4)" by (cases "scanIdent r s3")
  note scan = assms(2) [unfolded scan_def r prod.case Let_def lb i]
  have ne: "r \<noteq> eof" using scan assms(3) by (auto simp: token_size_def split: if_splits)
  have m: "remaining s2 < remaining s" using remaining_read [OF r ne] by (simp add: remaining_def)
  have "steady (s\<lparr>start := pos s\<rparr>)" using assms(1) by (simp add: steady_def)
  then have st: "steady s3" using framed_steady [OF framed_read [OF r]] framed_steady [OF framed_Lbrack [OF lb]] by blast
  show ?thesis
  proof (cases lb)
    case True
    then have "t = tokenLbrack" "s1 = s3" using scan ne by auto
    moreover from lb True have "scanLbrack r s2 = (True, s3)" by simp
    then have "remaining s3 < remaining s2" using scanLbrack_True by blast
    ultimately show ?thesis using m by (simp add: token_size_def)
  next
    case False
    then have m3: "remaining s3 = remaining s2" using scanLbrack_frame lb by (metis remaining_width)
    show ?thesis
    proof (cases "scanRbrack r s3")
      case True
      with False scan ne m m3 show ?thesis by (auto simp: token_size_def)
    next
      case False': False
      with False scan ne assms(3) have "i" "t = tokenIdent" "s1 = s4"
        by (auto simp: token_size_def split: if_splits)
      then show ?thesis using scanIdent_progress [OF st, of r s4] i m m3 by (simp add: token_size_def)
    qed
  qed
qed

section \<open>The parser\<close>

text \<open>
  A parser makes progress on a state when it has fuel enough to return there, and a node that it returns
  has used at least the given number of bytes.
\<close>

definition progress :: "nat \<Rightarrow> 'a presult \<Rightarrow> scanner \<Rightarrow> bool" where
  "progress c m s \<longleftrightarrow> m \<noteq> None \<and> (\<forall>x s'. m = Some (Inr (x, s')) \<longrightarrow> remaining s' + c \<le> remaining s)"

lemma progress_simps [simp]:
  "progress c (pfail e) s" "progress c (preturn x s') s \<longleftrightarrow> remaining s' + c \<le> remaining s"
  by (auto simp: progress_def)

lemma progress_bind:
  assumes "progress a m s" "\<And>x s'. m = Some (Inr (x, s')) \<Longrightarrow> remaining s' + a \<le> remaining s \<Longrightarrow> progress b (f x s') s'"
    and "c \<le> a + b"
  shows "progress c (pbind m f) s"
proof (cases m)
  case (Some r)
  show ?thesis
  proof (cases r)
    case (Inr p)
    obtain x s' where p: "p = (x, s')" by (cases p)
    then have "remaining s' + a \<le> remaining s" using assms(1) Some Inr by (simp add: progress_def)
    moreover have "progress b (f x s') s'" using assms(2) Some Inr p calculation by simp
    ultimately show ?thesis using Some Inr p assms(3) by (fastforce simp: progress_def pbind_def)
  qed (use Some in \<open>simp add: pbind_def\<close>)
qed (use assms(1) in \<open>simp add: progress_def\<close>)

lemma progress_weaken: "progress a m s \<Longrightarrow> remaining s + b \<le> remaining s' + a \<Longrightarrow> progress b m s'"
  by (fastforce simp: progress_def)

lemma progress_same: "progress a m s1 \<Longrightarrow> remaining s1 = remaining s \<Longrightarrow> b \<le> a \<Longrightarrow> progress b m s"
  using progress_weaken [of a m s1 b s] by simp

lemmas mode_defs = mode_scanIdent_def mode_scanLbrack_def mode_scanRbrack_def mode_scanEscape_def
  dollar_def backslash_def escapeAll_def

lemma mode_bits [simp]:
  "mode_scanIdent AND mode_scanLbrack = 0" "mode_scanIdent AND mode_scanEscape = 0"
  "mode_scanRbrack AND mode_scanLbrack = 0" "mode_scanRbrack AND mode_scanEscape = 0"
  "mode_scanIdent AND mode_scanRbrack = 0" "mode_scanRbrack AND mode_scanIdent = 0"
  "mode_scanIdent AND mode_scanIdent \<noteq> 0" "mode_scanRbrack AND mode_scanRbrack \<noteq> 0"
  "mode_scanLbrack AND mode_scanIdent = 0" "mode_scanLbrack AND mode_scanEscape = 0"
  "mode_scanLbrack AND mode_scanRbrack = 0" "mode_scanLbrack AND mode_scanLbrack \<noteq> 0"
  "mode_scanIdent \<noteq> 0" "mode_scanRbrack \<noteq> 0" "mode_scanLbrack \<noteq> 0" "mode_scanEscape \<noteq> 0"
  by (simp_all add: mode_defs)

lemma steady_plain [simp]:
  "steady (s\<lparr>accept := a, smode := mode_scanIdent\<rparr>)" "steady (s\<lparr>smode := mode_scanRbrack\<rparr>)"
  "steady (s\<lparr>accept := a, smode := mode_scanRbrack\<rparr>)"
  "steady (s\<lparr>accept := a, smode := mode_scanIdent OR mode_scanRbrack\<rparr>)"
  by (simp_all add: steady_def bit.conj_disj_distrib2)

lemma remaining_update [simp]:
  "remaining (s\<lparr>accept := a\<rparr>) = remaining s" "remaining (s\<lparr>smode := m\<rparr>) = remaining s"
  "remaining (s\<lparr>escapeChars := e\<rparr>) = remaining s" "remaining (s\<lparr>start := i\<rparr>) = remaining s"
  by (simp_all add: remaining_def)

lemma scanOperator_progress: "progress 1 (scanOperator acc e s) s"
proof (cases "scan (s\<lparr>accept := acc, smode := mode_scanIdent\<rparr>)")
  case (Pair t s1)
  with scan_progress [OF steady_plain(1) Pair] show ?thesis
    by (auto simp: scanOperator_def token_size_def)
qed

lemma consumeRbrack_progress: "progress 1 (consumeRbrack x s) s"
proof (cases "scan (s\<lparr>smode := mode_scanRbrack\<rparr>)")
  case (Pair t s1)
  with scan_progress [OF steady_plain(2) Pair] show ?thesis
    by (auto simp: consumeRbrack_def token_size_def)
qed

text \<open>What a function relies on for the nested parser: progress below the given number of bytes.\<close>

definition nested :: "(scanner \<Rightarrow> Node presult) \<Rightarrow> nat \<Rightarrow> bool" where
  "nested pf n \<longleftrightarrow> (\<forall>s. remaining s < n \<longrightarrow> progress 1 (pf s) s)"

definition keeps_specials :: "(nat \<Rightarrow> nat \<Rightarrow> bool) \<Rightarrow> bool" where
  "keeps_specials acc \<longleftrightarrow> (\<forall>i. acc (rune (CHR ''$'')) i \<and> acc (rune (CHR 0x5C)) i)"

lemma keeps_specials_simps [simp]:
  "keeps_specials rejectColonClose" "keeps_specials acceptNotClosing" "keeps_specials acceptNotSlash"
  "keeps_specials acceptRune"
  by (simp_all add: keeps_specials_def rejectColonClose_def acceptNotClosing_def acceptNotSlash_def acceptRune_def)

lemma parseParam_progress:
  assumes "nested pf n" "remaining s < n + 2" "keeps_specials acc"
  shows "progress 1 (parseParam pf acc m s) s"
proof (cases "scan (s\<lparr>accept := acc, smode := m OR mode_scanLbrack\<rparr>)")
  case (Pair t s1)
  have "steady (s\<lparr>accept := acc, smode := m OR mode_scanLbrack\<rparr>)"
    using assms(3) by (simp add: steady_def keeps_specials_def)
  note p = scan_progress [OF this Pair]
  show ?thesis
  proof (cases "t = tokenLbrack")
    case True
    with p assms(2) have "remaining s1 < n" "remaining s1 + 2 \<le> remaining s" by (simp_all add: token_size_def)
    with assms(1) have "progress 1 (pf s1) s1" by (simp add: nested_def)
    then show ?thesis
      using True Pair \<open>remaining s1 + 2 \<le> remaining s\<close> by (auto simp: parseParam_def intro: progress_weaken)
  next
    case False
    with p Pair show ?thesis by (auto simp: parseParam_def token_size_def split: token.split)
  qed
qed

lemma parseLenFunc_progress: "progress 3 (parseLenFunc u s) s"
  unfolding parseLenFunc_def
  by (rule progress_bind [OF scanOperator_progress, where b = 2],
      rule progress_bind [OF scanOperator_progress consumeRbrack_progress]) simp_all

lemma parseCasingFunc_progress: "progress 2 (parseCasingFunc p s) s"
  unfolding parseCasingFunc_def
  by (rule progress_bind [OF scanOperator_progress consumeRbrack_progress]) simp

lemma parseRemoveFunc_progress:
  assumes "nested pf n" "remaining s < n + 3"
  shows "progress 3 (parseRemoveFunc pf p acc s) s"
  unfolding parseRemoveFunc_def
proof (rule progress_bind [OF scanOperator_progress, where b = 2])
  fix name s1
  assume "remaining s1 + 1 \<le> remaining s"
  with assms have "progress 1 (parseParam pf acceptNotClosing mode_scanIdent s1) s1"
    by (intro parseParam_progress [where n = n]) simp_all
  then show "progress 2 (pbind (parseParam pf acceptNotClosing mode_scanIdent s1)
      (\<lambda>arg. consumeRbrack (FuncNode p name [arg]))) s1"
    by (rule progress_bind [OF _ consumeRbrack_progress]) simp
qed simp

lemma peek_remaining: "peek s = (r, s1) \<Longrightarrow> remaining s1 = remaining s"
  using peek_frame by (metis remaining_width)

lemma parseReplaceFunc_progress:
  assumes "nested pf n" "remaining s < n + 3"
  shows "progress 3 (parseReplaceFunc pf p s) s"
  unfolding parseReplaceFunc_def
proof (rule progress_bind [OF scanOperator_progress, where b = 3])
  fix name s1
  assume s1: "remaining s1 + 1 \<le> remaining s"
  with assms have "progress 1 (parseParam pf acceptNotSlash (mode_scanIdent OR mode_scanEscape) s1) s1"
    by (intro parseParam_progress [where n = n]) simp_all
  then show "progress 3 (pbind (parseParam pf acceptNotSlash (mode_scanIdent OR mode_scanEscape) s1) (\<lambda>arg1 s2.
      pbind (scanOperator acceptSlash ErrBadSubstitution s2) (\<lambda>_ s3. let (r, s4) = peek s3 in
        if r = rune (CHR ''}'') then consumeRbrack (FuncNode p name [arg1]) s4
        else pbind (parseParam pf acceptNotClosing (mode_scanIdent OR mode_scanEscape) s4)
          (\<lambda>arg2. consumeRbrack (FuncNode p name [arg1, arg2]))))) s1"
  proof (rule progress_bind [where b = 2], goal_cases)
    case (1 arg1 s2)
    show ?case
    proof (rule progress_bind [OF scanOperator_progress, where b = 1])
      fix x s3
      assume s3: "remaining s3 + 1 \<le> remaining s2"
      obtain r s4 where p: "peek s3 = (r, s4)" by (cases "peek s3")
      have "progress 1 (parseParam pf acceptNotClosing (mode_scanIdent OR mode_scanEscape) s4) s4"
        using assms s1 s3 1 peek_remaining [OF p] by (intro parseParam_progress [where n = n]) simp_all
      then have arg2: "progress 2 (pbind (parseParam pf acceptNotClosing (mode_scanIdent OR mode_scanEscape) s4)
          (\<lambda>arg2. consumeRbrack (FuncNode p name [arg1, arg2]))) s4"
        by (rule progress_bind [OF _ consumeRbrack_progress]) simp
      show "progress 1 (let (r, s4) = peek s3 in
        if r = rune (CHR ''}'') then consumeRbrack (FuncNode p name [arg1]) s4
        else pbind (parseParam pf acceptNotClosing (mode_scanIdent OR mode_scanEscape) s4)
          (\<lambda>arg2. consumeRbrack (FuncNode p name [arg1, arg2]))) s3"
        using p by (auto intro: progress_same [OF consumeRbrack_progress peek_remaining [OF p]]
          progress_same [OF arg2 peek_remaining [OF p]])
    qed simp
  qed simp
qed simp

lemma parseSubstrFunc_progress:
  assumes "nested pf n" "remaining s < n + 3"
  shows "progress 3 (parseSubstrFunc pf p s) s"
  unfolding parseSubstrFunc_def
proof (rule progress_bind [OF scanOperator_progress, where b = 2])
  fix name s1
  assume s1: "remaining s1 + 1 \<le> remaining s"
  with assms have "progress 1 (parseParam pf rejectColonClose mode_scanIdent s1) s1"
    by (intro parseParam_progress [where n = n]) simp_all
  then show "progress 2 (pbind (parseParam pf rejectColonClose mode_scanIdent s1) (\<lambda>arg1 s2.
      let (t, s3) = scan (s2\<lparr>accept := acceptColon, smode := mode_scanIdent OR mode_scanRbrack\<rparr>) in
      case t of tokenRbrack \<Rightarrow> preturn (FuncNode p name [arg1]) s3
      | tokenIdent \<Rightarrow> pbind (parseParam pf acceptNotClosing mode_scanIdent s3)
          (\<lambda>arg2. consumeRbrack (FuncNode p name [arg1, arg2]))
      | _ \<Rightarrow> pfail ErrBadSubstitution)) s1"
  proof (rule progress_bind [where b = 1], goal_cases)
    case (1 arg1 s2)
    obtain t s3 where t: "scan (s2\<lparr>accept := acceptColon, smode := mode_scanIdent OR mode_scanRbrack\<rparr>) = (t, s3)"
      by (cases "scan (s2\<lparr>accept := acceptColon, smode := mode_scanIdent OR mode_scanRbrack\<rparr>)")
    note s3 = scan_progress [OF steady_plain(4) t]
    show ?case
    proof (cases "t = tokenIdent")
      case True
      then have le: "remaining s3 + 1 \<le> remaining s2" using s3 by (simp add: token_size_def)
      then have "progress 1 (parseParam pf acceptNotClosing mode_scanIdent s3) s3"
        using assms s1 1 by (intro parseParam_progress [where n = n]) simp_all
      then have "progress 2 (pbind (parseParam pf acceptNotClosing mode_scanIdent s3)
          (\<lambda>arg2. consumeRbrack (FuncNode p name [arg1, arg2]))) s3"
        by (rule progress_bind [OF _ consumeRbrack_progress]) simp
      then have "progress 1 (pbind (parseParam pf acceptNotClosing mode_scanIdent s3)
          (\<lambda>arg2. consumeRbrack (FuncNode p name [arg1, arg2]))) s2"
        by (rule progress_weaken) (use le in simp)
      then show ?thesis using True t by simp
    next
      case False
      with s3 t show ?thesis by (auto simp: token_size_def split: token.split)
    qed
  qed simp
qed simp

lemma parseDefaultLoop_progress:
  assumes "nested pf n"
  shows "remaining s < k \<Longrightarrow> remaining s < n + 2 \<Longrightarrow> progress 1 (parseDefaultLoop pf k p name args s) s"
proof (induction k arbitrary: args s)
  case (Suc k)
  obtain r s1 where p: "peek s = (r, s1)" by (cases "peek s")
  note le = peek_remaining [OF p]
  have "progress 1 (pbind (parseParam pf acceptNotClosing mode_scanIdent s1)
      (\<lambda>arg. parseDefaultLoop pf k p name (args @ [arg]))) s1"
  proof (rule progress_bind [where a = 1 and b = 1])
    show "progress 1 (parseParam pf acceptNotClosing mode_scanIdent s1) s1"
      using assms Suc.prems le by (intro parseParam_progress [where n = n]) simp_all
    fix arg s2
    assume "remaining s2 + 1 \<le> remaining s1"
    with Suc le show "progress 1 (parseDefaultLoop pf k p name (args @ [arg]) s2) s2" by simp
  qed simp
  then show ?case
    using p by (auto intro: progress_same [OF consumeRbrack_progress le] progress_same [OF _ le])
qed simp

lemma parseDefaultFunc_progress:
  assumes "nested pf n" "remaining s \<le> k" "remaining s < n + 3"
  shows "progress 2 (parseDefaultFunc pf k p s) s"
proof -
  obtain r s1 where p: "peek s = (r, s1)" by (cases "peek s")
  note le = peek_remaining [OF p]
  have op: "progress 2 (pbind (scanOperator acc ErrParseDefaultFunction s1)
      (\<lambda>name. parseDefaultLoop pf k p name [])) s1" for acc p
  proof (rule progress_bind [OF scanOperator_progress, where b = 1])
    fix name s2
    assume "remaining s2 + 1 \<le> remaining s1"
    with assms le show "progress 1 (parseDefaultLoop pf k p name [] s2) s2"
      by (intro parseDefaultLoop_progress [OF assms(1)]) simp_all
  qed simp
  show ?thesis using p progress_same [OF op le] by (simp add: parseDefaultFunc_def)
qed

text \<open>The scanner steps back at most three bytes beyond the colon.\<close>

lemma parseDefaultOrSubstr_progress:
  assumes "nested pf n" "remaining s \<le> k" "remaining s < n" "fst (scanner_read s) \<noteq> eof"
  shows "progress 0 (parseDefaultOrSubstr pf k p s) s"
proof -
  obtain q s1 where q: "scanner_read s = (q, s1)" by (cases "scanner_read s")
  obtain r s2 where r: "peek s1 = (r, s2)" by (cases "peek s1")
  have lt: "remaining s1 < remaining s" using remaining_read [OF q] assms(4) q by simp
  obtain w where w: "s2 = s1\<lparr>width := w\<rparr>" "w \<le> 4" "r \<noteq> eof \<Longrightarrow> r < 128 \<Longrightarrow> w = 1"
  proof
    obtain r' s1' where rd: "scanner_read s1 = (r', s1')" by (cases "scanner_read s1")
    show "s2 = s1\<lparr>width := width s2\<rparr>" by (rule peek_frame [OF r])
    have ws: "width s2 = width s1'" "r' = r" using r rd by (auto simp: peek_def unread_def)
    show "width s2 \<le> 4"
      using rd DecodeRune_width4 [of "drop (pos s1) (buf s1)"] unfolding ws
      by (auto simp: scanner_read_def split: if_splits prod.splits)
    show "r \<noteq> eof \<Longrightarrow> r < 128 \<Longrightarrow> width s2 = 1" using read_width [OF rd] unfolding ws by auto
  qed
  have behind: "remaining (unread s2) \<le> remaining s1 + w" by (simp add: w(1) unread_def remaining_def)
  show ?thesis
  proof (cases "r \<in> {rune (CHR ''=''), rune (CHR ''-''), rune (CHR ''?''), rune (CHR ''+'')}")
    case True
    then have "w = 1" by (intro w(3)) (auto simp: eof_def)
    with behind lt have le: "remaining (unread s2) \<le> remaining s" by simp
    then have "progress 2 (parseDefaultFunc pf k p (unread s2)) (unread s2)"
      using assms by (intro parseDefaultFunc_progress [OF assms(1)]) simp_all
    then have "progress 0 (parseDefaultFunc pf k p (unread s2)) s" by (rule progress_weaken) (use le in simp)
    then show ?thesis using True q r unfolding parseDefaultOrSubstr_def by simp
  next
    case False
    have "remaining (unread s2) < n + 3" using behind lt w(2) assms(3) by simp
    then have "progress 3 (parseSubstrFunc pf p (unread s2)) (unread s2)"
      by (rule parseSubstrFunc_progress [OF assms(1)])
    then have "progress 0 (parseSubstrFunc pf p (unread s2)) s"
      by (rule progress_weaken) (use behind lt w(2) in simp)
    then show ?thesis using False q r unfolding parseDefaultOrSubstr_def by simp
  qed
qed

lemma peek_again: "peek s = (r, s1) \<Longrightarrow> fst (scanner_read s1) = r"
  by (auto simp: peek_def scanner_read_def unread_def split: if_splits prod.splits)

lemma parseFuncBody_progress:
  assumes "nested pf n" "remaining s \<le> n"
  shows "progress 1 (parseFuncBody u n pf s) s"
proof -
  obtain r0 s0 where p0: "peek (s\<lparr>escapeChars := escapeAll\<rparr>) = (r0, s0)"
    by (cases "peek (s\<lparr>escapeChars := escapeAll\<rparr>)")
  have le0: "remaining s0 = remaining s" using peek_remaining [OF p0] by simp
  define rest where "rest = (\<lambda>param s1. let (r, s2) = peek s1 in
        if r = rune (CHR '':'') then parseDefaultOrSubstr pf n param s2
        else if r = rune (CHR ''='') then parseDefaultFunc pf n param s2
        else if r \<in> {rune (CHR '',''), rune (CHR ''^'')} then parseCasingFunc param s2
        else if r = rune (CHR ''/'') then parseReplaceFunc pf param s2
        else if r = rune (CHR ''#'') then parseRemoveFunc pf param acceptHashFunc s2
        else if r = rune (CHR ''%'') then parseRemoveFunc pf param acceptPercentFunc s2
        else
          let (t, s3) = scan (s2\<lparr>accept := acceptIdent u, smode := mode_scanRbrack\<rparr>) in
          if t = tokenRbrack then preturn (FuncNode param [] []) s3 else pfail ErrMissingClosingBrace)"
  have rest: "progress 0 (rest param s1) s1" if "remaining s1 < n" for param s1
  proof -
    obtain r s2 where p: "peek s1 = (r, s2)" by (cases "peek s1")
    note le = peek_remaining [OF p]
    have "progress 0 (parseDefaultOrSubstr pf n param s2) s1" if "r = rune (CHR '':'')"
      using parseDefaultOrSubstr_progress [OF assms(1), of s2 n param] peek_again [OF p] that \<open>remaining s1 < n\<close> le
      by (auto simp: eof_def intro: progress_same)
    moreover have "progress 0 (parseDefaultFunc pf n param s2) s1" "progress 0 (parseReplaceFunc pf param s2) s1"
      "progress 0 (parseRemoveFunc pf param acc s2) s1" "progress 0 (parseCasingFunc param s2) s1" for acc
      using progress_same [OF parseDefaultFunc_progress [OF assms(1), of s2 n param] le]
        progress_same [OF parseReplaceFunc_progress [OF assms(1), of s2 param] le]
        progress_same [OF parseRemoveFunc_progress [OF assms(1), of s2 param acc] le]
        progress_same [OF parseCasingFunc_progress le, of 0 param] that le by simp_all
    moreover obtain t s3 where t: "scan (s2\<lparr>accept := acceptIdent u, smode := mode_scanRbrack\<rparr>) = (t, s3)"
      by (cases "scan (s2\<lparr>accept := acceptIdent u, smode := mode_scanRbrack\<rparr>)")
    moreover from scan_progress [OF steady_plain(3) t] le have "t = tokenRbrack \<Longrightarrow> remaining s3 \<le> remaining s1"
      by (simp add: token_size_def)
    ultimately show ?thesis using p unfolding rest_def by simp
  qed
  have "progress 1 (pbind (scanOperator (acceptIdent u) ErrParseVariableName s0) rest) s0"
    by (rule progress_bind [OF scanOperator_progress, where b = 0]) (use rest assms(2) le0 in simp_all)
  then have "progress 1 (pbind (scanOperator (acceptIdent u) ErrParseVariableName s0) rest) s"
    by (rule progress_same) (simp_all add: le0)
  moreover have "progress 1 (parseLenFunc u s0) s" by (rule progress_same [OF parseLenFunc_progress le0]) simp
  ultimately show ?thesis unfolding parseFuncBody_def p0 prod.case Let_def rest_def by simp
qed

lemma parseFunc_progress: "remaining s < n \<Longrightarrow> progress 1 (parseFunc u n s) s"
proof (induction n arbitrary: s)
  case (Suc n)
  then have "nested (parseFunc u n) n" by (simp add: nested_def)
  from parseFuncBody_progress [OF this, of s u] Suc.prems show ?case by simp
qed simp

lemma parseAny_progress: "Suc (remaining s) < n \<Longrightarrow> progress 0 (parseAny u n s) s"
proof (induction n arbitrary: s)
  case (Suc n)
  let ?s = "s\<lparr>accept := acceptRune, smode := mode_scanIdent OR mode_scanLbrack OR mode_scanEscape, escapeChars := dollar\<rparr>"
  obtain t s1 where t: "scan ?s = (t, s1)" by (cases "scan ?s")
  have "steady ?s" by (simp add: steady_def acceptRune_def)
  note le = scan_progress [OF this t, simplified]
  show ?case
  proof (cases t)
    case tokenIdent
    then have lt: "remaining s1 < remaining s" using le by (simp add: token_size_def)
    with Suc have p: "progress 0 (parseAny u n s1) s1" by simp
    have "progress 0 (pbind (parseAny u n s1) (\<lambda>right. preturn (joinRight (TextNode (scanner_string s1)) right))) s1"
      by (rule progress_bind [OF p, where b = 0]) simp_all
    then have "progress 0 (pbind (parseAny u n s1) (\<lambda>right. preturn (joinRight (TextNode (scanner_string s1)) right))) s"
      by (rule progress_weaken) (use lt in simp)
    with tokenIdent t show ?thesis by simp
  next
    case tokenLbrack
    then have lt: "remaining s1 < remaining s" using le by (simp add: token_size_def)
    with Suc.prems have p: "progress 1 (parseFunc u n s1) s1" by (intro parseFunc_progress) simp
    have "progress 0 (pbind (parseFunc u n s1) (\<lambda>left s2. pbind (parseAny u n s2) (\<lambda>right. preturn (joinRight left right)))) s1"
    proof (rule progress_bind [OF p, where b = 0])
      fix left s2
      assume "remaining s2 + 1 \<le> remaining s1"
      with Suc lt have "progress 0 (parseAny u n s2) s2" by simp
      then show "progress 0 (pbind (parseAny u n s2) (\<lambda>right. preturn (joinRight left right))) s2"
        by (rule progress_bind [where b = 0]) simp_all
    qed simp
    then have "progress 0 (pbind (parseFunc u n s1) (\<lambda>left s2. pbind (parseAny u n s2) (\<lambda>right. preturn (joinRight left right)))) s"
      by (rule progress_weaken) (use lt in simp)
    with tokenLbrack t show ?thesis by simp
  next
    case tokenEOF
    have "remaining s1 \<le> remaining s"
      using t tokenEOF read_not_eof [of "?s\<lparr>start := pos s\<rparr>"]
      by (auto simp: scan_def scanner_read_def remaining_def split: if_splits prod.splits)
    with tokenEOF t show ?thesis by simp
  qed (use t in simp_all)
qed simp

section \<open>Property\<close>

text \<open>
  C22. Parsing ends on every input, whatever the Unicode tables: the fuel that \<open>Parse\<close> starts with, two more than the length of
  the input, is always enough, so the result is a syntax tree or one of the parser's errors.
\<close>

theorem Parse_terminates: "\<exists>r. Parse u b = Some r"
proof -
  have "progress 0 (parseAny u (Suc (Suc (length b))) (scanner_init b)) (scanner_init b)"
    by (rule parseAny_progress) (simp add: remaining_def scanner_init_def)
  then show ?thesis by (auto simp: Parse_def progress_def split: option.split sum.split)
qed

end
