(* ===== verification/Envsubst_Eval.thy ===== *)
theory Envsubst_Eval
  imports Envsubst_Path Envsubst_Progress
begin

text \<open>
  The substitution functions of \<open>envsubst/funcs.go\<close> and the execution of templates in
  \<open>envsubst/template.go\<close> and \<open>envsubst/eval.go\<close>. A panic is \<open>None\<close>. The mapping from variable names to
  values is an argument, as in the code.
\<close>

section \<open>Substitution functions\<close>

definition toLen :: "string \<Rightarrow> string list \<Rightarrow> string" where
  "toLen s args = itoa (int (length s))"

definition toLower :: "unicode \<Rightarrow> string \<Rightarrow> string list \<Rightarrow> string" where
  "toLower u s args = ToLower u s"

definition toUpper :: "unicode \<Rightarrow> string \<Rightarrow> string list \<Rightarrow> string" where
  "toUpper u s args = ToUpper u s"

definition toLowerFirst :: "unicode \<Rightarrow> string \<Rightarrow> string list \<Rightarrow> string" where
  "toLowerFirst u s args =
     (if s = [] then s
      else let (r, n) = DecodeRuneInString s in encodeRune (ToLowerRune u r) @ drop n s)"

definition toUpperFirst :: "unicode \<Rightarrow> string \<Rightarrow> string list \<Rightarrow> string" where
  "toUpperFirst u s args =
     (if s = [] then s
      else let (r, n) = DecodeRuneInString s in encodeRune (ToUpperRune u r) @ drop n s)"

definition toDefault :: "string \<Rightarrow> string list \<Rightarrow> string" where
  "toDefault s args = (if length s = 0 \<and> length args > 0 then Join args [] else s)"

text \<open>A slice expression, which panics out of range.\<close>

definition goSlice :: "string \<Rightarrow> int \<Rightarrow> int \<Rightarrow> string option" where
  "goSlice s i j = (if 0 \<le> i \<and> i \<le> j \<and> j \<le> int (length s)
     then Some (take (nat (j - i)) (drop (nat i) s)) else None)"

definition substrStart :: "string \<Rightarrow> int \<Rightarrow> int" where
  "substrStart s p0 =
     (if p0 < 0 then (let p = int (length s) + p0 in if p < 0 then 0 else p) else p0)"

definition toSubstr :: "string \<Rightarrow> string list \<Rightarrow> string option" where
  "toSubstr s args =
     (if args = [] then Some s
      else
        (case Atoi (args ! 0) of
           None \<Rightarrow> Some s
         | Some p0 \<Rightarrow>
             let p = substrStart s p0 in
             if length args = 1 then
               (if p < int (length s) then goSlice s p (int (length s)) else Some [])
             else
               (case Atoi (args ! 1) of
                  None \<Rightarrow> Some s
                | Some l \<Rightarrow>
                    if wrap64 (p + l) \<ge> int (length s) then
                      (if p < int (length s) then goSlice s p (int (length s)) else Some [])
                    else goSlice s p (wrap64 (p + l)))))"

definition replaceAll :: "string \<Rightarrow> string list \<Rightarrow> string" where
  "replaceAll s args =
     (case args of [] \<Rightarrow> s | [old] \<Rightarrow> Replace s old [] None | old # new # _ \<Rightarrow> Replace s old new None)"

definition replaceFirst :: "string \<Rightarrow> string list \<Rightarrow> string" where
  "replaceFirst s args =
     (case args of [] \<Rightarrow> s | [old] \<Rightarrow> Replace s old [] (Some 1) | old # new # _ \<Rightarrow> Replace s old new (Some 1))"

definition replacePrefix :: "string \<Rightarrow> string list \<Rightarrow> string" where
  "replacePrefix s args =
     (if length args \<noteq> 2 then s
      else if HasPrefix s (args ! 0) then Replace s (args ! 0) (args ! 1) (Some 1) else s)"

definition replaceSuffix :: "string \<Rightarrow> string list \<Rightarrow> string" where
  "replaceSuffix s args =
     (if length args \<noteq> 2 then s
      else if HasSuffix s (args ! 0) then TrimSuffix s (args ! 0) @ args ! 1 else s)"

text \<open>
  The loops over the prefixes of a string, from the longest to the shortest nonempty one; \<open>k\<close> is the
  length of the prefix to try next.
\<close>

fun shortestLoop :: "string \<Rightarrow> string \<Rightarrow> nat \<Rightarrow> string \<Rightarrow> path_error + string" where
  "shortestLoop arg s 0 best = Inr best"
| "shortestLoop arg s (Suc k) best =
     (case Match arg (take (Suc k) s) of
        Inl e \<Rightarrow> Inl e
      | Inr matched \<Rightarrow> shortestLoop arg s k (if matched then take (Suc k) s else best))"

definition trimShortest :: "string \<Rightarrow> string \<Rightarrow> string" where
  "trimShortest s arg =
     (case shortestLoop arg s (length s) [] of
        Inl _ \<Rightarrow> s
      | Inr m \<Rightarrow> if m \<noteq> [] then TrimPrefix s m else s)"

fun longestLoop :: "string \<Rightarrow> string \<Rightarrow> nat \<Rightarrow> string" where
  "longestLoop arg s 0 = s"
| "longestLoop arg s (Suc k) =
     (case Match arg (take (Suc k) s) of
        Inl e \<Rightarrow> s
      | Inr matched \<Rightarrow> if matched then TrimPrefix s (take (Suc k) s) else longestLoop arg s k)"

definition trimLongest :: "string \<Rightarrow> string \<Rightarrow> string" where
  "trimLongest s arg = longestLoop arg s (length s)"

function reverseLoop :: "nat \<Rightarrow> nat list \<Rightarrow> nat list" where
  "reverseLoop i r =
     (if i < length r div 2
      then (let j = length r - 1 - i in reverseLoop (Suc i) (r[i := r ! j, j := r ! i])) else r)"
  by auto
termination
  by (relation "measure (\<lambda>(i, r). length r - i)") auto

declare reverseLoop.simps [simp del]

definition reverse :: "string \<Rightarrow> string" where
  "reverse s = encodeRunes (reverseLoop 0 (runes s))"

definition trimShortestPrefix :: "string \<Rightarrow> string list \<Rightarrow> string" where
  "trimShortestPrefix s args = (if args \<noteq> [] then trimShortest s (args ! 0) else s)"

definition trimLongestPrefix :: "string \<Rightarrow> string list \<Rightarrow> string" where
  "trimLongestPrefix s args = (if args \<noteq> [] then trimLongest s (args ! 0) else s)"

definition trimShortestSuffix :: "string \<Rightarrow> string list \<Rightarrow> string" where
  "trimShortestSuffix s args =
     (if args \<noteq> [] then reverse (trimShortest (reverse s) (reverse (args ! 0))) else s)"

definition trimLongestSuffix :: "string \<Rightarrow> string list \<Rightarrow> string" where
  "trimLongestSuffix s args =
     (if args \<noteq> [] then reverse (trimLongest (reverse s) (reverse (args ! 0))) else s)"

section \<open>Execution\<close>

definition isDefaultOp :: "string \<Rightarrow> bool" where
  "isDefaultOp name \<longleftrightarrow>
     name \<in> {''-'', ''+'', ''='', ''?'', '':-'', '':+'', '':='', '':?''}"

definition lookupFunc :: "unicode \<Rightarrow> string \<Rightarrow> nat \<Rightarrow> string \<Rightarrow> string list \<Rightarrow> string option" where
  "lookupFunc u name n =
     (if name = '','' then (\<lambda>s args. Some (toLowerFirst u s args))
      else if name = '',,'' then (\<lambda>s args. Some (toLower u s args))
      else if name = ''^'' then (\<lambda>s args. Some (toUpperFirst u s args))
      else if name = ''^^'' then (\<lambda>s args. Some (toUpper u s args))
      else if name = ''#'' then
        (if n = 0 then (\<lambda>s args. Some (toLen s args)) else (\<lambda>s args. Some (trimShortestPrefix s args)))
      else if name = ''##'' then (\<lambda>s args. Some (trimLongestPrefix s args))
      else if name = ''%'' then (\<lambda>s args. Some (trimShortestSuffix s args))
      else if name = ''%%'' then (\<lambda>s args. Some (trimLongestSuffix s args))
      else if name = '':'' then toSubstr
      else if name = ''/#'' then (\<lambda>s args. Some (replacePrefix s args))
      else if name = ''/%'' then (\<lambda>s args. Some (replaceSuffix s args))
      else if name = ''/'' then (\<lambda>s args. Some (replaceFirst s args))
      else if name = ''//'' then (\<lambda>s args. Some (replaceAll s args))
      else (\<lambda>s args. Some (toDefault s args)))"

datatype eval_error = ErrVarNotSet string | ParseError parse_error

type_synonym eval_result = "(eval_error + string) option"

type_synonym mapping_fn = "string \<Rightarrow> string \<times> bool"

text \<open>
  The text an evaluation appends to the writer. An error discards what was written, since \<open>Execute\<close> then
  returns the empty string.
\<close>

definition evalFuncBody :: "unicode \<Rightarrow> mapping_fn \<Rightarrow> string \<Rightarrow> string \<Rightarrow> string list \<Rightarrow> eval_result" where
  "evalFuncBody u mapper param name args =
     (let (v, exists) = mapper param in
      if \<not> exists \<and> \<not> isDefaultOp name then Some (Inl (ErrVarNotSet param))
      else map_option Inr (lookupFunc u name (length args) v args))"

fun evalNode :: "unicode \<Rightarrow> mapping_fn \<Rightarrow> Node \<Rightarrow> eval_result"
  and evalArgs :: "unicode \<Rightarrow> mapping_fn \<Rightarrow> Node list \<Rightarrow> (eval_error + string list) option" where
  "evalNode u mapper EmptyNode = Some (Inr [])"
| "evalNode u mapper (TextNode v) = Some (Inr v)"
| "evalNode u mapper (FuncNode param name args) =
     (case evalArgs u mapper args of
        None \<Rightarrow> None
      | Some (Inl e) \<Rightarrow> Some (Inl e)
      | Some (Inr vs) \<Rightarrow> evalFuncBody u mapper param name vs)"
| "evalNode u mapper (ListNode ns) =
     (case evalArgs u mapper ns of
        None \<Rightarrow> None
      | Some (Inl e) \<Rightarrow> Some (Inl e)
      | Some (Inr vs) \<Rightarrow> Some (Inr (concat vs)))"
| "evalArgs u mapper [] = Some (Inr [])"
| "evalArgs u mapper (n # ns) =
     (case evalNode u mapper n of
        None \<Rightarrow> None
      | Some (Inl e) \<Rightarrow> Some (Inl e)
      | Some (Inr v) \<Rightarrow>
          (case evalArgs u mapper ns of
             None \<Rightarrow> None
           | Some (Inl e) \<Rightarrow> Some (Inl e)
           | Some (Inr vs) \<Rightarrow> Some (Inr (v # vs))))"

definition Execute :: "unicode \<Rightarrow> Node \<Rightarrow> mapping_fn \<Rightarrow> eval_result" where
  "Execute u root mapper = evalNode u mapper root"

definition Eval :: "unicode \<Rightarrow> string \<Rightarrow> mapping_fn \<Rightarrow> eval_result" where
  "Eval u s mapper =
     (case Parse u s of
        None \<Rightarrow> None
      | Some (Inl e) \<Rightarrow> Some (Inl (ParseError e))
      | Some (Inr t) \<Rightarrow> Execute u t mapper)"

definition Getenv :: "(string \<Rightarrow> string option) \<Rightarrow> mapping_fn" where
  "Getenv env s = (case env s of Some v \<Rightarrow> (v, True) | None \<Rightarrow> ([], True))"

definition LookupEnv :: "(string \<Rightarrow> string option) \<Rightarrow> mapping_fn" where
  "LookupEnv env s = (case env s of Some v \<Rightarrow> (v, True) | None \<Rightarrow> ([], False))"

definition EvalEnv :: "unicode \<Rightarrow> (string \<Rightarrow> string option) \<Rightarrow> string \<Rightarrow> bool \<Rightarrow> eval_result" where
  "EvalEnv u env s strict = Eval u s (if strict then LookupEnv env else Getenv env)"

end
