(* ===== verification/Envsubst_Trim.thy ===== *)
theory Envsubst_Trim
  imports Envsubst_Eval
begin

text \<open>
  What the operators that remove prefixes and suffixes and the substring operator of
  \<open>envsubst/funcs.go\<close> compute.
\<close>

section \<open>Reversal\<close>

lemma reverseLoop_rev:
  "length pre = i \<Longrightarrow> length post = i \<Longrightarrow> reverseLoop i (pre @ mid @ post) = pre @ rev mid @ post"
proof (induction mid arbitrary: i pre post rule: measure_induct_rule [of length])
  case (less mid)
  show ?case
  proof (cases "length mid < 2")
    case True
    then have "rev mid = mid" by (cases mid rule: rev_cases) auto
    moreover have "(i + (length mid + i)) div 2 = i" using True by presburger
    ultimately show ?thesis using less.prems by (simp add: reverseLoop.simps)
  next
    case False
    then obtain x m y where mid: "mid = x # m @ [y]"
      by (cases mid; cases "tl mid" rule: rev_cases) auto
    have "i < Suc ((i + (length m + i)) div 2)" by presburger
    then have "reverseLoop i (pre @ mid @ post) = reverseLoop (Suc i) ((pre @ [y]) @ m @ (x # post))"
      using less.prems
      by (subst reverseLoop.simps) (simp add: mid Let_def nth_append list_update_append list_update_append1)
    also have "\<dots> = (pre @ [y]) @ rev m @ (x # post)"
      by (rule less.IH) (simp_all add: mid less.prems)
    finally show ?thesis by (simp add: mid)
  qed
qed

lemma reverse_rev: "ascii s \<Longrightarrow> reverse s = rev s"
proof -
  assume "ascii s"
  then have "reverse s = encodeRunes (map rune (rev s))"
    using reverseLoop_rev [of "[]" 0 "[]" "map rune s"] by (simp add: reverse_def runes_ascii rev_map)
  also have "\<dots> = rev s" using \<open>ascii s\<close> by (intro encode_ascii) (auto simp: ascii_def)
  finally show ?thesis .
qed

lemma glob_matches_append:
  "glob_matches (a @ b) s \<longleftrightarrow> (\<exists>i \<le> length s. glob_matches a (take i s) \<and> glob_matches b (drop i s))"
proof (induction a arbitrary: s)
  case Nil
  show ?case by (auto intro: exI [of _ 0])
next
  case (Cons g a)
  note IH = this
  show ?case
  proof (cases "g = GStar")
    case True
    have "glob_matches ((g # a) @ b) s \<longleftrightarrow>
        (\<exists>j \<le> length s. \<exists>i \<le> length s - j. glob_matches a (take i (drop j s)) \<and> glob_matches b (drop (j + i) s))"
      unfolding append_Cons True glob_matches_star IH by (simp add: add.commute)
    also have "\<dots> \<longleftrightarrow> (\<exists>k \<le> length s. \<exists>j \<le> k. glob_matches a (drop j (take k s)) \<and> glob_matches b (drop k s))"
    proof safe
      fix j i
      assume "j \<le> length s" "i \<le> length s - j" "glob_matches a (take i (drop j s))" "glob_matches b (drop (j + i) s)"
      then show "\<exists>k \<le> length s. \<exists>j \<le> k. glob_matches a (drop j (take k s)) \<and> glob_matches b (drop k s)"
        by (intro exI [of _ "j + i"] conjI exI [of _ j]) (simp_all add: take_drop add.commute)
    next
      fix k j
      assume "k \<le> length s" "j \<le> k" "glob_matches a (drop j (take k s))" "glob_matches b (drop k s)"
      then show "\<exists>j \<le> length s. \<exists>i \<le> length s - j. glob_matches a (take i (drop j s)) \<and> glob_matches b (drop (j + i) s)"
        by (intro exI [of _ j] conjI exI [of _ "k - j"]) (simp_all add: take_drop)
    qed
    also have "\<dots> \<longleftrightarrow> (\<exists>i \<le> length s. glob_matches (g # a) (take i s) \<and> glob_matches b (drop i s))"
      unfolding True glob_matches_star by (simp add: min_absorb2 cong: conj_cong) blast
    finally show ?thesis .
  next
    case False
    show ?thesis
    proof (cases s)
      case (Cons c t)
      have "(\<exists>i \<le> length (c # t). P i) \<longleftrightarrow> P 0 \<or> (\<exists>i \<le> length t. P (Suc i))" for P
        by (metis Suc_le_mono length_Cons le0 not0_implies_Suc)
      then show ?thesis unfolding Cons using False IH by auto
    qed (use False in simp)
  qed
qed

lemma glob_matches_rev: "glob_matches (rev pat) (rev s) \<longleftrightarrow> glob_matches pat s"
proof (induction pat arbitrary: s)
  case (Cons g pat)
  have "glob_matches (rev (g # pat)) (rev s) \<longleftrightarrow>
      (\<exists>i \<le> length s. glob_matches pat (drop i s) \<and> glob_matches [g] (rev (take i s)))"
  proof -
    have "glob_matches (rev (g # pat)) (rev s) \<longleftrightarrow> (\<exists>i \<le> length s.
        glob_matches (rev pat) (rev (drop (length s - i) s)) \<and> glob_matches [g] (rev (take (length s - i) s)))"
      by (simp add: glob_matches_append take_rev drop_rev del: glob_matches.simps)
    also have "\<dots> \<longleftrightarrow> (\<exists>i \<le> length s. glob_matches pat (drop i s) \<and> glob_matches [g] (rev (take i s)))"
      unfolding Cons.IH by (metis diff_diff_cancel diff_le_self)
    finally show ?thesis .
  qed
  also have "\<dots> \<longleftrightarrow> (\<exists>i \<le> length s. glob_matches [g] (take i s) \<and> glob_matches pat (drop i s))"
  proof -
    have "glob_matches [g] (rev t) \<longleftrightarrow> glob_matches [g] t" for t
    proof (cases "g = GStar")
      case True
      then show ?thesis by (simp add: glob_matches_star del: glob_matches.simps(2))
    next
      case False
      then have "glob_matches [g] t \<longleftrightarrow> (\<exists>c. t = [c] \<and> accepts g c)" for t by (cases t) auto
      then show ?thesis by (simp add: rev_singleton_conv)
    qed
    then show ?thesis by blast
  qed
  also have "\<dots> \<longleftrightarrow> glob_matches (g # pat) s"
    using glob_matches_append [of "[g]" pat s] by simp
  finally show ?case .
qed simp

section \<open>Trimming\<close>

text \<open>The first length, in the order of the list, whose prefix matches.\<close>

definition firstPrefix :: "glob list \<Rightarrow> string \<Rightarrow> nat list \<Rightarrow> nat option" where
  "firstPrefix pat s ks = List.find (\<lambda>k. glob_matches pat (take k s)) ks"

lemma ascii_take: "ascii s \<Longrightarrow> ascii (take k s)"
  by (auto simp: ascii_def dest: in_set_takeD)

lemma shortestLoop_find:
  assumes "list_all glob_ok pat" "ascii s"
  shows "shortestLoop (render_globs pat) s k best =
    Inr (case firstPrefix pat s [1..<Suc k] of Some i \<Rightarrow> take i s | None \<Rightarrow> best)"
proof (induction k arbitrary: best)
  case (Suc k)
  have "List.find P (xs @ [x]) = (case List.find P xs of Some y \<Rightarrow> Some y | None \<Rightarrow> if P x then Some x else None)"
    for P and xs :: "nat list" and x by (induction xs) auto
  with Suc Match_render [OF assms(1) ascii_take [OF assms(2), of "Suc k"]] show ?case
    by (auto simp: firstPrefix_def split: option.split)
qed (simp add: firstPrefix_def)

lemma firstPrefix_Some: "firstPrefix pat s ks = Some k \<Longrightarrow> k \<in> set ks \<and> glob_matches pat (take k s)"
  by (auto simp: firstPrefix_def find_Some_iff)

lemma TrimPrefix_take: "TrimPrefix s (take k s) = drop k s"
proof -
  have "HasPrefix s (take k s)" unfolding HasPrefix_append by (rule exI [of _ "drop k s"]) simp
  then show ?thesis by (simp add: TrimPrefix_def min_def)
qed

lemma trimShortest_find:
  assumes "list_all glob_ok pat" "ascii s"
  shows "trimShortest s (render_globs pat) =
    (case firstPrefix pat s [1..<Suc (length s)] of Some k \<Rightarrow> drop k s | None \<Rightarrow> s)"
  using firstPrefix_Some [of pat s "[1..<Suc (length s)]"]
  by (auto simp: trimShortest_def shortestLoop_find [OF assms] TrimPrefix_take split: option.split)

lemma longestLoop_find:
  assumes "list_all glob_ok pat" "ascii s"
  shows "longestLoop (render_globs pat) s k =
    (case firstPrefix pat s (rev [1..<Suc k]) of Some k \<Rightarrow> drop k s | None \<Rightarrow> s)"
proof (induction k)
  case (Suc k)
  with Match_render [OF assms(1) ascii_take [OF assms(2), of "Suc k"]] show ?case
    by (auto simp: firstPrefix_def TrimPrefix_take split: option.split)
qed (simp add: firstPrefix_def)

lemma trimLongest_find:
  assumes "list_all glob_ok pat" "ascii s"
  shows "trimLongest s (render_globs pat) =
    (case firstPrefix pat s (rev [1..<Suc (length s)]) of Some k \<Rightarrow> drop k s | None \<Rightarrow> s)"
  unfolding trimLongest_def by (rule longestLoop_find [OF assms])

text \<open>Patterns whose syntax reads the same backwards, element by element.\<close>

fun reversible :: "glob \<Rightarrow> bool" where
  "reversible (GLit c) = (\<not> gescaped c \<and> rune (gval c) < (128 :: nat) \<and> gval c \<notin> {CHR ''*'', CHR ''?'', CHR 0x5C, CHR ''[''})"
| "reversible (GClass _ _) = False"
| "reversible _ = True"

lemma reversible_render:
  assumes "list_all reversible pat"
  shows "list_all glob_ok (rev pat)" "reverse (render_globs pat) = render_globs (rev pat)"
proof -
  show "list_all glob_ok (rev pat)"
    using assms by (auto simp: list_all_iff) (metis glob_ok.simps reversible.elims(2))
  have one: "reversible g \<Longrightarrow> length (render_glob g) = 1 \<and> ascii (render_glob g)" for g
    by (cases g) (auto simp: render_char_def)
  have "ascii (render_globs pat) \<and> rev (render_globs pat) = render_globs (rev pat)"
    using assms
  proof (induction pat)
    case (Cons g pat)
    from Cons.prems one [of g] obtain c where "render_glob g = [c]" by (auto simp: length_Suc_conv)
    with Cons one [of g] show ?case by (simp add: render_globs_def)
  qed (simp add: render_globs_def)
  then show "reverse (render_globs pat) = render_globs (rev pat)" using reverse_rev by simp
qed

lemma firstPrefix_rev:
  assumes "set ks \<subseteq> {..length s}"
  shows "firstPrefix (rev pat) (rev s) ks = List.find (\<lambda>k. glob_matches pat (drop (length s - k) s)) ks"
  unfolding firstPrefix_def by (simp add: take_rev glob_matches_rev)

lemma find_upt_Least:
  assumes "List.find P [1..<Suc n] = r"
  shows "case r of None \<Rightarrow> \<forall>k \<in> {1..n}. \<not> P k | Some k \<Rightarrow> k \<in> {1..n} \<and> P k \<and> (\<forall>j \<in> {1..<k}. \<not> P j)"
proof (cases r)
  case None
  with assms show ?thesis by (auto simp: find_None_iff)
next
  case (Some k)
  with assms obtain i where i: "i < n" "P (Suc i)" "k = Suc i" "\<forall>j < i. \<not> P (Suc j)"
    by (auto simp: find_Some_iff simp del: upt_Suc)
  have "\<not> P j" if "j \<in> {1..<k}" for j
    using that i(3,4) by (cases j) auto
  with Some i show ?thesis by auto
qed

lemma find_rev_Greatest:
  assumes "List.find P (rev [1..<Suc n]) = r"
  shows "case r of None \<Rightarrow> \<forall>k \<in> {1..n}. \<not> P k | Some k \<Rightarrow> k \<in> {1..n} \<and> P k \<and> (\<forall>j \<in> {k<..n}. \<not> P j)"
  using assms
proof (induction n arbitrary: r)
  case (Suc n)
  show ?case
  proof (cases "P (Suc n)")
    case True
    with Suc.prems show ?thesis by auto
  next
    case False
    with Suc.prems have "List.find P (rev [1..<Suc n]) = r" by simp
    from Suc.IH [OF this] False show ?thesis
      by (cases r) (auto simp: le_Suc_eq)
  qed
qed simp

text \<open>The lengths of the nonempty prefixes that match.\<close>

definition prefixLengths :: "glob list \<Rightarrow> string \<Rightarrow> nat \<Rightarrow> bool" where
  "prefixLengths pat s k \<longleftrightarrow> k \<in> {1..length s} \<and> glob_matches pat (take k s)"

definition suffixLengths :: "glob list \<Rightarrow> string \<Rightarrow> nat \<Rightarrow> bool" where
  "suffixLengths pat s k \<longleftrightarrow> k \<in> {1..length s} \<and> glob_matches pat (drop (length s - k) s)"

lemma trimShortest_least:
  assumes "list_all glob_ok pat" "ascii s" "prefixLengths pat s k" "\<forall>j < k. \<not> prefixLengths pat s j"
  shows "trimShortest s (render_globs pat) = drop k s"
proof (cases "firstPrefix pat s [1..<Suc (length s)]")
  case None
  from find_upt_Least [OF this [unfolded firstPrefix_def]] assms(3) show ?thesis
    by (auto simp: prefixLengths_def)
next
  case (Some i)
  from find_upt_Least [OF this [unfolded firstPrefix_def]]
  have i: "prefixLengths pat s i" "\<And>j. j \<in> {1..<i} \<Longrightarrow> \<not> glob_matches pat (take j s)"
    by (auto simp: prefixLengths_def)
  have "i = k" using i assms(3,4) by (cases i k rule: linorder_cases) (auto simp: prefixLengths_def)
  with Some show ?thesis by (simp add: trimShortest_find [OF assms(1,2)] del: upt_Suc)
qed

lemma trimLongest_greatest:
  assumes "list_all glob_ok pat" "ascii s" "prefixLengths pat s k" "\<forall>j > k. \<not> prefixLengths pat s j"
  shows "trimLongest s (render_globs pat) = drop k s"
proof (cases "firstPrefix pat s (rev [1..<Suc (length s)])")
  case None
  from find_rev_Greatest [OF this [unfolded firstPrefix_def]] assms(3) show ?thesis
    by (auto simp: prefixLengths_def)
next
  case (Some i)
  from find_rev_Greatest [OF this [unfolded firstPrefix_def]]
  have i: "prefixLengths pat s i" "\<And>j. j \<in> {i<..length s} \<Longrightarrow> \<not> glob_matches pat (take j s)"
    by (auto simp: prefixLengths_def)
  have "i = k" using i assms(3,4) by (cases i k rule: linorder_cases) (auto simp: prefixLengths_def)
  with Some show ?thesis by (simp add: trimLongest_find [OF assms(1,2)] del: upt_Suc)
qed

lemma trim_none:
  assumes "list_all glob_ok pat" "ascii s" "\<forall>k. \<not> prefixLengths pat s k"
  shows "trimShortest s (render_globs pat) = s" "trimLongest s (render_globs pat) = s"
  using assms(3) firstPrefix_Some [of pat s "[1..<Suc (length s)]"] firstPrefix_Some [of pat s "rev [1..<Suc (length s)]"]
  by (auto simp: trimShortest_find [OF assms(1,2)] trimLongest_find [OF assms(1,2)] prefixLengths_def
      simp del: upt_Suc split: option.split)

lemma suffix_prefix: "prefixLengths (rev pat) (rev s) = suffixLengths pat s"
  by (auto simp: prefixLengths_def suffixLengths_def take_rev glob_matches_rev fun_eq_iff)

lemma ascii_rev: "ascii (rev s) \<longleftrightarrow> ascii s"
  by (simp add: ascii_def)

lemma trimSuffix_reverse:
  assumes "list_all reversible pat" "ascii s" "trimShortest (rev s) (render_globs (rev pat)) = drop k (rev s)"
  shows "trimShortestSuffix s [render_globs pat] = take (length s - k) s"
  using assms reversible_render [OF assms(1)] reverse_rev [OF assms(2)]
  by (simp add: trimShortestSuffix_def drop_rev reverse_rev ascii_rev ascii_take)

lemma trimLongSuffix_reverse:
  assumes "list_all reversible pat" "ascii s" "trimLongest (rev s) (render_globs (rev pat)) = drop k (rev s)"
  shows "trimLongestSuffix s [render_globs pat] = take (length s - k) s"
  using assms reversible_render [OF assms(1)] reverse_rev [OF assms(2)]
  by (simp add: trimLongestSuffix_def drop_rev reverse_rev ascii_rev ascii_take)

text \<open>A character class as a prefix and as a suffix.\<close>

lemma class_suffix_ignored: "trimShortestSuffix ''ab1'' [''[0-9]''] = ''ab1''"
proof -
  have "Match '']9-0['' (CHR ''1'' # t) = Inr False" for t
    by (simp add: Match.simps scanChunk_def matchChunk.simps)
  then have "trimShortest ''1ba'' '']9-0['' = ''1ba''"
    by (simp add: trimShortest_def eval_nat_numeral)
  then show ?thesis by (simp add: trimShortestSuffix_def reverse_rev)
qed

lemma class_prefix_trimmed: "trimShortestPrefix ''1ab'' [''[0-9]''] = ''ab''"
proof -
  let ?pat = "[GClass False [GRange (GChar False (CHR ''0'')) (GChar False (CHR ''9''))]]"
  have r: "''[0-9]'' = render_globs ?pat" by (simp add: render_globs_def render_char_def)
  have "trimShortest ''1ab'' (render_globs ?pat) = drop 1 ''1ab''"
    by (rule trimShortest_least) (auto simp: class_char_ok_def prefixLengths_def)
  then show ?thesis unfolding r by (simp add: trimShortestPrefix_def)
qed

section \<open>Properties\<close>

text \<open>
  C26. Removing a prefix: for ASCII values and any well-formed pattern, the short form removes the
  shortest nonempty prefix that matches the pattern and the long form the longest; without such a prefix the value
  is unchanged.
\<close>

theorem trim_prefix_correct:
  assumes "list_all glob_ok pat" "ascii s"
  shows "((\<forall>k. \<not> prefixLengths pat s k) \<longrightarrow>
      trimShortestPrefix s [render_globs pat] = s \<and> trimLongestPrefix s [render_globs pat] = s) \<and>
    (\<forall>k. prefixLengths pat s k \<and> (\<forall>j < k. \<not> prefixLengths pat s j) \<longrightarrow>
      trimShortestPrefix s [render_globs pat] = drop k s) \<and>
    (\<forall>k. prefixLengths pat s k \<and> (\<forall>j > k. \<not> prefixLengths pat s j) \<longrightarrow>
      trimLongestPrefix s [render_globs pat] = drop k s)"
  using trim_none [OF assms] trimShortest_least [OF assms] trimLongest_greatest [OF assms]
  by (simp add: trimShortestPrefix_def trimLongestPrefix_def)

theorem trim_prefix_correct_witness: "trimLongestPrefix ''a/b/c'' [''*/''] = ''c''"
proof -
  define pat where "pat = [GStar, GLit (GChar False (CHR ''/''))]"
  have r: "''*/'' = render_globs pat" "list_all glob_ok pat" "ascii ''a/b/c''" unfolding pat_def by code_simp+
  have p: "prefixLengths pat ''a/b/c'' 4" "\<not> prefixLengths pat ''a/b/c'' 5" unfolding pat_def by code_simp+
  have "\<not> prefixLengths pat ''a/b/c'' j" if "j > 4" for j
    using p(2) that by (cases "j = 5") (simp_all add: prefixLengths_def)
  with trim_prefix_correct [OF r(2,3)] p(1) have "trimLongestPrefix ''a/b/c'' [render_globs pat] = drop 4 ''a/b/c''" by blast
  then show ?thesis unfolding r(1) by simp
qed

text \<open>
  Removing a suffix: the same for suffixes, for patterns of plain characters, question marks and stars. The code reverses
  the pattern byte by byte; a character class does not survive that, so no suffix is removed
  for a class although the same class works for prefixes.
\<close>

theorem trim_suffix_correct:
  assumes "list_all reversible pat" "ascii s"
  shows "((\<forall>k. \<not> suffixLengths pat s k) \<longrightarrow>
      trimShortestSuffix s [render_globs pat] = s \<and> trimLongestSuffix s [render_globs pat] = s) \<and>
    (\<forall>k. suffixLengths pat s k \<and> (\<forall>j < k. \<not> suffixLengths pat s j) \<longrightarrow>
      trimShortestSuffix s [render_globs pat] = take (length s - k) s) \<and>
    (\<forall>k. suffixLengths pat s k \<and> (\<forall>j > k. \<not> suffixLengths pat s j) \<longrightarrow>
      trimLongestSuffix s [render_globs pat] = take (length s - k) s) \<and>
    trimShortestSuffix ''ab1'' [''[0-9]''] = ''ab1'' \<and> trimShortestPrefix ''1ab'' [''[0-9]''] = ''ab''"
proof -
  have a: "ascii (rev s)" "list_all glob_ok (rev pat)" using assms reversible_render by (simp_all add: ascii_rev)
  note N = trim_none [OF a(2,1), unfolded suffix_prefix]
  note S = trimShortest_least [OF a(2,1), unfolded suffix_prefix] trimLongest_greatest [OF a(2,1), unfolded suffix_prefix]
  show ?thesis
    using class_suffix_ignored class_prefix_trimmed N S trimSuffix_reverse [OF assms] trimLongSuffix_reverse [OF assms]
      trimSuffix_reverse [OF assms, of 0] trimLongSuffix_reverse [OF assms, of 0] by auto
qed

theorem trim_suffix_correct_witness: "trimShortestSuffix ''a.tar.gz'' [''.*''] = ''a.tar''"
proof -
  define pat where "pat = [GLit (GChar False (CHR ''.'')), GStar]"
  have r: "''.*'' = render_globs pat" "list_all reversible pat" "ascii ''a.tar.gz''" unfolding pat_def by code_simp+
  have p: "suffixLengths pat ''a.tar.gz'' 3" "\<not> suffixLengths pat ''a.tar.gz'' 0"
    "\<not> suffixLengths pat ''a.tar.gz'' 1" "\<not> suffixLengths pat ''a.tar.gz'' 2" unfolding pat_def by code_simp+
  have "\<not> suffixLengths pat ''a.tar.gz'' j" if "j < 3" for j
  proof -
    have "j = 0 \<or> j = 1 \<or> j = 2" using that by linarith
    with p show ?thesis by blast
  qed
  with trim_suffix_correct [OF r(2,3)] p(1)
  have "trimShortestSuffix ''a.tar.gz'' [render_globs pat] = take (length ''a.tar.gz'' - 3) ''a.tar.gz''" by blast
  then show ?thesis unfolding r(1) by simp
qed



end
