(* ===== verification/Envsubst_Template.thy ===== *)
theory Envsubst_Template
  imports Envsubst_Eval
begin

text \<open>
  Printing a template and evaluating the printed text gives the template's value: the end-to-end
  correctness of scanner, parser and evaluation in \<open>envsubst\<close> for literal text, plain variables and
  variables with a default.
\<close>

section \<open>Positions\<close>

text \<open>The scanner has read the token \<open>T\<close> since its start and has \<open>R\<close> ahead.\<close>

definition tok :: "scanner \<Rightarrow> string \<Rightarrow> string \<Rightarrow> bool" where
  "tok s T R \<longleftrightarrow> (\<exists>pre. buf s = pre @ T @ R \<and> start s = length pre \<and> pos s = length pre + length T)"

definition ahead :: "scanner \<Rightarrow> string \<Rightarrow> bool" where
  "ahead s R \<longleftrightarrow> pos s \<le> length (buf s) \<and> drop (pos s) (buf s) = R"

lemma tok_string: "tok s T R \<Longrightarrow> scanner_string s = T"
  by (auto simp: tok_def scanner_string_def)

lemma tok_ahead: "tok s T R \<Longrightarrow> ahead s R"
  by (auto simp: tok_def ahead_def)

lemma ahead_tok: "ahead s R \<Longrightarrow> tok (s\<lparr>start := pos s\<rparr>) [] R"
  by (auto simp: tok_def ahead_def intro!: exI [of _ "take (pos s) (buf s)"] append_take_drop_id [symmetric])

lemma tok_update [simp]:
  "tok (s\<lparr>width := w\<rparr>) T R = tok s T R" "tok (s\<lparr>accept := a\<rparr>) T R = tok s T R"
  "tok (s\<lparr>smode := m\<rparr>) T R = tok s T R" "tok (s\<lparr>escapeChars := e\<rparr>) T R = tok s T R"
  "ahead (s\<lparr>width := w\<rparr>) R = ahead s R" "ahead (s\<lparr>accept := a\<rparr>) R = ahead s R"
  "ahead (s\<lparr>smode := m\<rparr>) R = ahead s R" "ahead (s\<lparr>escapeChars := e\<rparr>) R = ahead s R"
  "ahead (s\<lparr>start := i\<rparr>) R = ahead s R"
  by (simp_all add: tok_def ahead_def)

lemma ahead_remaining: "ahead s R \<Longrightarrow> remaining s = length R"
  by (auto simp: ahead_def remaining_def)

lemma read_ahead:
  assumes "ahead s R" "R \<noteq> []"
  shows "scanner_read s = (fst (DecodeRuneInString R),
    s\<lparr>width := snd (DecodeRuneInString R), pos := pos s + snd (DecodeRuneInString R)\<rparr>)"
proof -
  have "pos s < length (buf s)" using assms by (auto simp: ahead_def)
  then show ?thesis using assms by (simp add: scanner_read_def ahead_def split: prod.split)
qed

lemma read_end: "ahead s [] \<Longrightarrow> scanner_read s = (eof, s\<lparr>width := 0\<rparr>)"
  by (auto simp: scanner_read_def ahead_def)

lemma read_ascii:
  assumes "ahead s (c # R)" "rune c < (128 :: nat)"
  shows "scanner_read s = (rune c, s\<lparr>width := 1, pos := pos s + 1\<rparr>)"
    and "peek s = (rune c, s\<lparr>width := 1\<rparr>)"
  using read_ahead [OF assms(1)] assms(2) by (simp_all add: peek_def unread_def)

lemma tok_advance: "tok s T (A @ R) \<Longrightarrow> tok (s\<lparr>pos := pos s + length A\<rparr>) (T @ A) R"
  by (auto simp: tok_def)

lemma ahead_advance: "ahead s (A @ R) \<Longrightarrow> ahead (s\<lparr>pos := pos s + length A\<rparr>) R"
proof -
  assume a: "ahead s (A @ R)"
  then have "length (A @ R) = length (buf s) - pos s" by (auto simp: ahead_def simp flip: length_drop)
  moreover from a have "drop (length A) (drop (pos s) (buf s)) = R" by (simp add: ahead_def)
  ultimately show ?thesis using a by (auto simp: ahead_def add.commute)
qed

section \<open>Reading a token\<close>

text \<open>A scanner for which a backslash is an ordinary character.\<close>

definition calm :: "scanner \<Rightarrow> bool" where
  "calm s \<longleftrightarrow> smode s AND mode_scanEscape = 0 \<or> escapeChars s AND backslash = 0"

lemma calm_framed: "framed s s' \<Longrightarrow> calm s' = calm s"
  by (simp add: calm_def framed_def)

lemma ordinary:
  assumes "calm s" "r \<noteq> rune (CHR ''$'')"
  shows "scanLbrack r s = (False, s)" "scanEscaped r s = (False, s)"
  using assms by (auto simp: scanLbrack_def scanEscaped_def calm_def shouldEscape_def)

lemma loop_accept:
  assumes "calm s" "scanner_read s = (r, s1)" "r \<noteq> eof" "r \<noteq> rune (CHR ''$'')"
  shows "scanIdentLoop s = (if accept s r (pos s1 - start s) then scanIdentLoop s1 else unread s1)"
proof -
  have f: "framed s s1" by (rule framed_read [OF assms(2)])
  then have "calm s1" using assms(1) calm_framed by blast
  note o = ordinary [OF this assms(4)]
  show ?thesis using assms(3) f
    by (subst scanIdentLoop.simps) (simp add: assms(2) o framed_def)
qed

lemma decode_within:
  assumes "X \<noteq> []" "R = [] \<or> rune (hd R) < (128 :: nat)"
  shows "snd (DecodeRuneInString (X @ R)) \<le> length X"
proof (cases "rune (hd X) < (128 :: nat)")
  case True
  with assms(1) show ?thesis by (cases X) auto
next
  case False
  show ?thesis
  proof (rule ccontr)
    assume w: "\<not> ?thesis"
    obtain c X' where X: "X = c # X'" using assms(1) by (cases X) auto
    with False DecodeRune_high [of c "X' @ R"]
    have high: "\<forall>d \<in> set (take (snd (DecodeRuneInString (X @ R))) (X @ R)). 128 \<le> (rune d :: nat)" by simp
    have "R \<noteq> []" using w DecodeRune_width [of "X @ R"] assms(1) by auto
    with w have "hd R \<in> set (take (snd (DecodeRuneInString (X @ R))) (X @ R))"
      by (cases R) (auto simp: take_Cons')
    with high have "128 \<le> (rune (hd R) :: nat)" by blast
    with assms(2) \<open>R \<noteq> []\<close> show False by simp
  qed
qed

text \<open>
  Text without dollars that the accept function takes is read in one go, whatever its encoding, up to an
  ASCII character or the end.
\<close>

definition readable :: "scanner \<Rightarrow> string \<Rightarrow> bool" where
  "readable s X \<longleftrightarrow> (\<forall>c \<in> set X. c \<noteq> CHR 0x00 \<and> c \<noteq> CHR ''$'') \<and>
     (\<forall>c \<in> set X. \<forall>i. rune c < (128 :: nat) \<longrightarrow> accept s (rune c) i) \<and>
     (ascii X \<or> (\<forall>r \<ge> 128. \<forall>i. accept s r i))"

lemma readable_rune:
  assumes "readable s X" "X \<noteq> []"
  shows "fst (DecodeRuneInString (X @ R)) \<notin> {eof, rune (CHR ''$'')}" "accept s (fst (DecodeRuneInString (X @ R))) i"
proof -
  obtain c X' where X: "X = c # X'" using assms(2) by (cases X) auto
  have c: "c \<noteq> CHR 0x00" "c \<noteq> CHR ''$''" using assms(1) X by (auto simp: readable_def)
  have inj: "(rune c :: nat) = rune d \<longleftrightarrow> c = d" for d by simp
  show "fst (DecodeRuneInString (X @ R)) \<notin> {eof, rune (CHR ''$'')}"
  proof (cases "rune c < (128 :: nat)")
    case True
    then show ?thesis using X c inj [of "CHR 0x00"] inj [of "CHR ''$''"] by (auto simp: eof_def)
  next
    case False
    then show ?thesis using X DecodeRune_high [of c "X' @ R"] by (auto simp: eof_def)
  qed
  show "accept s (fst (DecodeRuneInString (X @ R))) i"
  proof (cases "rune c < (128 :: nat)")
    case True
    then show ?thesis using X assms(1) by (auto simp: readable_def)
  next
    case False
    then show ?thesis using X assms(1) DecodeRune_high [of c "X' @ R"] by (auto simp: readable_def)
  qed
qed

lemma readable_drop: "readable s X \<Longrightarrow> readable s (drop w X)"
  unfolding readable_def by (meson ascii_drop in_set_dropD)

lemma consume_plain:
  assumes "calm s" "tok s T (X @ R)" "readable s X" "R = [] \<or> rune (hd R) < (128 :: nat)"
  shows "\<exists>s'. scanIdentLoop s = scanIdentLoop s' \<and> framed s s' \<and> tok s' (T @ X) R"
  using assms
proof (induction X arbitrary: s T rule: measure_induct_rule [of length])
  case (less X)
  show ?case
  proof (cases "X = []")
    case True
    with less.prems show ?thesis by (intro exI [of _ s]) simp
  next
    case False
    define w where "w = snd (DecodeRuneInString (X @ R))"
    have w: "1 \<le> w" "w \<le> length X"
      using DecodeRune_width [of "X @ R"] decode_within [OF False less.prems(4)] False by (auto simp: w_def)
    define s1 where "s1 = s\<lparr>width := w, pos := pos s + w\<rparr>"
    have read: "scanner_read s = (fst (DecodeRuneInString (X @ R)), s1)"
      unfolding s1_def w_def by (rule read_ahead) (use tok_ahead [OF less.prems(2)] False in simp_all)
    have loop: "scanIdentLoop s = scanIdentLoop s1"
      using loop_accept [OF less.prems(1) read] readable_rune [OF less.prems(3) False] by simp
    have f: "framed s s1" by (rule framed_read [OF read])
    have "tok s T (take w X @ drop w X @ R)" using less.prems(2) by (simp flip: append_assoc)
    from tok_advance [OF this] w(2) have t: "tok s1 (T @ take w X) (drop w X @ R)"
      by (simp add: s1_def min_absorb2 flip: append_assoc) (simp add: tok_def)
    have rd: "readable s1 (drop w X)"
      using readable_drop [OF less.prems(3)] f by (simp add: readable_def framed_def)
    have "length (drop w X) < length X" using w False by (cases X) auto
    from less.IH [OF this _ t rd less.prems(4)] less.prems(1) f calm_framed
    obtain s' where "scanIdentLoop s1 = scanIdentLoop s'" "framed s1 s'" "tok s' ((T @ take w X) @ drop w X) R" by blast
    with loop framed_trans [OF f] show ?thesis by auto
  qed
qed

section \<open>Text\<close>

definition text_mode :: "scanner \<Rightarrow> bool" where
  "text_mode s \<longleftrightarrow> smode s = mode_scanIdent OR mode_scanLbrack OR mode_scanEscape \<and>
     escapeChars s = dollar \<and> accept s = acceptRune"

lemma text_bits:
  assumes "text_mode s"
  shows "smode s AND mode_scanIdent \<noteq> 0" "smode s AND mode_scanLbrack \<noteq> 0" "smode s AND mode_scanEscape \<noteq> 0"
    "smode s AND mode_scanRbrack = 0" "shouldEscape s dollar" "calm s"
  using assms by (simp_all add: text_mode_def mode_defs shouldEscape_def calm_def)

lemma text_framed: "framed s s' \<Longrightarrow> text_mode s' = text_mode s"
  by (simp add: text_mode_def framed_def)

text \<open>Escaping doubles the dollars.\<close>

definition escapeDollar :: "string \<Rightarrow> string" where
  "escapeDollar l = concat (map (\<lambda>c. if c = CHR ''$'' then ''$$'' else [c]) l)"

lemma escapeDollar_simps [simp]:
  "escapeDollar [] = []" "escapeDollar (a @ b) = escapeDollar a @ escapeDollar b"
  "escapeDollar (c # l) = (if c = CHR ''$'' then ''$$'' else [c]) @ escapeDollar l"
  by (simp_all add: escapeDollar_def)

lemma escapeDollar_plain: "CHR ''$'' \<notin> set l \<Longrightarrow> escapeDollar l = l"
  by (induction l) auto

text \<open>A doubled dollar is read as one.\<close>

lemma double_dollar:
  assumes "text_mode s" "tok s T (CHR ''$'' # CHR ''$'' # R)" "scanner_read s = (r, s1)"
    "scanLbrack r s1 = (lb, s2)" "scanEscaped r s2 = (esc, s3)"
  shows "r = rune (CHR ''$'') \<and> \<not> lb \<and> esc \<and> framed s (skip s3) \<and> tok (skip s3) (T @ ''$'') R"
proof -
  have a: "ahead s (CHR ''$'' # CHR ''$'' # R)" by (rule tok_ahead [OF assms(2)])
  have s1: "r = rune (CHR ''$'')" "s1 = s\<lparr>width := 1, pos := pos s + 1\<rparr>"
    using read_ascii(1) [OF a] assms(3) by simp_all
  have m1: "text_mode s1" using assms(1) s1(2) by (simp add: text_mode_def)
  from tok_advance [of s T "''$''" "CHR ''$'' # R"] assms(2)
  have t1: "tok s1 (T @ ''$'') (CHR ''$'' # R)" by (simp add: s1(2)) (simp add: tok_def)
  have "scanLbrack r s1 = (False, s1\<lparr>width := 1\<rparr>)"
    using read_ascii(1) [OF tok_ahead [OF t1]] text_bits(2) [OF m1] by (simp add: scanLbrack_def s1(1) unread_def)
  with assms(4) have lb: "\<not> lb" "s2 = s1\<lparr>width := 1\<rparr>" by simp_all
  have m2: "text_mode s2" using m1 lb(2) by (simp add: text_mode_def)
  have t2: "ahead s2 (CHR ''$'' # R)" using tok_ahead [OF t1] lb(2) by simp
  have "scanEscaped r s2 = (True, s2\<lparr>width := 1\<rparr>)"
    using read_ascii(2) [OF t2] text_bits(3,5) [OF m2] by (simp add: scanEscaped_def s1(1))
  with assms(5) have esc: "esc" "s3 = s1\<lparr>width := 1\<rparr>" using lb(2) by simp_all
  have "framed s (skip s3)" using s1(2) esc(2) by (simp add: framed_def skip_def)
  moreover have "tok (skip s3) (T @ ''$'') R"
    using t1 esc(2) s1(2) by (auto simp: tok_def skip_def)
  ultimately show ?thesis using s1(1) lb(1) esc(1) by blast
qed

lemma consume_text:
  assumes "text_mode s" "tok s T (escapeDollar l @ R)" "CHR 0x00 \<notin> set l" "R = [] \<or> rune (hd R) < (128 :: nat)"
  shows "\<exists>s'. scanIdentLoop s = scanIdentLoop s' \<and> framed s s' \<and> tok s' (T @ l) R"
  using assms
proof (induction l arbitrary: s T rule: measure_induct_rule [of length])
  case (less l)
  show ?case
  proof (cases "l = []")
    case True
    with less.prems show ?thesis by (intro exI [of _ s]) simp
  next
    case False
    then obtain c l' where l: "l = c # l'" by (cases l) auto
    show ?thesis
    proof (cases "c = CHR ''$''")
      case True
      obtain r s1 where r: "scanner_read s = (r, s1)" by (cases "scanner_read s")
      obtain lb s2 where lb: "scanLbrack r s1 = (lb, s2)" by (cases "scanLbrack r s1")
      obtain esc s3 where esc: "scanEscaped r s2 = (esc, s3)" by (cases "scanEscaped r s2")
      have "tok s T (CHR ''$'' # CHR ''$'' # escapeDollar l' @ R)" using less.prems(2) l True by simp
      note d = double_dollar [OF less.prems(1) this r lb esc]
      then have loop: "scanIdentLoop s = scanIdentLoop (skip s3)"
        using r lb esc by (subst scanIdentLoop.simps) (simp add: eof_def)
      have "text_mode (skip s3)" using d less.prems(1) text_framed by blast
      with less.IH [of l' "skip s3" "T @ ''$''"] d less.prems(3,4) l
      obtain s' where "scanIdentLoop (skip s3) = scanIdentLoop s'" "framed (skip s3) s'" "tok s' ((T @ ''$'') @ l') R" by auto
      with loop d framed_trans l True show ?thesis by auto
    next
      case False
      define X where "X = takeWhile (\<lambda>c. c \<noteq> CHR ''$'') l"
      define Y where "Y = dropWhile (\<lambda>c. c \<noteq> CHR ''$'') l"
      have XY: "l = X @ Y" "CHR ''$'' \<notin> set X" "X \<noteq> []" using False l by (auto simp: X_def Y_def dest: set_takeWhileD)
      have Y: "Y = [] \<or> hd Y = CHR ''$''" using hd_dropWhile [of "\<lambda>c. c \<noteq> CHR ''$''" l] by (auto simp: Y_def)
      have t: "tok s T (X @ escapeDollar Y @ R)" using less.prems(2) XY escapeDollar_plain by simp
      have rd: "readable s X" using less.prems(1,3) XY by (auto simp: readable_def text_mode_def acceptRune_def)
      have "escapeDollar Y @ R = [] \<or> rune (hd (escapeDollar Y @ R)) < (128 :: nat)"
        using Y less.prems(4) by (cases Y) auto
      from consume_plain [OF text_bits(6) [OF less.prems(1)] t rd this]
      obtain s1 where s1: "scanIdentLoop s = scanIdentLoop s1" "framed s s1" "tok s1 (T @ X) (escapeDollar Y @ R)" by blast
      have "length Y < length l" using XY by (cases X) auto
      moreover have "text_mode s1" using s1(2) less.prems(1) text_framed by blast
      ultimately obtain s' where "scanIdentLoop s1 = scanIdentLoop s'" "framed s1 s'" "tok s' ((T @ X) @ Y) R"
        using less.IH [of Y s1 "T @ X"] s1(3) less.prems(3,4) XY(1) by auto
      with s1(1,2) framed_trans XY(1) show ?thesis by auto
    qed
  qed
qed

section \<open>Tokens\<close>

lemma scan_as_loop:
  assumes "scanner_read (s\<lparr>start := pos s\<rparr>) = (r, s1)" "r \<noteq> eof" "scanLbrack r s1 = (False, s2)"
    "\<not> scanRbrack r s2" "smode s AND mode_scanIdent \<noteq> 0" "scanEscaped r s2 = (esc, s3)"
    "esc \<or> accept s3 r (pos s3 - start s3)"
  shows "scan s = (tokenIdent, scanIdentLoop (s\<lparr>start := pos s\<rparr>))"
proof -
  have "smode s2 = smode s"
    using framed_read [OF assms(1)] framed_Lbrack [OF assms(3)] by (simp add: framed_def)
  with assms show ?thesis
    by (subst scanIdentLoop.simps) (auto simp: scan_def scanIdent_def)
qed

text \<open>
  What the scanner takes for the end of the input, a NUL byte included, and where the text of a template ends:
  there or at an opening brace after a dollar.
\<close>

definition at_eof :: "string \<Rightarrow> bool" where
  "at_eof R \<longleftrightarrow> R = [] \<or> hd R = CHR 0x00"

definition text_end :: "string \<Rightarrow> bool" where
  "text_end R \<longleftrightarrow> at_eof R \<or> (\<exists>R'. R = CHR ''$'' # CHR ''{'' # R')"

lemma read_eof:
  assumes "ahead s R" "at_eof R"
  shows "\<exists>s1. scanner_read s = (eof, s1) \<and> (\<exists>w. unread s1 = s\<lparr>width := w\<rparr>)"
proof (cases R)
  case Nil
  with read_end assms(1) show ?thesis by (auto simp: unread_def)
next
  case (Cons c R')
  with assms have "ahead s (CHR 0x00 # R')" by (simp add: at_eof_def)
  from read_ascii(1) [OF this] show ?thesis by (auto simp: unread_def eof_def)
qed

lemma read_Lbrack:
  assumes "ahead s (CHR ''$'' # CHR ''{'' # R)" "smode s AND mode_scanLbrack \<noteq> 0" "scanner_read s = (r, s1)"
  shows "r = rune (CHR ''$'')" "scanLbrack r s1 = (True, s\<lparr>width := 1, pos := pos s + 2\<rparr>)"
proof -
  have r: "r = rune (CHR ''$'')" "s1 = s\<lparr>width := 1, pos := pos s + 1\<rparr>"
    using read_ascii(1) [OF assms(1)] assms(3) by simp_all
  have "ahead s1 (CHR ''{'' # R)" using ahead_advance [of s "''$''"] assms(1) r(2) by (simp add: ahead_def)
  from read_ascii(1) [OF this] show "scanLbrack r s1 = (True, s\<lparr>width := 1, pos := pos s + 2\<rparr>)"
    using assms(2) by (simp add: scanLbrack_def r)
  show "r = rune (CHR ''$'')" by (rule r(1))
qed

lemma loop_text_end:
  assumes "text_mode s" "ahead s R" "text_end R"
  shows "\<exists>w. scanIdentLoop s = s\<lparr>width := w\<rparr>"
proof (cases "at_eof R")
  case True
  with read_eof assms(2) obtain s1 w where "scanner_read s = (eof, s1)" "unread s1 = s\<lparr>width := w\<rparr>" by blast
  then show ?thesis by (subst scanIdentLoop.simps) auto
next
  case False
  with assms(3) obtain R' where R: "R = CHR ''$'' # CHR ''{'' # R'" by (auto simp: text_end_def)
  obtain r s1 where r: "scanner_read s = (r, s1)" by (cases "scanner_read s")
  note lb = read_Lbrack [OF assms(2) [unfolded R] text_bits(2) [OF assms(1)] r]
  then show ?thesis using r by (subst scanIdentLoop.simps) (simp add: eof_def unread_def, blast)
qed

lemma text_end_ascii: "text_end R \<Longrightarrow> R = [] \<or> rune (hd R) < (128 :: nat)"
  by (auto simp: text_end_def at_eof_def)

lemma scan_text:
  assumes "text_mode s" "ahead s (escapeDollar l @ R)" "CHR 0x00 \<notin> set l" "text_end R" "l \<noteq> []"
  shows "\<exists>s'. scan s = (tokenIdent, s') \<and> tok s' l R"
proof -
  let ?s = "s\<lparr>start := pos s\<rparr>"
  have m: "text_mode ?s" using assms(1) by (simp add: text_mode_def)
  have t: "tok ?s [] (escapeDollar l @ R)" by (rule ahead_tok [OF assms(2)])
  obtain r s1 where r: "scanner_read ?s = (r, s1)" by (cases "scanner_read ?s")
  obtain lb s2 where lb: "scanLbrack r s1 = (lb, s2)" by (cases "scanLbrack r s1")
  obtain esc s3 where esc: "scanEscaped r s2 = (esc, s3)" by (cases "scanEscaped r s2")
  obtain c l' where l: "l = c # l'" using assms(5) by (cases l) auto
  have f: "framed ?s s3" using framed_read [OF r] framed_Lbrack [OF lb] framed_Escaped [OF esc] framed_trans by blast
  then have acc: "accept s3 r (pos s3 - start s3)" using m by (simp add: framed_def text_mode_def acceptRune_def)
  have "r \<noteq> eof \<and> \<not> lb"
  proof (cases "c = CHR ''$''")
    case True
    then have "tok ?s [] (CHR ''$'' # CHR ''$'' # escapeDollar l' @ R)" using t l by simp
    from double_dollar [OF m this r lb esc] show ?thesis by (simp add: eof_def)
  next
    case False
    have "readable ?s [c]" using assms(3) l False m by (auto simp: readable_def text_mode_def acceptRune_def)
    note n = readable_rune [OF this, of "escapeDollar l' @ R"]
    have "r = fst (DecodeRuneInString ([c] @ escapeDollar l' @ R))"
      using read_ahead [OF tok_ahead [OF t]] r l False by simp
    with n have "r \<noteq> eof" "r \<noteq> rune (CHR ''$'')" by auto
    moreover have "calm s1" using framed_read [OF r] m text_bits(6) text_framed by blast
    ultimately show ?thesis using ordinary(1) lb by auto
  qed
  moreover have "\<not> scanRbrack r s2"
    using text_bits(4) [OF m] framed_read [OF r] framed_Lbrack [OF lb] by (simp add: scanRbrack_def framed_def)
  ultimately have "scan s = (tokenIdent, scanIdentLoop ?s)"
    using scan_as_loop [OF r _ _ _ _ esc] lb acc text_bits(1) [OF assms(1)] by auto
  moreover obtain s' where s': "scanIdentLoop ?s = scanIdentLoop s'" "framed ?s s'" "tok s' l R"
    using consume_text [OF m t assms(3) text_end_ascii [OF assms(4)]] by auto
  moreover have "text_mode s'" using s'(2) m text_framed by blast
  from loop_text_end [OF this tok_ahead [OF s'(3)] assms(4)] obtain w where "scanIdentLoop s' = s'\<lparr>width := w\<rparr>" by blast
  ultimately show ?thesis by auto
qed

lemma scan_Lbrack:
  assumes "smode s AND mode_scanLbrack \<noteq> 0" "ahead s (CHR ''$'' # CHR ''{'' # R)"
  shows "\<exists>s'. scan s = (tokenLbrack, s') \<and> ahead s' R"
proof -
  let ?s = "s\<lparr>start := pos s\<rparr>"
  obtain r s1 where r: "scanner_read ?s = (r, s1)" by (cases "scanner_read ?s")
  note lb = read_Lbrack [OF _ _ r, of R]
  have "ahead (?s\<lparr>width := 1, pos := pos s + 2\<rparr>) R"
    using ahead_advance [of s "''${''" R] assms(2) by (simp add: ahead_def)
  then show ?thesis using lb assms r by (simp add: scan_def eof_def)
qed

lemma scan_end: "ahead s R \<Longrightarrow> at_eof R \<Longrightarrow> \<exists>s'. scan s = (tokenEOF, s')"
  using read_eof [of "s\<lparr>start := pos s\<rparr>" R] by (auto simp: scan_def)

lemma scan_Rbrack:
  assumes "ahead s (CHR ''}'' # R)" "smode s = mode_scanRbrack"
  shows "\<exists>s'. scan s = (tokenRbrack, s') \<and> ahead s' R"
proof -
  have r: "scanner_read (s\<lparr>start := pos s\<rparr>) = (rune (CHR ''}''), s\<lparr>start := pos s, width := 1, pos := pos s + 1\<rparr>)"
    using read_ascii(1) [of "s\<lparr>start := pos s\<rparr>" "CHR ''}''" R] assms(1) by simp
  have "ahead (s\<lparr>start := pos s, width := 1, pos := pos s + 1\<rparr>) R"
    using ahead_advance [of s "''}''" R] assms(1) by (simp add: ahead_def)
  then show ?thesis using r assms(2)
    by (simp add: scan_def eof_def scanLbrack_same scanRbrack_def mode_scanRbrack_def)
qed

text \<open>A token of plain characters, up to one that is not accepted.\<close>

lemma scan_plain:
  assumes "calm s" "smode s AND mode_scanIdent \<noteq> 0" "ahead s (X @ c # R)" "X \<noteq> []" "readable s X"
    and "smode s AND mode_scanRbrack = 0"
    and "rune c < (128 :: nat)" "c \<noteq> CHR 0x00" "c \<noteq> CHR ''$''" "\<And>i. \<not> accept s (rune c) i"
  shows "\<exists>s'. scan s = (tokenIdent, s') \<and> tok s' X (c # R) \<and> framed (s\<lparr>start := pos s\<rparr>) s'"
proof -
  let ?s = "s\<lparr>start := pos s\<rparr>"
  have cs: "calm ?s" "readable ?s X" using assms(1,5) by (simp_all add: calm_def readable_def)
  have t: "tok ?s [] (X @ c # R)" by (rule ahead_tok [OF assms(3)])
  obtain r s1 where r: "scanner_read ?s = (r, s1)" by (cases "scanner_read ?s")
  have f: "framed ?s s1" by (rule framed_read [OF r])
  have "r = fst (DecodeRuneInString (X @ c # R))" using read_ahead [OF tok_ahead [OF t]] r by simp
  with readable_rune [OF cs(2) assms(4), of "c # R"]
  have rr: "r \<noteq> eof" "r \<noteq> rune (CHR ''$'')" "\<And>i. accept ?s r i" by auto
  have "calm s1" using f cs(1) calm_framed by blast
  note o = ordinary [OF this rr(2)]
  have "scan s = (tokenIdent, scanIdentLoop ?s)"
    by (rule scan_as_loop [OF r rr(1) o(1) _ assms(2) o(2)])
      (use f rr(3) assms(6) in \<open>simp_all add: framed_def scanRbrack_def\<close>)
  moreover obtain s' where s': "scanIdentLoop ?s = scanIdentLoop s'" "framed ?s s'" "tok s' X (c # R)"
    using consume_plain [OF cs(1) t cs(2)] assms(7) by auto
  moreover have "\<exists>w. scanIdentLoop s' = s'\<lparr>width := w\<rparr>"
  proof -
    have cm: "calm s'" using s'(2) cs(1) calm_framed by blast
    note rd = read_ascii(1) [OF tok_ahead [OF s'(3)] assms(7)]
    have "rune c \<noteq> eof" "rune c \<noteq> (rune (CHR ''$'') :: nat)"
      using assms(8,9) of_char_eq_iff [of c "CHR 0x00", where ?'a = nat] of_char_eq_iff [of c "CHR ''$''", where ?'a = nat]
      by (simp_all add: eof_def)
    from loop_accept [OF cm rd this] s'(2) assms(10) show ?thesis
      by (simp add: framed_def unread_def) blast
  qed
  ultimately show ?thesis by (auto simp: framed_def)
qed

lemma scan_default_operator:
  assumes "ahead s ('':-'' @ c # R)" "smode s = mode_scanIdent" "accept s = acceptDefaultFunc"
    and "c \<noteq> CHR 0x00" "c \<noteq> CHR ''$''"
  shows "\<exists>s'. scan s = (tokenIdent, s') \<and> tok s' '':-'' (c # R)"
proof -
  let ?s = "s\<lparr>start := pos s\<rparr>" and ?s1 = "s\<lparr>start := pos s, width := 1, pos := pos s + 1\<rparr>"
  let ?s2 = "s\<lparr>start := pos s, width := 1, pos := pos s + 2\<rparr>"
  have cm: "calm ?s" "calm ?s1" "calm ?s2" using assms(2) by (simp_all add: calm_def)
  have t: "tok ?s [] ('':-'' @ c # R)" by (rule ahead_tok [OF assms(1)])
  have t1: "tok ?s1 '':'' (CHR ''-'' # c # R)" and t2: "tok ?s2 '':-'' (c # R)" using t by (auto simp: tok_def)
  have r: "scanner_read ?s = (rune (CHR '':''), ?s1)" using read_ascii(1) [of ?s "CHR '':''"] assms(1) by simp
  have r1: "scanner_read ?s1 = (rune (CHR ''-''), ?s2)" using read_ascii(1) [OF tok_ahead [OF t1]] by simp
  obtain r2 s3 where r2: "scanner_read ?s2 = (r2, s3)" by (cases "scanner_read ?s2")
  have ne: "r2 \<noteq> eof" "r2 \<noteq> rune (CHR ''$'')" "\<not> accept ?s2 r2 (pos s3 - start ?s2)" "\<exists>w. unread s3 = ?s2\<lparr>width := w\<rparr>"
  proof -
    define s' where "s' = ?s2\<lparr>accept := acceptRune\<rparr>"
    have "readable s' [c]" using assms(4,5) by (simp add: readable_def s'_def acceptRune_def)
    from readable_rune [OF this, of R]
    have "fst (DecodeRuneInString (c # R)) \<notin> {eof, rune (CHR ''$'')}" by simp
    with read_ahead [OF tok_ahead [OF t2]] r2 show "r2 \<noteq> eof" "r2 \<noteq> rune (CHR ''$'')" by auto
    from read_not_eof [OF r2 this(1)] show "\<not> accept ?s2 r2 (pos s3 - start ?s2)"
      by (auto simp: assms(3) acceptDefaultFunc_def)
    show "\<exists>w. unread s3 = ?s2\<lparr>width := w\<rparr>" using read_unread [OF r2] by blast
  qed
  have "scanIdentLoop ?s = scanIdentLoop ?s1"
    using loop_accept [OF cm(1) r] by (simp add: eof_def assms(3) acceptDefaultFunc_def)
  also have "\<dots> = scanIdentLoop ?s2"
    using loop_accept [OF cm(2) r1] by (simp add: eof_def assms(3) acceptDefaultFunc_def)
  also have "\<dots> = unread s3" using loop_accept [OF cm(3) r2 ne(1,2)] ne(3) by simp
  finally have loop: "scanIdentLoop ?s = unread s3" .
  have o: "scanLbrack (rune (CHR '':'')) ?s1 = (False, ?s1)" "scanEscaped (rune (CHR '':'')) ?s1 = (False, ?s1)"
    by (rule ordinary [OF cm(2)], simp)+
  have "scan s = (tokenIdent, scanIdentLoop ?s)"
    by (rule scan_as_loop [OF r _ o(1) _ _ o(2)]) (simp_all add: eof_def assms(2,3) acceptDefaultFunc_def scanRbrack_def)
  moreover obtain w where "unread s3 = ?s2\<lparr>width := w\<rparr>" using ne(4) by blast
  then have "tok (unread s3) '':-'' (c # R)" using t2 by (simp only: tok_update)
  ultimately show ?thesis using loop by simp
qed

section \<open>Substitutions\<close>

definition is_name :: "string \<Rightarrow> bool" where
  "is_name x \<longleftrightarrow> x \<noteq> [] \<and> list_all (\<lambda>c. isLower (rune c) \<or> isUpper (rune c) \<or> isDecimal (rune c) \<or> c = CHR ''_'') x"

lemma ident_char:
  assumes "ascii_tables u" "isLower (rune c) \<or> isUpper (rune c) \<or> isDecimal (rune c) \<or> c = CHR ''_''"
  shows "rune c < (128 :: nat)" "acceptIdent u (rune c) i" "c \<notin> {CHR 0x00, CHR ''$'', CHR ''#''}"
proof -
  show "rune c < (128 :: nat)" using assms(2) by (auto simp: isLower_def isUpper_def isDecimal_def)
  then show "acceptIdent u (rune c) i" using assms by (auto simp: acceptIdent_def ascii_tables_def)
  show "c \<notin> {CHR 0x00, CHR ''$'', CHR ''#''}" using assms(2) by (auto simp: isLower_def isUpper_def isDecimal_def)
qed

lemma scan_name:
  assumes "ascii_tables u" "is_name x" "ahead s (x @ c # R)" "c \<in> {CHR ''}'', CHR '':''}"
  shows "\<exists>s'. scanOperator (acceptIdent u) e s = preturn x s' \<and> ahead s' (c # R)"
proof -
  let ?s = "s\<lparr>accept := acceptIdent u, smode := mode_scanIdent\<rparr>"
  have chars: "\<forall>c \<in> set x. isLower (rune c) \<or> isUpper (rune c) \<or> isDecimal (rune c) \<or> c = CHR ''_''"
    using assms(2) by (simp add: is_name_def list_all_iff)
  have "readable ?s x"
    using ident_char [OF assms(1)] chars by (auto simp: readable_def ascii_def)
  moreover have "\<not> acceptIdent u (rune c) i" "rune c < (128 :: nat)" "c \<noteq> CHR 0x00" "c \<noteq> CHR ''$''" for i
    using assms(1,4) by (auto simp: acceptIdent_def ascii_tables_def isLower_def isUpper_def isDecimal_def)
  ultimately obtain s' where "scan ?s = (tokenIdent, s')" "tok s' x (c # R)"
    using scan_plain [of ?s x c R] assms(2,3) by (auto simp: calm_def is_name_def)
  then show ?thesis using tok_string tok_ahead by (simp add: scanOperator_def)
qed

lemma consumeRbrack_ahead:
  assumes "ahead s (CHR ''}'' # R)"
  shows "\<exists>s'. consumeRbrack node s = preturn node s' \<and> ahead s' R"
  using scan_Rbrack [of "s\<lparr>smode := mode_scanRbrack\<rparr>" R] assms by (auto simp: consumeRbrack_def)

lemma peek_ahead: "ahead s (c # R) \<Longrightarrow> rune c < (128 :: nat) \<Longrightarrow> \<exists>s'. peek s = (rune c, s') \<and> ahead s' (c # R)"
  using read_ascii(2) [of s c R] by auto

definition literal :: "string \<Rightarrow> bool" where
  "literal d \<longleftrightarrow> (\<forall>c \<in> set d. c \<notin> {CHR 0x00, CHR ''$'', CHR ''}''})"

lemma parseDefaultLoop_literal:
  assumes "literal d" "ahead s (d @ CHR ''}'' # R)"
  shows "\<exists>s'. parseDefaultLoop pf (Suc (Suc n)) p name [] s =
      preturn (FuncNode p name (if d = [] then [] else [TextNode d])) s' \<and> ahead s' R"
proof (cases "d = []")
  case True
  then have "ahead s (CHR ''}'' # R)" using assms(2) by simp
  from peek_ahead [OF this] obtain s1 where s1: "peek s = (rune (CHR ''}''), s1)" "ahead s1 (CHR ''}'' # R)" by auto
  from consumeRbrack_ahead [OF s1(2)] s1(1) True show ?thesis by simp
next
  case False
  then obtain c d' where d: "d = c # d'" by (cases d) auto
  obtain r s1 where r: "peek s = (r, s1)" by (cases "peek s")
  have a1: "ahead s1 (d @ CHR ''}'' # R)" using peek_frame [OF r] assms(2) by (metis tok_update(5))
  define s2 where "s2 = s1\<lparr>accept := acceptNotClosing, smode := mode_scanIdent OR mode_scanLbrack\<rparr>"
  have rd: "readable s2 d"
    using assms(1) by (auto simp: readable_def s2_def literal_def acceptNotClosing_def of_char_eq_iff [of _ "CHR ''}''", where ?'a = nat, simplified])
  have "r \<noteq> rune (CHR ''}'')"
  proof -
    have "accept s2 (fst (DecodeRuneInString (d @ CHR ''}'' # R))) 0" by (rule readable_rune(2) [OF rd False])
    moreover have "r = fst (DecodeRuneInString (d @ CHR ''}'' # R))"
      using read_ahead [OF assms(2)] r d by (auto simp: peek_def)
    ultimately show ?thesis by (simp add: s2_def acceptNotClosing_def)
  qed
  moreover obtain s3 where s3: "scan s2 = (tokenIdent, s3)" "tok s3 d (CHR ''}'' # R)"
    using scan_plain [of s2 d "CHR ''}''" R] rd a1 False
    by (auto simp: s2_def calm_def mode_defs acceptNotClosing_def)
  moreover from peek_ahead [OF tok_ahead [OF s3(2)]]
  obtain s4 where s4: "peek s3 = (rune (CHR ''}''), s4)" "ahead s4 (CHR ''}'' # R)" by auto
  moreover obtain s5 where "consumeRbrack (FuncNode p name [TextNode d]) s4 = preturn (FuncNode p name [TextNode d]) s5" "ahead s5 R"
    using consumeRbrack_ahead [OF s4(2), of "FuncNode p name [TextNode d]"] by blast
  ultimately show ?thesis
    using r False tok_string [OF s3(2)] by (simp add: parseParam_def s2_def [symmetric] pbind_def)
qed

datatype subst = Variable string | WithDefault string string

fun render_subst :: "subst \<Rightarrow> string" where
  "render_subst (Variable x) = ''${'' @ x @ ''}''"
| "render_subst (WithDefault x d) = ''${'' @ x @ '':-'' @ d @ ''}''"

fun subst_ok :: "subst \<Rightarrow> bool" where
  "subst_ok (Variable x) = is_name x"
| "subst_ok (WithDefault x d) = (is_name x \<and> literal d)"

fun subst_value :: "mapping_fn \<Rightarrow> subst \<Rightarrow> eval_error + string" where
  "subst_value m (Variable x) = (if snd (m x) then Inr (fst (m x)) else Inl (ErrVarNotSet x))"
| "subst_value m (WithDefault x d) = Inr (if fst (m x) = [] then d else fst (m x))"

fun subst_node :: "subst \<Rightarrow> Node" where
  "subst_node (Variable x) = FuncNode x [] []"
| "subst_node (WithDefault x d) = FuncNode x '':-'' (if d = [] then [] else [TextNode d])"

lemma peek_name:
  assumes "ascii_tables u" "is_name x" "ahead s (x @ R)"
  shows "\<exists>r s'. peek s = (r, s') \<and> r \<noteq> rune (CHR ''#'') \<and> ahead s' (x @ R)"
proof -
  obtain c x' where x: "x = c # x'" using assms(2) by (cases x) (auto simp: is_name_def)
  with assms(2) have "isLower (rune c) \<or> isUpper (rune c) \<or> isDecimal (rune c) \<or> c = CHR ''_''"
    by (simp add: is_name_def)
  note c = ident_char [OF assms(1) this]
  with peek_ahead [of s c "x' @ R"] assms(3) x have "\<exists>s'. peek s = (rune c, s') \<and> ahead s' (x @ R)" by simp
  moreover have "rune c \<noteq> (rune (CHR ''#'') :: nat)"
    using c(3) of_char_eq_iff [of c "CHR ''#''", where ?'a = nat] by simp
  ultimately show ?thesis by blast
qed

lemma parseFunc_variable:
  assumes "ascii_tables u" "is_name x" "ahead s (x @ CHR ''}'' # R)"
  shows "\<exists>s'. parseFuncBody u n pf s = preturn (FuncNode x [] []) s' \<and> ahead s' R"
proof -
  from peek_name [OF assms(1,2), of "s\<lparr>escapeChars := escapeAll\<rparr>" "CHR ''}'' # R"] assms(3)
  obtain r s0 where s0: "peek (s\<lparr>escapeChars := escapeAll\<rparr>) = (r, s0)" "r \<noteq> rune (CHR ''#'')" "ahead s0 (x @ CHR ''}'' # R)"
    by auto
  from scan_name [OF assms(1,2) s0(3)] obtain s1 where
    s1: "scanOperator (acceptIdent u) ErrParseVariableName s0 = preturn x s1" "ahead s1 (CHR ''}'' # R)" by blast
  from peek_ahead [OF s1(2)] obtain s2 where s2: "peek s1 = (rune (CHR ''}''), s2)" "ahead s2 (CHR ''}'' # R)" by auto
  from scan_Rbrack [of "s2\<lparr>accept := acceptIdent u, smode := mode_scanRbrack\<rparr>" R] s2(2)
  obtain s3 where "scan (s2\<lparr>accept := acceptIdent u, smode := mode_scanRbrack\<rparr>) = (tokenRbrack, s3)" "ahead s3 R" by auto
  with s0 s1 s2 show ?thesis by (simp add: parseFuncBody_def pbind_def)
qed

lemma parseFunc_default:
  assumes "ascii_tables u" "is_name x" "literal d" "ahead s (x @ '':-'' @ d @ CHR ''}'' # R)"
  shows "\<exists>s'. parseFuncBody u (Suc (Suc n)) pf s =
      preturn (FuncNode x '':-'' (if d = [] then [] else [TextNode d])) s' \<and> ahead s' R"
proof -
  let ?Q = "CHR '':'' # CHR ''-'' # d @ CHR ''}'' # R"
  from peek_name [OF assms(1,2), of "s\<lparr>escapeChars := escapeAll\<rparr>" ?Q] assms(4)
  obtain r s0 where s0: "peek (s\<lparr>escapeChars := escapeAll\<rparr>) = (r, s0)" "r \<noteq> rune (CHR ''#'')" "ahead s0 (x @ ?Q)" by auto
  from scan_name [OF assms(1,2) s0(3)] obtain s1 where
    s1: "scanOperator (acceptIdent u) ErrParseVariableName s0 = preturn x s1" "ahead s1 ?Q" by blast
  from peek_ahead [OF s1(2)] obtain s2 where s2: "peek s1 = (rune (CHR '':''), s2)" "ahead s2 ?Q" by auto
  let ?s3 = "s2\<lparr>width := 1, pos := pos s2 + 1\<rparr>"
  have r3: "scanner_read s2 = (rune (CHR '':''), ?s3)" using read_ascii(1) [OF s2(2)] by simp
  have "ahead ?s3 (CHR ''-'' # d @ CHR ''}'' # R)"
    using ahead_advance [of s2 "'':''"] s2(2) by (simp add: ahead_def)
  from read_ascii(2) [OF this] have p3: "peek ?s3 = (rune (CHR ''-''), ?s3)" by simp
  have un: "unread ?s3 = s2\<lparr>width := 1\<rparr>" by (simp add: unread_def)
  have a4: "ahead (s2\<lparr>width := 1\<rparr>) ?Q" using s2(2) by simp
  from peek_ahead [OF a4] obtain s5 where s5: "peek (s2\<lparr>width := 1\<rparr>) = (rune (CHR '':''), s5)" "ahead s5 ?Q" by auto
  obtain c d' where c: "d @ CHR ''}'' # R = c # d'" "c \<noteq> CHR 0x00" "c \<noteq> CHR ''$''"
    using assms(3) by (cases d) (auto simp: literal_def)
  from scan_default_operator [of "s5\<lparr>accept := acceptDefaultFunc, smode := mode_scanIdent\<rparr>" c d'] s5(2) c
  obtain s6 where "scan (s5\<lparr>accept := acceptDefaultFunc, smode := mode_scanIdent\<rparr>) = (tokenIdent, s6)" "tok s6 '':-'' (c # d')" by auto
  then have s6: "scanOperator acceptDefaultFunc ErrParseDefaultFunction s5 = preturn '':-'' s6" "ahead s6 (d @ CHR ''}'' # R)"
    using tok_string tok_ahead c(1) by (auto simp: scanOperator_def)
  from parseDefaultLoop_literal [OF assms(3) s6(2)] s0 s1 s2(1) r3 p3 un s5(1) s6(1) show ?thesis
    by (simp add: parseFuncBody_def parseDefaultOrSubstr_def parseDefaultFunc_def pbind_def)
qed

lemma parseFunc_subst:
  assumes "ascii_tables u" "subst_ok x" "ahead s R'" "render_subst x @ R = ''${'' @ R'" "3 \<le> n"
  shows "\<exists>s'. parseFunc u n s = preturn (subst_node x) s' \<and> ahead s' R"
proof -
  obtain k where n: "n = Suc (Suc (Suc k))" using assms(5) by (metis Suc_le_D Suc_le_mono numeral_3_eq_3)
  show ?thesis
  proof (cases x)
    case (Variable y)
    with assms(2-4) parseFunc_variable [OF assms(1), of y s R] show ?thesis by (simp add: n)
  next
    case (WithDefault y d)
    with assms(2-4) parseFunc_default [OF assms(1), of y d s R] show ?thesis by (simp add: n)
  qed
qed

section \<open>Templates\<close>

type_synonym template = "(string \<times> subst) list"

definition render_template :: "template \<Rightarrow> string \<Rightarrow> string" where
  "render_template segs fin = concat (map (\<lambda>(l, x). escapeDollar l @ render_subst x) segs) @ escapeDollar fin"

definition template_ok :: "template \<Rightarrow> string \<Rightarrow> bool" where
  "template_ok segs fin \<longleftrightarrow> CHR 0x00 \<notin> set fin \<and> list_all (\<lambda>(l, x). CHR 0x00 \<notin> set l \<and> subst_ok x) segs"

definition prepend :: "eval_error + string \<Rightarrow> eval_error + string \<Rightarrow> eval_error + string" where
  "prepend a b = (case a of Inl e \<Rightarrow> Inl e | Inr v \<Rightarrow> (case b of Inl e \<Rightarrow> Inl e | Inr w \<Rightarrow> Inr (v @ w)))"

fun template_value :: "mapping_fn \<Rightarrow> template \<Rightarrow> string \<Rightarrow> eval_error + string" where
  "template_value m [] fin = Inr fin"
| "template_value m ((l, x) # segs) fin = prepend (Inr l) (prepend (subst_value m x) (template_value m segs fin))"

lemma render_template_simps:
  "render_template [] fin = escapeDollar fin"
  "render_template ((l, x) # segs) fin = escapeDollar l @ render_subst x @ render_template segs fin"
  by (simp_all add: render_template_def)

lemma evalNode_joinRight:
  assumes "evalNode u m a = Some v" "evalNode u m b = Some w"
  shows "evalNode u m (joinRight a b) = Some (prepend v w)"
  using assms by (auto simp: joinRight_def prepend_def split: sum.split)

lemma evalNode_subst: "evalNode u m (subst_node x) = Some (subst_value m x)"
  by (cases x) (auto simp: evalFuncBody_def lookupFunc_def isDefaultOp_def toDefault_def split: prod.split)

text \<open>Parsing with the given fuel and evaluating the input gives the value.\<close>

definition parses_to :: "unicode \<Rightarrow> nat \<Rightarrow> string \<Rightarrow> (mapping_fn \<Rightarrow> eval_error + string) \<Rightarrow> bool" where
  "parses_to u n R V \<longleftrightarrow> (\<forall>s. ahead s R \<longrightarrow>
     (\<exists>node s'. parseAny u n s = preturn node s' \<and> (\<forall>m. evalNode u m node = Some (V m))))"

abbreviation as_text :: "scanner \<Rightarrow> scanner" where
  "as_text s \<equiv> s\<lparr>accept := acceptRune, smode := mode_scanIdent OR mode_scanLbrack OR mode_scanEscape, escapeChars := dollar\<rparr>"

lemma text_mode_as_text: "text_mode (as_text s)"
  by (simp add: text_mode_def)

lemma parses_end: "at_eof Z \<Longrightarrow> parses_to u (Suc n) Z (\<lambda>_. Inr [])"
  unfolding parses_to_def
proof (intro allI impI)
  fix s
  assume "at_eof Z" "ahead s Z"
  then obtain s' where "scan (as_text s) = (tokenEOF, s')" using scan_end [of "as_text s" Z] by auto
  then show "\<exists>node s'. parseAny u (Suc n) s = preturn node s' \<and> (\<forall>m. evalNode u m node = Some (Inr []))" by simp
qed

lemma parses_text:
  assumes "parses_to u n R V" "text_end R" "CHR 0x00 \<notin> set l" "l \<noteq> []"
  shows "parses_to u (Suc n) (escapeDollar l @ R) (\<lambda>m. prepend (Inr l) (V m))"
  unfolding parses_to_def
proof (intro allI impI)
  fix s
  assume "ahead s (escapeDollar l @ R)"
  then obtain s1 where s1: "scan (as_text s) = (tokenIdent, s1)" "tok s1 l R"
    using scan_text [OF text_mode_as_text _ assms(3,2,4), of s] by auto
  with assms(1) tok_ahead obtain node s2 where "parseAny u n s1 = preturn node s2" "\<forall>m. evalNode u m node = Some (V m)"
    unfolding parses_to_def by blast
  with s1 tok_string [OF s1(2)] evalNode_joinRight [of u _ "TextNode l" "Inr l" node]
  show "\<exists>node s'. parseAny u (Suc n) s = preturn node s' \<and> (\<forall>m. evalNode u m node = Some (prepend (Inr l) (V m)))"
    by (simp add: pbind_def)
qed

lemma parses_subst:
  assumes "parses_to u n R V" "ascii_tables u" "subst_ok x" "3 \<le> n"
  shows "parses_to u (Suc n) (render_subst x @ R) (\<lambda>m. prepend (subst_value m x) (V m))"
  unfolding parses_to_def
proof (intro allI impI)
  fix s
  assume a: "ahead s (render_subst x @ R)"
  obtain R' where R': "render_subst x @ R = ''${'' @ R'" by (cases x) auto
  with a obtain s1 where s1: "scan (as_text s) = (tokenLbrack, s1)" "ahead s1 R'"
    using scan_Lbrack [of "as_text s" R'] text_bits(2) [OF text_mode_as_text [of s]] by auto
  from parseFunc_subst [OF assms(2,3) s1(2) R' assms(4)]
  obtain s2 where s2: "parseFunc u n s1 = preturn (subst_node x) s2" "ahead s2 R" by blast
  with assms(1) obtain node s3 where "parseAny u n s2 = preturn node s3" "\<forall>m. evalNode u m node = Some (V m)"
    unfolding parses_to_def by blast
  with s1 s2 evalNode_joinRight [OF evalNode_subst, of u _ node] show
    "\<exists>node s'. parseAny u (Suc n) s = preturn node s' \<and> (\<forall>m. evalNode u m node = Some (prepend (subst_value m x) (V m)))"
    by (simp add: pbind_def)
qed

lemma prepend_Nil [simp]: "prepend (Inr []) b = b"
  by (simp add: prepend_def split: sum.split)

lemma subst_length: "subst_ok x \<Longrightarrow> 4 \<le> length (render_subst x)"
  by (cases x) (auto simp: is_name_def Suc_le_eq)

lemma escapeDollar_length: "length l \<le> length (escapeDollar l)"
  by (induction l) auto

lemma parses_template:
  assumes "ascii_tables u" "at_eof Z" "template_ok segs fin" "Suc (Suc (length (render_template segs fin))) \<le> n"
  shows "parses_to u n (render_template segs fin @ Z) (\<lambda>m. template_value m segs fin)"
  using assms(3,4)
proof (induction segs arbitrary: n)
  case Nil
  then obtain k where n: "n = Suc (Suc k)" by (metis Suc_le_D Suc_le_mono)
  show ?case
  proof (cases "fin = []")
    case True
    then show ?thesis using parses_end [OF assms(2)] by (simp add: n render_template_simps)
  next
    case False
    with parses_text [OF parses_end [OF assms(2)], of fin u k] Nil.prems(1) assms(2) show ?thesis
      by (simp add: n render_template_simps template_ok_def text_end_def prepend_def)
  qed
next
  case (Cons p segs)
  obtain l x where p: "p = (l, x)" by (cases p)
  have ok: "template_ok segs fin" "CHR 0x00 \<notin> set l" "subst_ok x" using Cons.prems(1) p by (simp_all add: template_ok_def)
  note len = subst_length [OF ok(3)] escapeDollar_length [of l]
  obtain k where n: "n = Suc (Suc k)" using Cons.prems(2) by (metis Suc_le_D Suc_le_mono)
  have after: "parses_to u (Suc j) (render_subst x @ render_template segs fin @ Z)
      (\<lambda>m. prepend (subst_value m x) (template_value m segs fin))"
    if "Suc (Suc (length (render_template segs fin))) \<le> j" "3 \<le> j" for j
    by (rule parses_subst [OF Cons.IH [OF ok(1) that(1)] assms(1) ok(3) that(2)])
  show ?case
  proof (cases "l = []")
    case True
    with after [of "Suc k"] Cons.prems(2) len show ?thesis by (simp add: n p render_template_simps)
  next
    case False
    then have "1 \<le> length l" by (cases l) auto
    with after [of k] Cons.prems(2) len have "parses_to u (Suc k) (render_subst x @ render_template segs fin @ Z)
        (\<lambda>m. prepend (subst_value m x) (template_value m segs fin))"
      by (simp add: n p render_template_simps)
    from parses_text [OF this _ ok(2) False] show ?thesis
      by (cases x) (simp_all add: n p render_template_simps text_end_def)
  qed
qed

lemma Eval_up_to_eof:
  assumes "ascii_tables u" "template_ok segs fin" "at_eof Z"
  shows "Eval u (render_template segs fin @ Z) m = Some (template_value m segs fin)"
proof -
  let ?b = "render_template segs fin @ Z"
  have "ahead (scanner_init ?b) ?b" by (simp add: ahead_def scanner_init_def)
  moreover have "parses_to u (Suc (Suc (length ?b))) ?b (\<lambda>m. template_value m segs fin)"
    by (rule parses_template [OF assms(1,3,2)]) simp
  ultimately obtain node s'
    where "parseAny u (Suc (Suc (length ?b))) (scanner_init ?b) = preturn node s'" "evalNode u m node = Some (template_value m segs fin)"
    unfolding parses_to_def by blast
  then show ?thesis by (simp add: Eval_def Parse_def Execute_def)
qed

section \<open>Properties\<close>

text \<open>
  C11. Templates evaluate to what they say: for text in which every dollar is doubled, plain variables
  and variables with a literal default, in any number and order, evaluating the printed template gives the text
  with the values of the variables, the default for an empty or unset value, and the error for the first plain variable that the mapping does
  not have. The text may hold any bytes but NUL; names are ASCII.
\<close>

theorem Eval_template:
  assumes "ascii_tables u" "template_ok segs fin"
  shows "Eval u (render_template segs fin) m = Some (template_value m segs fin)"
  using Eval_up_to_eof [OF assms, of "[]"] by (simp add: at_eof_def)

theorem Eval_template_witness:
  "Eval ascii_only ''a$${${x}/${y:-dflt}'' (\<lambda>v. if v = ''x'' then (''1'', True) else ([], False)) = Some (Inr ''a${1/dflt'')"
proof -
  let ?segs = "[(''a${'', Variable ''x''), (''/'', WithDefault ''y'' ''dflt'')]"
  have "''a$${${x}/${y:-dflt}'' = render_template ?segs []" by (simp add: render_template_simps)
  moreover have "template_ok ?segs []"
    by (auto simp: template_ok_def is_name_def literal_def isLower_def)
  ultimately show ?thesis
    using Eval_template [OF ascii_only_tables, of ?segs "[]"] by (simp add: prepend_def)
qed

text \<open>
  A NUL byte ends the input: whatever follows it in the string, a variable reference that cannot be resolved or
  that does not parse included, is dropped without an error.
\<close>

theorem Eval_NUL_truncates:
  assumes "ascii_tables u" "template_ok segs fin"
  shows "Eval u (render_template segs fin @ CHR 0x00 # rest) m = Some (template_value m segs fin)"
  using Eval_up_to_eof [OF assms, of "CHR 0x00 # rest"] by (simp add: at_eof_def)

theorem Eval_NUL_truncates_witness:
  "Eval ascii_only (''ab'' @ CHR 0x00 # ''${'') (\<lambda>_. ([], False)) = Some (Inr ''ab'')"
  using Eval_NUL_truncates [OF ascii_only_tables, of "[]" "''ab''" "''${''"]
  by (simp add: render_template_simps template_ok_def)

end
