(* ===== verification/Dependency_Sort.thy ===== *)
theory Dependency_Sort
  imports Go_Prelude
begin

text \<open>
  Ordering objects by their dependencies: \<open>Sort\<close> of \<open>runtime/dependency/sort.go\<close>, with the references of
  \<open>apis/meta/reference_types.go\<close> and \<open>MakeDependsOn\<close> of \<open>apis/meta/dependencies.go\<close>. The depth-first search
  recurses under a fuel, for which the number of references is shown to be enough; running out of it is
  \<open>None\<close>. An error is the list of names that its message joins.
\<close>

section \<open>References\<close>

datatype NamespacedObjectReference = Ref (refNamespace: string) (refName: string)

definition Ref_String :: "NamespacedObjectReference \<Rightarrow> string" where
  "Ref_String r = (if refNamespace r \<noteq> [] then refNamespace r @ ''/'' @ refName r else refName r)"

record DependencyReference =
  depName :: string
  depNamespace :: string
  ReadyExpr :: string

record Dependent =
  dName :: string
  dNamespace :: string
  dependsOn :: "DependencyReference list"

definition Dep_String :: "DependencyReference \<Rightarrow> string" where
  "Dep_String r =
     (let s = depName r;
          s = (if depNamespace r \<noteq> [] then depNamespace r @ ''/'' @ s else s)
      in if ReadyExpr r \<noteq> [] then s @ ''@'' @ ReadyExpr r else s)"

text \<open>One round of the loop of \<open>MakeDependsOn\<close>.\<close>

definition makeDependency :: "string \<Rightarrow> DependencyReference" where
  "makeDependency dep0 =
     (let dep = takeWhile (\<lambda>c. c \<noteq> CHR ''@'') dep0;
          expr = drop 1 (dropWhile (\<lambda>c. c \<noteq> CHR ''@'') dep0)
      in if CHR ''/'' \<in> set dep
         then \<lparr>depName = drop 1 (dropWhile (\<lambda>c. c \<noteq> CHR ''/'') dep),
               depNamespace = takeWhile (\<lambda>c. c \<noteq> CHR ''/'') dep, ReadyExpr = expr\<rparr>
         else \<lparr>depName = dep, depNamespace = [], ReadyExpr = expr\<rparr>)"

definition MakeDependsOn :: "string list \<Rightarrow> DependencyReference list" where
  "MakeDependsOn deps = map makeDependency deps"

section \<open>Sorting\<close>

definition vertex :: "Dependent \<Rightarrow> NamespacedObjectReference" where
  "vertex obj = Ref (dNamespace obj) (dName obj)"

definition dependency :: "Dependent \<Rightarrow> DependencyReference \<Rightarrow> NamespacedObjectReference" where
  "dependency obj d = Ref (if depNamespace d = [] then dNamespace obj else depNamespace d) (depName d)"

text \<open>The edges of a vertex: an absent map entry is the nil slice.\<close>

definition edgesOf :: "(NamespacedObjectReference, NamespacedObjectReference list) gomap \<Rightarrow>
    NamespacedObjectReference \<Rightarrow> NamespacedObjectReference list" where
  "edgesOf m u = (case map_of m u of Some vs \<Rightarrow> vs | None \<Rightarrow> [])"

definition buildEdges :: "Dependent list \<Rightarrow> (NamespacedObjectReference, NamespacedObjectReference list) gomap" where
  "buildEdges objects =
     fold (\<lambda>obj m. fold (\<lambda>d m. AList.update (vertex obj) (edgesOf m (vertex obj) @ [dependency obj d]) m)
       (dependsOn obj) m) objects []"

datatype mark = unmarked | permanentMark | temporaryMark

record dfs_state =
  mark :: "NamespacedObjectReference \<Rightarrow> mark"
  sortedRefs :: "NamespacedObjectReference list"

fun dfsEdges ::
  "(NamespacedObjectReference \<Rightarrow> dfs_state \<Rightarrow> (string list \<times> dfs_state) option) \<Rightarrow>
     NamespacedObjectReference \<Rightarrow> NamespacedObjectReference list \<Rightarrow> dfs_state \<Rightarrow> (string list \<times> dfs_state) option" where
  "dfsEdges search u [] st = Some ([], st)"
| "dfsEdges search u (v # vs) st =
     (if mark st v = permanentMark then dfsEdges search u vs st
      else if mark st v = temporaryMark then Some ([Ref_String v, Ref_String u], st)
      else
        (case search v st of
           None \<Rightarrow> None
         | Some (cycle, st1) \<Rightarrow>
             if length cycle > 0 then Some (cycle @ [Ref_String u], st1) else dfsEdges search u vs st1))"

fun depthFirstSearch ::
  "(NamespacedObjectReference \<Rightarrow> NamespacedObjectReference list) \<Rightarrow> nat \<Rightarrow>
     NamespacedObjectReference \<Rightarrow> dfs_state \<Rightarrow> (string list \<times> dfs_state) option" where
  "depthFirstSearch edges 0 u st = None"
| "depthFirstSearch edges (Suc n) u st =
     (case dfsEdges (depthFirstSearch edges n) u (edges u) (st\<lparr>mark := (mark st)(u := temporaryMark)\<rparr>) of
        None \<Rightarrow> None
      | Some (cycle, st1) \<Rightarrow>
          if length cycle > 0 then Some (cycle, st1)
          else Some ([], st1\<lparr>mark := (mark st1)(u := permanentMark), sortedRefs := sortedRefs st1 @ [u]\<rparr>))"

datatype dependency_error = CircularDependency "string list"

fun sortLoop ::
  "(NamespacedObjectReference \<Rightarrow> NamespacedObjectReference list) \<Rightarrow> nat \<Rightarrow>
     NamespacedObjectReference list \<Rightarrow> dfs_state \<Rightarrow> (dependency_error + NamespacedObjectReference list) option" where
  "sortLoop edges n [] st = Some (Inr (sortedRefs st))"
| "sortLoop edges n (u # us) st =
     (if mark st u = unmarked then
        (case depthFirstSearch edges n u st of
           None \<Rightarrow> None
         | Some (cycle, st1) \<Rightarrow>
             if length cycle > 0 then Some (Inl (CircularDependency (rev cycle))) else sortLoop edges n us st1)
      else sortLoop edges n us st)"

text \<open>The references that occur: enough fuel for the search.\<close>

definition references :: "Dependent list \<Rightarrow> NamespacedObjectReference list" where
  "references objects = map vertex objects @ concat (map (\<lambda>obj. map (dependency obj) (dependsOn obj)) objects)"

definition Sort :: "Dependent list \<Rightarrow> (dependency_error + NamespacedObjectReference list) option" where
  "Sort objects =
     sortLoop (edgesOf (buildEdges objects)) (Suc (length (references objects))) (map vertex objects)
       \<lparr>mark = (\<lambda>_. unmarked), sortedRefs = []\<rparr>"

section \<open>The graph\<close>

definition dependsOnRef :: "Dependent list \<Rightarrow> NamespacedObjectReference \<Rightarrow> NamespacedObjectReference \<Rightarrow> bool" where
  "dependsOnRef objects u v \<longleftrightarrow> (\<exists>obj \<in> set objects. vertex obj = u \<and> v \<in> dependency obj ` set (dependsOn obj))"

lemma edgesOf_update: "edgesOf (AList.update u vs m) w = (if w = u then vs else edgesOf m w)"
  by (simp add: edgesOf_def map_of_update)

lemma edgesOf_inner:
  "edgesOf (fold (\<lambda>d m. AList.update u (edgesOf m u @ [f d]) m) ds m) w = edgesOf m w @ (if w = u then map f ds else [])"
  by (induction ds arbitrary: m) (auto simp: edgesOf_update)

lemma set_edges: "v \<in> set (edgesOf (buildEdges objects) u) \<longleftrightarrow> dependsOnRef objects u v"
proof -
  have "edgesOf (fold (\<lambda>obj m. fold (\<lambda>d m. AList.update (vertex obj) (edgesOf m (vertex obj) @ [dependency obj d]) m)
       (dependsOn obj) m) objs m) u =
     edgesOf m u @ concat (map (\<lambda>obj. if vertex obj = u then map (dependency obj) (dependsOn obj) else []) objs)" for objs m
    by (induction objs arbitrary: m) (auto simp: edgesOf_inner)
  from this [of objects "[]"] show ?thesis
    by (auto simp: buildEdges_def dependsOnRef_def edgesOf_def split: if_splits)
qed

lemma edges_references: "dependsOnRef objects u v \<Longrightarrow> u \<in> set (references objects) \<and> v \<in> set (references objects)"
  by (auto simp: dependsOnRef_def references_def)

section \<open>Depth-first search\<close>

text \<open>Every vertex of the list comes after the vertices it has an edge to.\<close>

definition topological :: "('a \<Rightarrow> 'a list) \<Rightarrow> 'a list \<Rightarrow> bool" where
  "topological edges xs \<longleftrightarrow> (\<forall>i < length xs. set (edges (xs ! i)) \<subseteq> set (take i xs))"

lemma topological_Nil [simp]: "topological edges []"
  by (simp add: topological_def)

lemma topological_append:
  "topological edges (xs @ [u]) \<longleftrightarrow> topological edges xs \<and> set (edges u) \<subseteq> set xs"
  by (auto simp: topological_def nth_append less_Suc_eq)

abbreviation temporary :: "dfs_state \<Rightarrow> NamespacedObjectReference set" where
  "temporary st \<equiv> {v. mark st v = temporaryMark}"

definition dfs_inv :: "(NamespacedObjectReference \<Rightarrow> NamespacedObjectReference list) \<Rightarrow> dfs_state \<Rightarrow> bool" where
  "dfs_inv edges st \<longleftrightarrow> distinct (sortedRefs st) \<and> topological edges (sortedRefs st) \<and>
     (\<forall>v. mark st v = permanentMark \<longleftrightarrow> v \<in> set (sortedRefs st))"

text \<open>A walk along the edges.\<close>

fun walk :: "('a \<Rightarrow> 'a list) \<Rightarrow> 'a list \<Rightarrow> bool" where
  "walk edges (x # y # p) \<longleftrightarrow> y \<in> set (edges x) \<and> walk edges (y # p)"
| "walk edges _ = True"

text \<open>What a search that reports a cycle has found: a walk from its root to a vertex that it met before.\<close>

definition lasso ::
  "(NamespacedObjectReference \<Rightarrow> NamespacedObjectReference list) \<Rightarrow> NamespacedObjectReference set \<Rightarrow>
     NamespacedObjectReference \<Rightarrow> string list \<Rightarrow> bool" where
  "lasso edges T u c \<longleftrightarrow> (\<exists>p. c = map Ref_String (rev p) \<and> 2 \<le> length p \<and> hd p = u \<and> walk edges p \<and>
     last p \<in> T \<union> set (butlast p))"

text \<open>What a search that reports none leaves: more permanent marks and the same temporary ones.\<close>

definition extended ::
  "(NamespacedObjectReference \<Rightarrow> NamespacedObjectReference list) \<Rightarrow> dfs_state \<Rightarrow> dfs_state \<Rightarrow> bool" where
  "extended edges st st1 \<longleftrightarrow> dfs_inv edges st1 \<and> temporary st1 = temporary st \<and>
     set (sortedRefs st) \<subseteq> set (sortedRefs st1)"

lemma lasso_extend:
  assumes "lasso edges (insert u T) v c" "v \<in> set (edges u)"
  shows "lasso edges T u (c @ [Ref_String u])"
proof -
  obtain p where p: "c = map Ref_String (rev p)" "2 \<le> length p" "hd p = v" "walk edges p"
    "last p \<in> insert u T \<union> set (butlast p)" using assms(1) by (auto simp: lasso_def)
  then obtain q where q: "p = v # q" "q \<noteq> []" by (cases p; cases "tl p") auto
  then have "walk edges (u # p)" using assms(2) p(4) by simp
  then show ?thesis unfolding lasso_def using p q by (intro exI [of _ "u # p"]) auto
qed

definition search_ok ::
  "(NamespacedObjectReference \<Rightarrow> NamespacedObjectReference list) \<Rightarrow>
     (NamespacedObjectReference \<Rightarrow> dfs_state \<Rightarrow> (string list \<times> dfs_state) option) \<Rightarrow> bool" where
  "search_ok edges search \<longleftrightarrow> (\<forall>u st c st1. dfs_inv edges st \<longrightarrow> mark st u = unmarked \<longrightarrow>
     search u st = Some (c, st1) \<longrightarrow>
     (if c = [] then extended edges st st1 \<and> u \<in> set (sortedRefs st1) else lasso edges (temporary st) u c))"

lemma extended_trans: "extended edges s t \<Longrightarrow> extended edges t w \<Longrightarrow> extended edges s w"
  by (auto simp: extended_def)

lemma search_okD:
  assumes "search_ok edges search" "dfs_inv edges st" "mark st u = unmarked" "search u st = Some (c, st1)"
  shows "if c = [] then extended edges st st1 \<and> u \<in> set (sortedRefs st1) else lasso edges (temporary st) u c"
  using assms unfolding search_ok_def by (elim allE impE) assumption+

lemma dfsEdges_ok:
  assumes "search_ok edges search" "dfs_inv edges st" "mark st u = temporaryMark" "set vs \<subseteq> set (edges u)"
    and "dfsEdges search u vs st = Some (c, st1)"
  shows "if c = [] then extended edges st st1 \<and> set vs \<subseteq> set (sortedRefs st1)
    else lasso edges (temporary st - {u}) u c"
  using assms(2-)
proof (induction vs arbitrary: st)
  case Nil
  then show ?case by (simp add: extended_def)
next
  case (Cons v vs)
  have u: "insert u (temporary st - {u}) = temporary st" using Cons.prems(2) by auto
  consider (perm) "mark st v = permanentMark" | (temp) "mark st v = temporaryMark" | (un) "mark st v = unmarked"
    by (cases "mark st v") auto
  then show ?case
  proof cases
    case perm
    then have "v \<in> set (sortedRefs st)" using Cons.prems(1) by (simp add: dfs_inv_def)
    then show ?thesis using Cons.IH [of st] Cons.prems perm by (auto simp: extended_def split: if_splits)
  next
    case temp
    then have "c = map Ref_String (rev [u, v])" using Cons.prems(4) by auto
    moreover have "v \<in> temporary st - {u} \<union> {u}" using temp by simp
    ultimately show ?thesis using Cons.prems(3)
      by (auto simp: lasso_def intro!: exI [of _ "[u, v]"])
  next
    case un
    then obtain c2 st2 where s: "search v st = Some (c2, st2)"
      using Cons.prems(4) by (auto split: option.splits)
    note ok = search_okD [OF assms(1) Cons.prems(1) un s]
    show ?thesis
    proof (cases "c2 = []")
      case True
      have e: "extended edges st st2 \<and> v \<in> set (sortedRefs st2)" using ok True by simp
      have "mark st2 u = temporaryMark" "temporary st2 = temporary st"
        using e Cons.prems(2) by (auto simp: extended_def)
      moreover have "dfsEdges search u vs st2 = Some (c, st1)" using Cons.prems(4) un s True by simp
      ultimately show ?thesis using Cons.IH [of st2] Cons.prems(3) e extended_trans [of edges st st2 st1]
        by (auto simp: extended_def split: if_splits)
    next
      case False
      then have "c = c2 @ [Ref_String u]" using Cons.prems(4) un s by simp
      then show ?thesis using lasso_extend [of edges u "temporary st - {u}" v c2] ok False Cons.prems(3)
        unfolding u by simp
    qed
  qed
qed

lemma depthFirstSearch_ok: "search_ok edges (depthFirstSearch edges n)"
proof (induction n)
  case 0
  then show ?case by (simp add: search_ok_def)
next
  case (Suc n)
  have "if c = [] then extended edges st st1 \<and> u \<in> set (sortedRefs st1) else lasso edges (temporary st) u c"
    if a: "dfs_inv edges st" "mark st u = unmarked" "depthFirstSearch edges (Suc n) u st = Some (c, st1)" for u st c st1
  proof -
    let ?st = "st\<lparr>mark := (mark st)(u := temporaryMark)\<rparr>"
    have inv: "dfs_inv edges ?st" using a(1,2) by (force simp: dfs_inv_def)
    have t: "temporary ?st - {u} = temporary st" using a(2) by auto
    obtain c2 st2 where d: "dfsEdges (depthFirstSearch edges n) u (edges u) ?st = Some (c2, st2)"
      using a(3) by (auto split: option.splits)
    have k: "if c2 = [] then extended edges ?st st2 \<and> set (edges u) \<subseteq> set (sortedRefs st2)
        else lasso edges (temporary st) u c2"
      using dfsEdges_ok [OF Suc inv _ _ d] unfolding t by simp
    show ?thesis
    proof (cases "c2 = []")
      case True
      then have st1: "c = []" "st1 = st2\<lparr>mark := (mark st2)(u := permanentMark), sortedRefs := sortedRefs st2 @ [u]\<rparr>"
        using a(3) d by auto
      have e: "extended edges ?st st2" "set (edges u) \<subseteq> set (sortedRefs st2)" using k True by auto
      have u: "mark st2 u = temporaryMark" using e(1) by (auto simp: extended_def)
      have "temporary st1 = temporary st2 - {u}" using st1(2) by auto
      also have "\<dots> = temporary st" using e(1) t by (simp add: extended_def)
      finally have "temporary st1 = temporary st" .
      moreover have "u \<notin> set (sortedRefs st2)" using e(1) u by (force simp: extended_def dfs_inv_def)
      ultimately show ?thesis using e st1 by (auto simp: extended_def dfs_inv_def topological_append)
    next
      case False
      then show ?thesis using a(3) d k by auto
    qed
  qed
  then show ?case unfolding search_ok_def by blast
qed

section \<open>Termination and reachability\<close>

definition closed_under :: "('a \<Rightarrow> 'a list) \<Rightarrow> 'a set \<Rightarrow> bool" where
  "closed_under edges R \<longleftrightarrow> (\<forall>u \<in> R. set (edges u) \<subseteq> R)"

abbreviation unvisited :: "dfs_state \<Rightarrow> NamespacedObjectReference set" where
  "unvisited st \<equiv> {v. mark st v = unmarked}"

text \<open>A search that returns, having marked and listed only references of the set.\<close>

definition returns_within ::
  "NamespacedObjectReference set \<Rightarrow> dfs_state \<Rightarrow> (string list \<times> dfs_state) option \<Rightarrow> bool" where
  "returns_within R st r \<longleftrightarrow> (\<exists>c st1. r = Some (c, st1) \<and> unvisited st1 \<subseteq> unvisited st \<and>
     set (sortedRefs st1) \<subseteq> set (sortedRefs st) \<union> R)"

lemma returns_within_trans:
  "unvisited st1 \<subseteq> unvisited st \<Longrightarrow> set (sortedRefs st1) \<subseteq> set (sortedRefs st) \<union> R \<Longrightarrow>
     returns_within R st1 r \<Longrightarrow> returns_within R st r"
  unfolding returns_within_def by (elim exE conjE) (intro exI conjI, assumption, blast+)

lemma dfsEdges_returns:
  assumes "\<And>v st. v \<in> R \<Longrightarrow> mark st v = unmarked \<Longrightarrow> card (unvisited st \<inter> R) \<le> n \<Longrightarrow> returns_within R st (search v st)"
    and "finite R" "set vs \<subseteq> R" "card (unvisited st \<inter> R) \<le> n"
  shows "returns_within R st (dfsEdges search u vs st)"
  using assms(3,4)
proof (induction vs arbitrary: st)
  case Nil
  then show ?case by (simp add: returns_within_def)
next
  case (Cons v vs)
  show ?case
  proof (cases "mark st v")
    case unmarked
    then obtain c st1 where s: "search v st = Some (c, st1)" "unvisited st1 \<subseteq> unvisited st"
      "set (sortedRefs st1) \<subseteq> set (sortedRefs st) \<union> R"
      using assms(1) [of v st] Cons.prems by (auto simp: returns_within_def)
    have "card (unvisited st1 \<inter> R) \<le> card (unvisited st \<inter> R)"
      using s(2) assms(2) by (intro card_mono) auto
    then have "returns_within R st (dfsEdges search u vs st1)"
      using Cons.IH [of st1] Cons.prems returns_within_trans [OF s(2,3)] by simp
    then show ?thesis using unmarked s by (simp add: returns_within_def)
  next
    case permanentMark
    then show ?thesis using Cons by simp
  next
    case temporaryMark
    then show ?thesis by (simp add: returns_within_def)
  qed
qed

lemma depthFirstSearch_returns:
  assumes "finite R" "closed_under edges R"
  shows "u \<in> R \<Longrightarrow> mark st u = unmarked \<Longrightarrow> card (unvisited st \<inter> R) \<le> n \<Longrightarrow>
    returns_within R st (depthFirstSearch edges n u st)"
proof (induction n arbitrary: u st)
  case 0
  then have "u \<in> unvisited st \<inter> R" "finite (unvisited st \<inter> R)" using assms(1) by auto
  then have "card (unvisited st \<inter> R) > 0" by (auto simp: card_gt_0_iff)
  then show ?case using 0 by simp
next
  case (Suc n)
  let ?st = "st\<lparr>mark := (mark st)(u := temporaryMark)\<rparr>"
  have m: "unvisited ?st \<inter> R = unvisited st \<inter> R - {u}" by auto
  have "card (unvisited ?st \<inter> R) \<le> n" unfolding m using Suc.prems assms(1) by simp
  moreover have "set (edges u) \<subseteq> R" using assms(2) Suc.prems(1) by (simp add: closed_under_def)
  ultimately have "returns_within R ?st (dfsEdges (depthFirstSearch edges n) u (edges u) ?st)"
    using Suc.IH assms(1) by (intro dfsEdges_returns) auto
  then obtain c st1 where r: "dfsEdges (depthFirstSearch edges n) u (edges u) ?st = Some (c, st1)"
    "unvisited st1 \<subseteq> unvisited ?st" "set (sortedRefs st1) \<subseteq> set (sortedRefs st) \<union> R"
    by (auto simp: returns_within_def)
  have "unvisited st1 \<subseteq> unvisited st" using r(2) by (auto split: if_splits)
  then show ?case using r Suc.prems(1) by (auto simp: returns_within_def split: if_splits)
qed

section \<open>The whole sort\<close>

definition sort_post ::
  "(NamespacedObjectReference \<Rightarrow> NamespacedObjectReference list) \<Rightarrow> NamespacedObjectReference set \<Rightarrow>
     NamespacedObjectReference list \<Rightarrow> (dependency_error + NamespacedObjectReference list) option \<Rightarrow> bool" where
  "sort_post edges R us r \<longleftrightarrow> (case r of
     None \<Rightarrow> False
   | Some (Inr xs) \<Rightarrow> distinct xs \<and> topological edges xs \<and> set us \<subseteq> set xs \<and> set xs \<subseteq> R
   | Some (Inl (CircularDependency names)) \<Rightarrow>
       \<exists>p. names = map Ref_String p \<and> 2 \<le> length p \<and> walk edges p \<and> last p \<in> set (butlast p))"

lemma sortLoop_post:
  assumes "finite R" "closed_under edges R" "card R \<le> n"
  shows "set us \<subseteq> R \<Longrightarrow> set (sortedRefs st) \<subseteq> R \<Longrightarrow> dfs_inv edges st \<Longrightarrow> temporary st = {} \<Longrightarrow>
    set ws \<subseteq> set (sortedRefs st) \<Longrightarrow> sort_post edges R (ws @ us) (sortLoop edges n us st)"
proof (induction us arbitrary: st ws)
  case Nil
  then show ?case by (simp add: sort_post_def dfs_inv_def)
next
  case (Cons u us)
  show ?case
  proof (cases "mark st u = unmarked")
    case True
    have "card (unvisited st \<inter> R) \<le> n" using assms(1,3) card_mono [of R "unvisited st \<inter> R"] by simp
    then have "returns_within R st (depthFirstSearch edges n u st)"
      using depthFirstSearch_returns [OF assms(1,2)] True Cons.prems(1) by simp
    then obtain c st1 where d: "depthFirstSearch edges n u st = Some (c, st1)" "set (sortedRefs st1) \<subseteq> R"
      using Cons.prems(2) unfolding returns_within_def by blast
    note ok = search_okD [OF depthFirstSearch_ok Cons.prems(3) True d(1)]
    show ?thesis
    proof (cases "c = []")
      case True
      then have "sort_post edges R ((ws @ [u]) @ us) (sortLoop edges n us st1)"
        using ok Cons.prems d(2) by (intro Cons.IH) (auto simp: extended_def)
      then show ?thesis using True \<open>mark st u = unmarked\<close> d by simp
    next
      case False
      then have "lasso edges {} u c" using ok Cons.prems(4) by simp
      then show ?thesis using False True d
        by (auto simp: lasso_def sort_post_def rev_map [symmetric])
    qed
  next
    case False
    then have "mark st u = permanentMark" using Cons.prems(4) by (cases "mark st u") auto
    then have "u \<in> set (sortedRefs st)" using Cons.prems(3) by (simp add: dfs_inv_def)
    then have "sort_post edges R ((ws @ [u]) @ us) (sortLoop edges n us st)"
      using Cons.prems by (intro Cons.IH) auto
    then show ?thesis using False by simp
  qed
qed

definition reachable :: "Dependent list \<Rightarrow> NamespacedObjectReference set" where
  "reachable objects = {v. \<exists>obj \<in> set objects. (dependsOnRef objects)\<^sup>*\<^sup>* (vertex obj) v}"

lemma reachable_references: "reachable objects \<subseteq> set (references objects)"
proof
  fix v assume "v \<in> reachable objects"
  then obtain obj where "obj \<in> set objects" "(dependsOnRef objects)\<^sup>*\<^sup>* (vertex obj) v" by (auto simp: reachable_def)
  from this(2,1) show "v \<in> set (references objects)"
    by (induction) (auto simp: references_def dest: edges_references)
qed

lemma reachable_closed: "closed_under (edgesOf (buildEdges objects)) (reachable objects)"
  unfolding closed_under_def reachable_def
  by (auto simp: set_edges) (meson rtranclp.rtrancl_into_rtrancl)

lemma topological_closed: "topological edges xs \<Longrightarrow> closed_under edges (set xs)"
  by (force simp: topological_def closed_under_def in_set_conv_nth dest: in_set_takeD)

lemma reachable_subset:
  assumes "closed_under (edgesOf (buildEdges objects)) S" "vertex ` set objects \<subseteq> S"
  shows "reachable objects \<subseteq> S"
proof
  fix v assume "v \<in> reachable objects"
  then obtain obj where "obj \<in> set objects" "(dependsOnRef objects)\<^sup>*\<^sup>* (vertex obj) v" by (auto simp: reachable_def)
  from this(2,1) show "v \<in> S" using assms
    by (induction) (auto simp: closed_under_def set_edges [symmetric])
qed

lemma vertex_reachable: "obj \<in> set objects \<Longrightarrow> vertex obj \<in> reachable objects"
  by (auto simp: reachable_def)

lemma Sort_post:
  "sort_post (edgesOf (buildEdges objects)) (reachable objects) (map vertex objects) (Sort objects)"
proof -
  let ?e = "edgesOf (buildEdges objects)" and ?R = "reachable objects"
  have "card ?R \<le> Suc (length (references objects))"
    using card_mono [OF _ reachable_references] card_length [of "references objects"] by (meson List.finite_set le_SucI le_trans)
  then have "sort_post ?e ?R ([] @ map vertex objects) (Sort objects)" unfolding Sort_def
    by (intro sortLoop_post)
      (auto simp: reachable_closed dfs_inv_def vertex_reachable intro: finite_subset [OF reachable_references])
  then show ?thesis by simp
qed

lemma walk_nth: "walk edges p \<Longrightarrow> Suc i < length p \<Longrightarrow> p ! Suc i \<in> set (edges (p ! i))"
proof (induction edges p arbitrary: i rule: walk.induct)
  case (1 edges x y p)
  then show ?case by (cases i) auto
qed auto

lemma topological_nth:
  "topological (edgesOf (buildEdges objects)) xs \<Longrightarrow> i < length xs \<Longrightarrow> dependsOnRef objects (xs ! i) v \<Longrightarrow>
     v \<in> set (take i xs)"
  by (auto simp: topological_def set_edges [symmetric])

text \<open>
  C6. Sorting always ends. When it succeeds, the list has every reference that the objects reach through their
  dependencies once and no other, and each of them after all those it depends on. Otherwise the error
  names a walk along the dependencies that comes back to a reference it has already visited.
\<close>

theorem Sort_topological:
  "(\<exists>xs. Sort objects = Some (Inr xs) \<and> distinct xs \<and> set xs = reachable objects \<and>
      (\<forall>i v. i < length xs \<longrightarrow> dependsOnRef objects (xs ! i) v \<longrightarrow> v \<in> set (take i xs))) \<or>
   (\<exists>p. Sort objects = Some (Inl (CircularDependency (map Ref_String p))) \<and> 2 \<le> length p \<and>
      (\<forall>i. Suc i < length p \<longrightarrow> dependsOnRef objects (p ! i) (p ! Suc i)) \<and> last p \<in> set (butlast p))"
proof -
  note post = Sort_post [of objects, unfolded sort_post_def]
  consider (ok) xs where "Sort objects = Some (Inr xs)" | (cycle) names where "Sort objects = Some (Inl (CircularDependency names))"
    using post by (auto split: option.splits sum.splits dependency_error.splits)
  then show ?thesis
  proof cases
    case ok
    then have x: "distinct xs" "topological (edgesOf (buildEdges objects)) xs" "vertex ` set objects \<subseteq> set xs"
      "set xs \<subseteq> reachable objects" using post by auto
    then have "set xs = reachable objects" using reachable_subset topological_closed by blast
    then show ?thesis using ok x(1) topological_nth [OF x(2)] by blast
  next
    case cycle
    then obtain p where "names = map Ref_String p" "2 \<le> length p" "walk (edgesOf (buildEdges objects)) p"
      "last p \<in> set (butlast p)" using post by auto
    then show ?thesis using cycle walk_nth [of "edgesOf (buildEdges objects)" p] by (auto simp: set_edges)
  qed
qed

definition frontend :: Dependent where
  "frontend = \<lparr>dName = ''frontend'', dNamespace = ''apps'', dependsOn = MakeDependsOn [''backend'', ''linkerd/linkerd'']\<rparr>"

definition backend :: Dependent where
  "backend = \<lparr>dName = ''backend'', dNamespace = ''apps'', dependsOn = MakeDependsOn [''linkerd/linkerd'']\<rparr>"

definition backend_cyclic :: Dependent where
  "backend_cyclic = \<lparr>dName = ''backend'', dNamespace = ''apps'', dependsOn = MakeDependsOn [''frontend@ready'']\<rparr>"

theorem Sort_topological_witness:
  "Sort [frontend, backend] =
     Some (Inr [Ref ''linkerd'' ''linkerd'', Ref ''apps'' ''backend'', Ref ''apps'' ''frontend'']) \<and>
   set [Ref ''linkerd'' ''linkerd'', Ref ''apps'' ''backend'', Ref ''apps'' ''frontend''] = reachable [frontend, backend] \<and>
   Sort [frontend, backend_cyclic] = Some (Inl (CircularDependency [''apps/frontend'', ''apps/backend'', ''apps/frontend'']))"
proof -
  have s: "Sort [frontend, backend] =
     Some (Inr [Ref ''linkerd'' ''linkerd'', Ref ''apps'' ''backend'', Ref ''apps'' ''frontend''])"
    by code_simp
  have c: "Sort [frontend, backend_cyclic] =
     Some (Inl (CircularDependency [''apps/frontend'', ''apps/backend'', ''apps/frontend'']))"
    by code_simp
  show ?thesis using Sort_topological [of "[frontend, backend]"] s c by auto
qed

section \<open>Parsing dependencies\<close>

definition wf_dependency :: "DependencyReference \<Rightarrow> bool" where
  "wf_dependency r \<longleftrightarrow> CHR ''@'' \<notin> set (depNamespace r) \<and> CHR ''@'' \<notin> set (depName r) \<and>
     CHR ''/'' \<notin> set (depNamespace r) \<and> CHR ''/'' \<notin> set (depName r)"

lemma makeDependency_String: "wf_dependency r \<Longrightarrow> makeDependency (Dep_String r) = r"
  by (cases r)
    (auto simp: wf_dependency_def makeDependency_def Dep_String_def split_at_byte
      takeWhile_until [of _ "_ @ _ # _", simplified] dropWhile_until [of _ "_ @ _ # _", simplified])

text \<open>
  A list of dependencies written in the format \<open>[namespace/]name[@readyExpr]\<close> is parsed back to the same
  dependencies, whatever the expressions contain, when names and namespaces have neither an at sign nor a slash.
\<close>

theorem MakeDependsOn_String:
  assumes "\<forall>r \<in> set deps. wf_dependency r"
  shows "MakeDependsOn (map Dep_String deps) = deps"
  using assms by (induction deps) (auto simp: MakeDependsOn_def makeDependency_String)

theorem MakeDependsOn_String_witness:
  "MakeDependsOn [''ns/app@a@b/c'', ''app''] =
     [\<lparr>depName = ''app'', depNamespace = ''ns'', ReadyExpr = ''a@b/c''\<rparr>,
      \<lparr>depName = ''app'', depNamespace = [], ReadyExpr = []\<rparr>]"
  using MakeDependsOn_String [of "[\<lparr>depName = ''app'', depNamespace = ''ns'', ReadyExpr = ''a@b/c''\<rparr>,
      \<lparr>depName = ''app'', depNamespace = [], ReadyExpr = []\<rparr>]"]
  by (simp add: wf_dependency_def Dep_String_def)

end
