(* ===== verification/Resource_Order.thy ===== *)
theory Resource_Order
  imports Go_Prelude
begin

text \<open>
  The order in which resources are applied, \<open>ssa/sort.go\<close>, and the change sets of \<open>ssa/changeset.go\<close>.
  An \<open>ObjMetadata\<close> is the namespace, the name and the group and kind of an object.
\<close>

section \<open>Kinds\<close>

record KindOrder =
  First :: "string list"
  Last :: "string list"

definition ReconcileOrder :: KindOrder where
  "ReconcileOrder = \<lparr>
     First = [''CustomResourceDefinition'', ''Namespace'', ''ClusterRole'', ''ClusterClass'', ''RuntimeClass'',
       ''PriorityClass'', ''StorageClass'', ''VolumeSnapshotClass'', ''IngressClass'', ''GatewayClass'',
       ''ClusterRoleBinding'', ''ResourceQuota'', ''ServiceAccount'', ''Role'', ''RoleBinding'', ''ConfigMap'',
       ''Secret'', ''Service'', ''LimitRange'', ''Deployment'', ''StatefulSet'', ''CronJob'', ''PodDisruptionBudget''],
     Last = [''MutatingWebhookConfiguration'', ''ValidatingWebhookConfiguration'']\<rparr>"

datatype GroupKind = GK (Group: string) (Kind: string)

datatype ObjMetadata = ObjMetadata (Namespace: string) (Name: string) (GroupKind: GroupKind)

definition computeKind2index :: "(string, int) gomap" where
  "computeKind2index =
     (let n = int (length (First ReconcileOrder));
          m = fold (\<lambda>(i, k) m. AList.update k (- n + int i) m) (enumerate 0 (First ReconcileOrder)) []
      in fold (\<lambda>(i, k) m. AList.update k (1 + int i) m) (enumerate 0 (Last ReconcileOrder)) m)"

definition getIndexByKind :: "string \<Rightarrow> int" where
  "getIndexByKind kind = (case map_of computeKind2index kind of Some i \<Rightarrow> i | None \<Rightarrow> 0)"

definition Equals :: "GroupKind \<Rightarrow> GroupKind \<Rightarrow> bool" where
  "Equals i j \<longleftrightarrow> Group i = Group j \<and> Kind i = Kind j"

definition IsLessThan :: "GroupKind \<Rightarrow> GroupKind \<Rightarrow> bool" where
  "IsLessThan i j =
     (let indexI = getIndexByKind (Kind i); indexJ = getIndexByKind (Kind j) in
      if indexI \<noteq> indexJ then indexI < indexJ
      else if Group i \<noteq> Group j then Group i < Group j
      else Kind i < Kind j)"

definition metaLess :: "ObjMetadata \<Rightarrow> ObjMetadata \<Rightarrow> bool" where
  "metaLess i j =
     (if \<not> Equals (GroupKind i) (GroupKind j) then IsLessThan (GroupKind i) (GroupKind j)
      else if Namespace i \<noteq> Namespace j then Namespace i < Namespace j
      else Name i < Name j)"

text \<open>Sorting a slice of metadata, as \<open>sort.Sort(SortableMetas(xs))\<close>.\<close>

definition SortableMetas_sort :: "ObjMetadata list \<Rightarrow> ObjMetadata list" where
  "SortableMetas_sort xs = sort_Slice metaLess xs"

section \<open>Change sets\<close>

type_synonym Action = string

definition CreatedAction :: Action where "CreatedAction = ''created''"

definition ConfiguredAction :: Action where "ConfiguredAction = ''configured''"

definition UnchangedAction :: Action where "UnchangedAction = ''unchanged''"

definition DeletedAction :: Action where "DeletedAction = ''deleted''"

definition SkippedAction :: Action where "SkippedAction = ''skipped''"

definition UnknownAction :: Action where "UnknownAction = ''unknown''"

lemmas action_defs = CreatedAction_def ConfiguredAction_def UnchangedAction_def DeletedAction_def
  SkippedAction_def UnknownAction_def

definition Action_String :: "Action \<Rightarrow> string" where
  "Action_String a = a"

record ChangeSetEntry =
  EObjMetadata :: ObjMetadata
  GroupVersion :: string
  Subject :: string
  EAction :: Action

type_synonym ChangeSet = "ChangeSetEntry list"

definition NewChangeSet :: ChangeSet where
  "NewChangeSet = []"

definition ChangeSet_Add :: "ChangeSetEntry \<Rightarrow> ChangeSet \<Rightarrow> ChangeSet" where
  "ChangeSet_Add e c = c @ [e]"

definition ChangeSet_Append :: "ChangeSetEntry list \<Rightarrow> ChangeSet \<Rightarrow> ChangeSet" where
  "ChangeSet_Append es c = c @ es"

definition Entry_String :: "ChangeSetEntry \<Rightarrow> string" where
  "Entry_String e = Subject e @ '' '' @ Action_String (EAction e)"

definition ChangeSet_String :: "ChangeSet \<Rightarrow> string" where
  "ChangeSet_String c =
     (let s = concat (map (\<lambda>e. Entry_String e @ [CHR 0x0A]) c)
      in if HasSuffix s [CHR 0x0A] then take (length s - 1) s else s)"

definition ToGroupedMap :: "ChangeSet \<Rightarrow> (Action, string list) gomap" where
  "ToGroupedMap c =
     fold (\<lambda>e m. AList.update (EAction e)
       ((case map_of m (EAction e) of Some ss \<Rightarrow> ss | None \<Rightarrow> []) @ [Subject e]) m) c []"

definition ToMap :: "ChangeSet \<Rightarrow> (string, Action) gomap" where
  "ToMap c = fold (\<lambda>e m. AList.update (Subject e) (EAction e) m) c []"

definition ToObjMetadataSet :: "ChangeSet \<Rightarrow> ObjMetadata list" where
  "ToObjMetadataSet c = map EObjMetadata c"

section \<open>The order\<close>

definition meta_key :: "ObjMetadata \<Rightarrow> int \<times> string \<times> string \<times> string \<times> string" where
  "meta_key o' = (getIndexByKind (Kind (GroupKind o')), Group (GroupKind o'), Kind (GroupKind o'), Namespace o', Name o')"

fun key_less :: "int \<times> string \<times> string \<times> string \<times> string \<Rightarrow> int \<times> string \<times> string \<times> string \<times> string \<Rightarrow> bool" where
  "key_less (a, b, c, d, e) (a', b', c', d', e') \<longleftrightarrow>
     a < a' \<or> a = a' \<and> (b < b' \<or> b = b' \<and> (c < c' \<or> c = c' \<and> (d < d' \<or> d = d' \<and> e < e')))"

lemma metaLess_key: "metaLess i j \<longleftrightarrow> key_less (meta_key i) (meta_key j)"
  by (auto simp: metaLess_def Equals_def IsLessThan_def meta_key_def Let_def)

lemma meta_key_inj: "meta_key i = meta_key j \<Longrightarrow> i = j"
  by (auto simp: meta_key_def intro: ObjMetadata.expand GroupKind.expand)

lemma key_less_total: "k \<noteq> k' \<Longrightarrow> key_less k k' \<or> key_less k' k"
  by (cases k; cases k') (auto simp: not_less_iff_gr_or_eq neq_iff)

lemma key_less_asym: "key_less k k' \<Longrightarrow> \<not> key_less k' k"
  by (cases k; cases k') auto

lemma key_less_trans: "key_less a b \<Longrightarrow> key_less b c \<Longrightarrow> key_less a c"
  by (cases a; cases b; cases c) auto

interpretation metas: less_order metaLess
proof
  show "\<not> metaLess b a" if "metaLess a b" for a b
    using that by (simp add: metaLess_key key_less_asym)
  show "\<not> metaLess a c" if "\<not> metaLess a b" "\<not> metaLess b c" for a b c
    using that unfolding metaLess_key by (metis key_less_total key_less_trans)
qed

lemma metaLess_total: "i \<noteq> j \<Longrightarrow> metaLess i j \<or> metaLess j i"
  unfolding metaLess_key using key_less_total meta_key_inj by blast

lemma not_metaLess_index:
  "\<not> metaLess j i \<Longrightarrow> getIndexByKind (Kind (GroupKind i)) \<le> getIndexByKind (Kind (GroupKind j))"
  by (auto simp: metaLess_key meta_key_def not_less)

text \<open>The stage of a kind: its position among the first kinds, one stage for the others, then the last kinds.\<close>

definition stage :: "string \<Rightarrow> nat" where
  "stage k =
     (let a = First ReconcileOrder; b = Last ReconcileOrder in
      if k \<in> set a then length (takeWhile (\<lambda>x. x \<noteq> k) a)
      else if k \<in> set b then length a + 1 + length (takeWhile (\<lambda>x. x \<noteq> k) b)
      else length a)"

lemma getIndexByKind_stage: "getIndexByKind k = int (stage k) - int (length (First ReconcileOrder))"
  by (simp add: getIndexByKind_def computeKind2index_def stage_def ReconcileOrder_def map_of_update)

text \<open>
  C28. Sorting resources gives the same list for every order of the same resources, with the same
  elements, in which the kinds come in stages: the first kinds in their listed order, then all
  kinds that are not listed, then the webhook configurations.
\<close>

theorem SortableMetas_deterministic:
  assumes "mset xs = mset ys"
  shows "SortableMetas_sort xs = SortableMetas_sort ys \<and> mset (SortableMetas_sort xs) = mset xs \<and>
    (\<forall>i j. i < j \<longrightarrow> j < length xs \<longrightarrow>
      stage (Kind (GroupKind (SortableMetas_sort xs ! i))) \<le> stage (Kind (GroupKind (SortableMetas_sort xs ! j))))"
proof (intro conjI allI impI)
  show "SortableMetas_sort xs = SortableMetas_sort ys" unfolding SortableMetas_sort_def
    using assms by (intro metas.sort_unique metas.sorted_sort_Slice metaLess_total) simp_all
  show "mset (SortableMetas_sort xs) = mset xs" by (simp add: SortableMetas_sort_def)
  fix i j assume "i < j" "j < length xs"
  then have "\<not> metaLess (SortableMetas_sort xs ! j) (SortableMetas_sort xs ! i)"
    using sorted_wrt_nth_less [OF metas.sorted_sort_Slice [of xs]] by (simp add: SortableMetas_sort_def)
  from not_metaLess_index [OF this] show "stage (Kind (GroupKind (SortableMetas_sort xs ! i))) \<le>
      stage (Kind (GroupKind (SortableMetas_sort xs ! j)))" by (simp add: getIndexByKind_stage)
qed

theorem SortableMetas_deterministic_witness:
  "SortableMetas_sort [ObjMetadata ''a'' ''x'' (GK ''apps'' ''Deployment''), ObjMetadata '''' ''a'' (GK '''' ''Namespace'')] =
   SortableMetas_sort [ObjMetadata '''' ''a'' (GK '''' ''Namespace''), ObjMetadata ''a'' ''x'' (GK ''apps'' ''Deployment'')]"
  using SortableMetas_deterministic [of
    "[ObjMetadata ''a'' ''x'' (GK ''apps'' ''Deployment''), ObjMetadata '''' ''a'' (GK '''' ''Namespace'')]"
    "[ObjMetadata '''' ''a'' (GK '''' ''Namespace''), ObjMetadata ''a'' ''x'' (GK ''apps'' ''Deployment'')]"]
  by simp

section \<open>Reading change sets\<close>

lemma ToMap_last:
  "map_of (ToMap c) s = map_option EAction (List.find (\<lambda>e. Subject e = s) (rev c))"
  unfolding ToMap_def by (induction c rule: rev_induct) (auto simp: map_of_update)

lemma ToGroupedMap_groups:
  "map_of (ToGroupedMap c) a =
     (let ss = map Subject (filter (\<lambda>e. EAction e = a) c) in if ss = [] then None else Some ss)"
  unfolding ToGroupedMap_def
  by (induction c rule: rev_induct) (auto simp: map_of_update Let_def)

end
