(* ===== verification/History.thy ===== *)
theory History
  imports Go_Prelude
begin

text \<open>
  The reconciliation history of \<open>apis/meta/history.go\<close>: at most five snapshots, the latest first.
  Times and durations are integers and the number of reconciliations is an \<open>int64\<close>.
\<close>

definition HistoryMaxSize :: nat where "HistoryMaxSize = 5"

record Snapshot =
  Digest :: string
  FirstReconciled :: int
  LastReconciled :: int
  LastReconciledDuration :: int
  LastReconciledStatus :: string
  TotalReconciliations :: int
  Metadata :: "(string, string) gomap"

type_synonym History = "Snapshot list"

definition History_Less :: "Snapshot \<Rightarrow> Snapshot \<Rightarrow> bool" where
  "History_Less a b \<longleftrightarrow> LastReconciled a > LastReconciled b"

definition Latest :: "History \<Rightarrow> Snapshot option" where
  "Latest h = (if length h = 0 then None else Some (h ! 0))"

definition truncate_history :: "History \<Rightarrow> History" where
  "truncate_history h = (if length h \<le> HistoryMaxSize then h else take HistoryMaxSize h)"

text \<open>The search loop: the snapshots before the match, and the match updated and moved to the front.\<close>

fun upsertLoop :: "(Snapshot \<Rightarrow> bool) \<Rightarrow> (Snapshot \<Rightarrow> Snapshot) \<Rightarrow> History \<Rightarrow> History \<Rightarrow> History option" where
  "upsertLoop same upd seen [] = None"
| "upsertLoop same upd seen (x # xs) =
     (if same x then Some (upd x # seen @ xs) else upsertLoop same upd (seen @ [x]) xs)"

definition Upsert ::
  "string \<Rightarrow> int \<Rightarrow> int \<Rightarrow> string \<Rightarrow> (string, string) gomap \<Rightarrow> History \<Rightarrow> History" where
  "Upsert digest now duration st metadata h =
     (let same = (\<lambda>x. Digest x = digest \<and> LastReconciledStatus x = st);
          upd = (\<lambda>x. x\<lparr>LastReconciled := now, LastReconciledDuration := duration,
                       TotalReconciliations := wrap64 (TotalReconciliations x + 1), Metadata := metadata\<rparr>);
          new = \<lparr>Digest = digest, FirstReconciled = now, LastReconciled = now,
                 LastReconciledDuration = duration, LastReconciledStatus = st,
                 TotalReconciliations = 1, Metadata = metadata\<rparr>
      in truncate_history (case upsertLoop same upd [] h of Some h' \<Rightarrow> h' | None \<Rightarrow> new # h))"

section \<open>Invariant\<close>

definition snapshot_key :: "Snapshot \<Rightarrow> string \<times> string" where
  "snapshot_key x = (Digest x, LastReconciledStatus x)"

interpretation history: less_order History_Less
  by unfold_locales (auto simp: History_Less_def)

text \<open>A history with its snapshots distinct, in order and not after the given time.\<close>

definition history_ok :: "int \<Rightarrow> History \<Rightarrow> bool" where
  "history_ok t h \<longleftrightarrow> length h \<le> HistoryMaxSize \<and> distinct (map snapshot_key h) \<and> sorted_by History_Less h \<and>
     (\<forall>x \<in> set h. LastReconciled x \<le> t)"

lemma upsertLoop_cases:
  "case upsertLoop same upd seen h of
     None \<Rightarrow> \<forall>x \<in> set h. \<not> same x
   | Some h' \<Rightarrow> \<exists>a x b. h = a @ x # b \<and> same x \<and> (\<forall>y \<in> set a. \<not> same y) \<and> h' = upd x # seen @ a @ b"
proof (induction same upd seen h rule: upsertLoop.induct)
  case (2 same upd seen x xs)
  show ?case
  proof (cases "same x")
    case True
    then have "\<exists>a y b. x # xs = a @ y # b \<and> same y \<and> (\<forall>z \<in> set a. \<not> same z) \<and> upd x # seen @ xs = upd y # seen @ a @ b"
      by (intro exI [of _ "[]"]) auto
    then show ?thesis using True by simp
  next
    case False
    with 2 show ?thesis
      by (auto split: option.splits) (metis Cons_eq_appendI append.assoc append_Cons append_Nil set_ConsD)
  qed
qed simp

lemma history_ok_truncate:
  "distinct (map snapshot_key h) \<Longrightarrow> sorted_by History_Less h \<Longrightarrow> \<forall>x \<in> set h. LastReconciled x \<le> t \<Longrightarrow>
     history_ok t (truncate_history h)"
  by (auto simp: history_ok_def truncate_history_def take_map [symmetric] sorted_wrt_take dest: in_set_takeD)

lemma Upsert_shape:
  obtains a b x where "Upsert d now dur st md h = truncate_history (x # a @ b)"
    "LastReconciled x = now" "snapshot_key x = (d, st)" "Metadata x = md" "LastReconciledDuration x = dur"
    "h = a @ b \<and> (d, st) \<notin> snapshot_key ` set h \<and> TotalReconciliations x = 1 \<and> FirstReconciled x = now \<or>
     (\<exists>y. h = a @ y # b \<and> snapshot_key y = (d, st) \<and> FirstReconciled x = FirstReconciled y \<and>
       TotalReconciliations x = wrap64 (TotalReconciliations y + 1))"
proof -
  let ?same = "\<lambda>x. Digest x = d \<and> LastReconciledStatus x = st"
  let ?upd = "\<lambda>x. x\<lparr>LastReconciled := now, LastReconciledDuration := dur,
                       TotalReconciliations := wrap64 (TotalReconciliations x + 1), Metadata := md\<rparr>"
  note c = upsertLoop_cases [where same = ?same and upd = ?upd and seen = "[]" and h = h]
  show thesis
  proof (cases "upsertLoop ?same ?upd [] h")
    case None
    then show thesis using c that [of _ "[]" h] by (force simp: Upsert_def snapshot_key_def)
  next
    case (Some h')
    then obtain a y b where y: "h = a @ y # b" "?same y" "h' = ?upd y # a @ b" using c by auto
    show thesis by (rule that [of "?upd y" a b]) (use Some y in \<open>auto simp: Upsert_def snapshot_key_def\<close>)
  qed
qed

lemma Upsert_ok:
  assumes "history_ok t h" "t \<le> now"
  shows "history_ok now (Upsert d now dur st md h)"
proof -
  obtain a b x where u: "Upsert d now dur st md h = truncate_history (x # a @ b)"
    "LastReconciled x = now" "snapshot_key x = (d, st)"
    "h = a @ b \<and> (d, st) \<notin> snapshot_key ` set h \<or> (\<exists>y. h = a @ y # b \<and> snapshot_key y = (d, st))"
    by (rule Upsert_shape [of d now dur st md h]) blast
  have "distinct (map snapshot_key (x # a @ b))" using assms(1) u(3,4) by (elim disjE exE conjE) (simp_all add: history_ok_def image_Un Int_commute)
  moreover have "sorted_by History_Less (a @ b)" using assms(1) u(4) by (auto simp: history_ok_def sorted_wrt_append)
  moreover have le: "\<forall>z \<in> set (a @ b). LastReconciled z \<le> now"
  proof
    fix z assume "z \<in> set (a @ b)"
    then have "z \<in> set h" using u(4) by auto
    then show "LastReconciled z \<le> now" using assms by (meson history_ok_def order_trans)
  qed
  ultimately show ?thesis unfolding u(1) using u(2)
    by (intro history_ok_truncate) (auto simp: History_Less_def not_less)
qed

lemma Upsert_Latest:
  "\<exists>x. Latest (Upsert d now dur st md h) = Some x \<and> snapshot_key x = (d, st) \<and> LastReconciled x = now \<and> Metadata x = md"
proof -
  obtain a b x where "Upsert d now dur st md h = truncate_history (x # a @ b)"
    "LastReconciled x = now" "snapshot_key x = (d, st)" "Metadata x = md"
    by (rule Upsert_shape [of d now dur st md h]) blast
  then show ?thesis by (auto simp: Latest_def truncate_history_def HistoryMaxSize_def)
qed

section \<open>Runs\<close>

type_synonym upsert = "string \<times> int \<times> int \<times> string \<times> (string, string) gomap"

definition upserts :: "upsert list \<Rightarrow> History" where
  "upserts us = fold (\<lambda>(d, t, dur, st, md). Upsert d t dur st md) us []"

lemma upserts_ok:
  assumes "sorted (map (\<lambda>u. fst (snd u)) us)" "us \<noteq> []"
  shows "history_ok (fst (snd (last us))) (upserts us)"
  using assms
proof (induction us rule: rev_induct)
  case (snoc u us)
  obtain d t dur st md where u: "u = (d, t, dur, st, md)" by (cases u)
  have "\<exists>t0 \<le> t. history_ok t0 (upserts us)"
  proof (cases "us = []")
    case True
    then show ?thesis by (auto simp: upserts_def history_ok_def)
  next
    case False
    then show ?thesis using snoc u by (auto simp: sorted_append)
  qed
  then show ?case using u by (auto simp: upserts_def intro: Upsert_ok)
qed simp

text \<open>
  C30. A history built by any number of upserts at times that do not decrease has at most five snapshots, no two
  of the same digest and status, the most recently reconciled first, and its latest snapshot is that of
  the last upsert.
\<close>

theorem history_bounded:
  assumes "sorted (map (\<lambda>u. fst (snd u)) (us @ [(d, t, dur, st, md)]))"
  shows "let h = upserts (us @ [(d, t, dur, st, md)]) in
    length h \<le> 5 \<and> distinct (map (\<lambda>x. (Digest x, LastReconciledStatus x)) h) \<and>
    sorted_wrt (\<lambda>a b. LastReconciled a \<ge> LastReconciled b) h \<and>
    (\<exists>x. Latest h = Some x \<and> Digest x = d \<and> LastReconciledStatus x = st \<and> LastReconciled x = t \<and> Metadata x = md)"
  using upserts_ok [OF assms] Upsert_Latest [of d t dur st md "upserts us"]
  by (auto simp: history_ok_def HistoryMaxSize_def upserts_def snapshot_key_def [abs_def] History_Less_def [abs_def] not_less)

theorem history_bounded_witness:
  "length (upserts [(''a'', 1, 1, ''ok'', []), (''b'', 2, 1, ''ok'', []), (''a'', 3, 1, ''ok'', [])]) \<le> 5"
  using history_bounded [of "[(''a'', 1, 1, ''ok'', []), (''b'', 2, 1, ''ok'', [])]" "''a''" 3 1 "''ok''" "[]"]
  by (simp add: Let_def)

end
