(* ===== verification/Git_Revision.thy ===== *)
theory Git_Revision
  imports Go_Utf8
begin

text \<open>
  Commits, tags and revisions of \<open>git/git.go\<close> and \<open>git/utils.go\<close>. A byte slice that can be nil is an
  option; its text is empty when it is nil.
\<close>

section \<open>Hashes\<close>

type_synonym Hash = "string option"

definition Hash_String :: "Hash \<Rightarrow> string" where
  "Hash_String h = (case h of Some s \<Rightarrow> s | None \<Rightarrow> [])"

definition HashTypeSHA1 :: string where "HashTypeSHA1 = ''sha1''"

definition HashTypeUnknown :: string where "HashTypeUnknown = ''<unknown>''"

definition Algorithm :: "Hash \<Rightarrow> string" where
  "Algorithm h = (if length (Hash_String h) = 40 then HashTypeSHA1 else HashTypeUnknown)"

definition Hash_Digest :: "Hash \<Rightarrow> string" where
  "Hash_Digest h = (if length (Hash_String h) = 0 then [] else Algorithm h @ '':'' @ Hash_String h)"

section \<open>Commits and tags\<close>

record Signature =
  SName :: string
  Email :: string
  When :: int

record Tag =
  THash :: Hash
  TName :: string
  TAuthor :: Signature
  TSignature :: string
  TEncoded :: "string option"
  TMessage :: string

record Commit =
  CHash :: Hash
  Reference :: string
  Author :: Signature
  Committer :: Signature
  CSignature :: string
  Encoded :: "string option"
  Message :: string
  ReferencingTag :: "Tag option"

text \<open>\<open>strings.SplitAfterN\<close> for a one-byte separator: at most \<open>n\<close> parts, each but the last with its separator.\<close>

fun SplitAfterN :: "char \<Rightarrow> nat \<Rightarrow> string \<Rightarrow> string list" where
  "SplitAfterN c 0 s = []"
| "SplitAfterN c (Suc 0) s = [s]"
| "SplitAfterN c (Suc (Suc n)) s =
     (if c \<in> set s
      then (takeWhile (\<lambda>x. x \<noteq> c) s @ [c]) # SplitAfterN c (Suc n) (drop 1 (dropWhile (\<lambda>x. x \<noteq> c) s))
      else [s])"

definition Commit_String :: "Commit \<Rightarrow> string" where
  "Commit_String c =
     (let short = SplitAfterN (CHR ''/'') 3 (Reference c) in
      if length short = 3 then short ! 2 @ ''@'' @ Hash_Digest (CHash c) else Hash_Digest (CHash c))"

definition AbsoluteReference :: "Commit \<Rightarrow> string" where
  "AbsoluteReference c =
     (if Reference c \<noteq> [] then Reference c @ ''@'' @ Hash_Digest (CHash c) else Hash_Digest (CHash c))"

definition ShortMessage :: "Commit \<Rightarrow> string" where
  "ShortMessage c =
     (let subject = SplitChar (CHR 0x0A) (Message c) ! 0; r = runes subject in
      if length r > 50 then encodeRunes (take 50 r) @ ''...'' else subject)"

definition Tag_String :: "Tag \<Rightarrow> string" where
  "Tag_String t = (if length (Hash_String (THash t)) = 0 then TName t else TName t @ ''@'' @ Hash_String (THash t))"

definition IsConcreteCommit :: "Commit \<Rightarrow> bool" where
  "IsConcreteCommit c = (if CHash c \<noteq> None \<and> Encoded c \<noteq> None then True else False)"

definition IsAnnotatedTag :: "Tag \<Rightarrow> bool" where
  "IsAnnotatedTag t \<longleftrightarrow> length (case TEncoded t of Some s \<Rightarrow> s | None \<Rightarrow> []) > 0"

definition IsSignedTag :: "Tag \<Rightarrow> bool" where
  "IsSignedTag t \<longleftrightarrow> TSignature t \<noteq> []"

section \<open>Revisions\<close>

text \<open>The text before and after the last occurrence of a byte, if it has one: \<open>strings.LastIndex\<close> and the slices there.\<close>

definition splitLast :: "char \<Rightarrow> string \<Rightarrow> (string \<times> string) option" where
  "splitLast c s =
     (if c \<in> set s
      then Some (rev (drop 1 (dropWhile (\<lambda>x. x \<noteq> c) (rev s))), rev (takeWhile (\<lambda>x. x \<noteq> c) (rev s)))
      else None)"

definition ExtractNamedPointerFromRevision :: "string \<Rightarrow> string" where
  "ExtractNamedPointerFromRevision rv =
     (case splitLast (CHR ''@'') rv of
        Some (p, _) \<Rightarrow> p
      | None \<Rightarrow>
          (case splitLast (CHR ''/'') rv of
             Some (s, _) \<Rightarrow> if s \<noteq> ''HEAD'' then s else []
           | None \<Rightarrow> []))"

definition ExtractHashFromRevision :: "string \<Rightarrow> Hash" where
  "ExtractHashFromRevision rv =
     (if rv = [] then None
      else
        (case splitLast (CHR '':'') rv of
           Some (_, h) \<Rightarrow> Some h
         | None \<Rightarrow>
             let ss = SplitChar (CHR ''/'') rv in
             if length ss > 1 then Some (ss ! (length ss - 1)) else Some rv))"

definition SplitRevision :: "string \<Rightarrow> string \<times> Hash" where
  "SplitRevision rv = (ExtractNamedPointerFromRevision rv, ExtractHashFromRevision rv)"

definition TransformRevision :: "string \<Rightarrow> string" where
  "TransformRevision rv =
     (if rv = [] \<or> splitLast (CHR '':'') rv \<noteq> None then rv
      else
        (let (p, h) = SplitRevision rv in
         if p = [] then Hash_Digest h else p @ ''@'' @ Hash_Digest h))"

section \<open>Facts\<close>

lemma splitLast_None [simp]: "c \<notin> set s \<Longrightarrow> splitLast c s = None"
  by (simp add: splitLast_def)

lemma splitLast_append: "c \<notin> set b \<Longrightarrow> splitLast c (a @ c # b) = Some (a, b)"
  using takeWhile_until [of c "rev b" "rev a"] dropWhile_until [of c "rev b" "rev a"]
  by (simp add: splitLast_def)

lemma last_SplitChar: "c \<notin> set b \<Longrightarrow> last (SplitChar c (a @ c # b)) = b \<and> length (SplitChar c (a @ c # b)) > 1"
proof (induction a)
  case Nil
  then have "SplitChar c b = [b]" by (induction b) auto
  then show ?case by simp
next
  case (Cons x a)
  then show ?case by (cases "SplitChar c (a @ c # b)") (auto split: list.splits)
qed

definition hash_ok :: "string \<Rightarrow> bool" where
  "hash_ok h \<longleftrightarrow> h \<noteq> [] \<and> set h \<inter> {CHR ''/'', CHR '':'', CHR ''@''} = {}"

lemma Digest_shape: "hash_ok h \<Longrightarrow> Hash_Digest (Some h) = Algorithm (Some h) @ CHR '':'' # h"
  by (simp add: hash_ok_def Hash_Digest_def Hash_String_def)

lemma Algorithm_bytes: "set (Algorithm h) \<inter> {CHR ''/'', CHR '':'', CHR ''@''} = {}"
  by (simp add: Algorithm_def HashTypeSHA1_def HashTypeUnknown_def)

lemma Split_new_format:
  assumes "hash_ok h"
  shows "SplitRevision (p @ ''@'' @ Hash_Digest (Some h)) = (p, Some h)"
proof -
  have a: "CHR ''@'' \<notin> set (Algorithm (Some h) @ CHR '':'' # h)"
    using assms Algorithm_bytes [of "Some h"] by (auto simp: hash_ok_def)
  have c: "CHR '':'' \<notin> set h" using assms by (auto simp: hash_ok_def)
  show ?thesis
    using splitLast_append [OF a, of p] splitLast_append [OF c, of "p @ CHR ''@'' # Algorithm (Some h)"]
    by (simp add: SplitRevision_def ExtractNamedPointerFromRevision_def ExtractHashFromRevision_def Digest_shape [OF assms])
qed

lemma Split_legacy:
  assumes "hash_ok h" "CHR '':'' \<notin> set p" "CHR ''@'' \<notin> set p"
  shows "SplitRevision (p @ CHR ''/'' # h) = (if p = ''HEAD'' then [] else p, Some h)"
proof -
  have s: "CHR ''/'' \<notin> set h" and n: "CHR ''@'' \<notin> set (p @ CHR ''/'' # h)" "CHR '':'' \<notin> set (p @ CHR ''/'' # h)"
    using assms by (auto simp: hash_ok_def)
  show ?thesis
    using splitLast_append [OF s, of p] last_SplitChar [OF s, of p] n
    by (auto simp: SplitRevision_def ExtractNamedPointerFromRevision_def ExtractHashFromRevision_def Let_def
        last_conv_nth)
qed

text \<open>
  C31. Revisions: for a pointer without a colon or an at sign and a hash, a legacy revision \<open>pointer/hash\<close> is
  transformed into \<open>pointer@algorithm:hash\<close> and one of \<open>HEAD\<close> into the digest alone; transforming again changes nothing;
  and the pointer and the hash that were split off before are the same afterwards.
\<close>

theorem TransformRevision_legacy:
  assumes "hash_ok h" "CHR '':'' \<notin> set p" "CHR ''@'' \<notin> set p" "p \<noteq> []"
  shows "let r = TransformRevision (p @ ''/'' @ h) in
    r = (if p = ''HEAD'' then Hash_Digest (Some h) else p @ ''@'' @ Hash_Digest (Some h)) \<and>
    TransformRevision r = r \<and> SplitRevision r = SplitRevision (p @ ''/'' @ h)"
proof -
  let ?d = "Hash_Digest (Some h)"
  have n: "CHR '':'' \<notin> set (p @ CHR ''/'' # h)" using assms(1,2) by (auto simp: hash_ok_def)
  have r: "TransformRevision (p @ ''/'' @ h) = (if p = ''HEAD'' then ?d else p @ ''@'' @ ?d)"
    using Split_legacy [OF assms(1-3)] n assms(4) by (simp add: TransformRevision_def)
  have c: "CHR '':'' \<in> set ?d" by (simp add: Digest_shape [OF assms(1)])
  then have i: "splitLast (CHR '':'') ?d \<noteq> None" "splitLast (CHR '':'') (p @ ''@'' @ ?d) \<noteq> None"
    by (auto simp: splitLast_def)
  have h: "CHR '':'' \<notin> set h" using assms(1) by (auto simp: hash_ok_def)
  have "set ?d \<inter> {CHR ''/'', CHR ''@''} = {}"
    using assms(1) Algorithm_bytes [of "Some h"] by (auto simp: Digest_shape [OF assms(1)] hash_ok_def)
  then have "SplitRevision ?d = ([], Some h)"
    using splitLast_append [OF h, of "Algorithm (Some h)"]
    by (auto simp: SplitRevision_def ExtractNamedPointerFromRevision_def ExtractHashFromRevision_def Digest_shape [OF assms(1)])
  then show ?thesis using r i Split_new_format [OF assms(1)] Split_legacy [OF assms(1-3)]
    by (auto simp: Let_def TransformRevision_def)
qed

theorem TransformRevision_legacy_witness:
  "TransformRevision ''feature/x/abc'' = ''feature/x@<unknown>:abc'' \<and> TransformRevision ''HEAD/abc'' = ''<unknown>:abc''"
  using TransformRevision_legacy [of "''abc''" "''feature/x''"] TransformRevision_legacy [of "''abc''" "''HEAD''"]
  by (simp add: hash_ok_def Let_def Hash_Digest_def Hash_String_def Algorithm_def HashTypeUnknown_def)

section \<open>Commit strings\<close>

lemma Commit_String_split:
  assumes "CHash c = Some h" "hash_ok h" "Reference c = a @ ''/'' @ b @ ''/'' @ s"
    and "CHR ''/'' \<notin> set a" "CHR ''/'' \<notin> set b"
  shows "Commit_String c = s @ ''@'' @ Hash_Digest (Some h)" "SplitRevision (Commit_String c) = (s, Some h)"
proof -
  have "SplitAfterN (CHR ''/'') 3 (Reference c) = [a @ ''/'', b @ ''/'', s]"
    using assms(3-5) by (simp add: numeral_3_eq_3 split_at_byte)
  then show "Commit_String c = s @ ''@'' @ Hash_Digest (Some h)" using assms(1) by (simp add: Commit_String_def)
  then show "SplitRevision (Commit_String c) = (s, Some h)" using Split_new_format [OF assms(2)] by simp
qed

end
