(* ===== verification/Go_Filepath.thy ===== *)
theory Go_Filepath
  imports Go_Prelude
begin

text \<open>
  What the code uses of the \<open>path/filepath\<close> package on Unix, over the components of a path: \<open>Clean\<close>,
  \<open>IsAbs\<close>, \<open>Join\<close> of two elements and \<open>Dir\<close>. \<open>FromSlash\<close> is the identity there.
\<close>

section \<open>Operations\<close>

text \<open>One component of a path against the components kept so far, the latest first.\<close>

definition cleanStep :: "bool \<Rightarrow> string \<Rightarrow> string list \<Rightarrow> string list" where
  "cleanStep rooted c st =
     (if c = [] \<or> c = ''.'' then st
      else if c = ''..'' then
        (case st of
           [] \<Rightarrow> if rooted then [] else [c]
         | x # xs \<Rightarrow> if x = ''..'' then c # st else xs)
      else c # st)"

definition IsAbs :: "string \<Rightarrow> bool" where
  "IsAbs p \<longleftrightarrow> HasPrefix p ''/''"

definition Clean :: "string \<Rightarrow> string" where
  "Clean p =
     (let cs = rev (fold (cleanStep (IsAbs p)) (SplitChar (CHR ''/'') p) []);
          r = (if IsAbs p then ''/'' else []) @ Join cs ''/''
      in if r = [] then ''.'' else r)"

definition JoinPath :: "string \<Rightarrow> string \<Rightarrow> string" where
  "JoinPath a b =
     (if a = [] \<and> b = [] then [] else if a = [] then Clean b else if b = [] then Clean a else Clean (a @ ''/'' @ b))"

definition Dir :: "string \<Rightarrow> string" where
  "Dir p = Clean (rev (dropWhile (\<lambda>c. c \<noteq> CHR ''/'') (rev p)))"

section \<open>Absolute paths by components\<close>

definition component :: "string \<Rightarrow> bool" where
  "component c \<longleftrightarrow> c \<noteq> [] \<and> c \<noteq> ''.'' \<and> c \<noteq> ''..'' \<and> CHR ''/'' \<notin> set c"

definition abs_path :: "string list \<Rightarrow> string" where
  "abs_path cs = CHR ''/'' # Join cs ''/''"

lemma SplitChar_single: "c \<notin> set s \<Longrightarrow> SplitChar c s = [s]"
  by (induction s) auto

lemma SplitChar_sep: "SplitChar c (a @ c # b) = SplitChar c a @ SplitChar c b"
proof (induction a)
  case (Cons x a)
  then show ?case by (cases "SplitChar c a") (auto split: list.splits)
qed simp

lemma SplitChar_Join: "\<forall>x \<in> set cs. c \<notin> set x \<Longrightarrow> cs \<noteq> [] \<Longrightarrow> SplitChar c (Join cs [c]) = cs"
proof (induction cs "[c]" rule: Join.induct)
  case (3 x y zs)
  then show ?case using SplitChar_sep [of c x "Join (y # zs) [c]"] by (simp add: SplitChar_single)
qed (simp_all add: SplitChar_single)

lemma fold_components:
  "\<forall>c \<in> set cs. component c \<Longrightarrow> fold (cleanStep b) cs st = rev cs @ st"
  by (induction cs arbitrary: st) (auto simp: cleanStep_def component_def)

lemma cleanStep_components:
  "CHR ''/'' \<notin> set c \<Longrightarrow> \<forall>x \<in> set st. component x \<Longrightarrow> \<forall>x \<in> set (cleanStep True c st). component x"
proof (cases "c = [] \<or> c = ''.'' \<or> c = ''..''")
  case True
  assume st: "\<forall>x \<in> set st. component x"
  then have "st \<noteq> [] \<Longrightarrow> hd st \<noteq> ''..''" by (cases st) (simp_all add: component_def)
  then show ?thesis using True st by (cases st) (elim disjE; simp add: cleanStep_def)+
next
  case False
  assume "CHR ''/'' \<notin> set c" "\<forall>x \<in> set st. component x"
  moreover have "cleanStep True c st = c # st" using False by (simp add: cleanStep_def)
  ultimately show ?thesis using False by (simp add: component_def)
qed

lemma fold_cleanStep_components:
  "\<forall>c \<in> set cs. CHR ''/'' \<notin> set c \<Longrightarrow> \<forall>x \<in> set st. component x \<Longrightarrow>
     \<forall>x \<in> set (fold (cleanStep True) cs st). component x"
proof (induction cs arbitrary: st)
  case (Cons c cs)
  then show ?case using cleanStep_components [of c st] by simp
qed simp

lemma abs_path_IsAbs [simp]: "IsAbs (abs_path cs)"
  by (simp add: abs_path_def IsAbs_def HasPrefix_def)

lemma Clean_abs: "IsAbs p \<Longrightarrow> Clean p = abs_path (rev (fold (cleanStep True) (SplitChar (CHR ''/'') p) []))"
  by (simp add: Clean_def abs_path_def Let_def)

text \<open>The components of an absolute path.\<close>

lemma Clean_abs_components:
  assumes "IsAbs p"
  obtains cs where "Clean p = abs_path cs" "\<forall>c \<in> set cs. component c"
proof (rule that)
  show "Clean p = abs_path (rev (fold (cleanStep True) (SplitChar (CHR ''/'') p) []))" by (rule Clean_abs [OF assms])
  show "\<forall>c \<in> set (rev (fold (cleanStep True) (SplitChar (CHR ''/'') p) [])). component c"
    using fold_cleanStep_components [of "SplitChar (CHR ''/'') p" "[]"] SplitChar_no_sep by auto
qed

lemma fold_abs_path:
  assumes "\<forall>c \<in> set cs. component c"
  shows "fold (cleanStep True) (SplitChar (CHR ''/'') (abs_path cs)) [] = rev cs"
proof (cases "cs = []")
  case True
  then show ?thesis by (simp add: abs_path_def cleanStep_def)
next
  case False
  then have "SplitChar (CHR ''/'') (Join cs ''/'') = cs"
    using assms by (intro SplitChar_Join) (auto simp: component_def)
  then show ?thesis using fold_components [OF assms, of True "[]"] by (simp add: abs_path_def cleanStep_def)
qed

lemma JoinPath_abs:
  assumes "\<forall>c \<in> set cs. component c" "n \<noteq> []"
  shows "JoinPath (abs_path cs) n = abs_path (rev (fold (cleanStep True) (SplitChar (CHR ''/'') n) (rev cs)))"
proof -
  have "abs_path cs \<noteq> []" "IsAbs (abs_path cs @ ''/'' @ n)" by (simp_all add: abs_path_def IsAbs_def HasPrefix_def)
  then show ?thesis using assms(2) SplitChar_sep [of "CHR ''/''" "abs_path cs" n]
    by (simp add: JoinPath_def Clean_abs fold_abs_path [OF assms(1)])
qed

lemma Join_snoc: "cs \<noteq> [] \<Longrightarrow> Join (cs @ [x]) s = Join cs s @ s @ x"
  by (induction cs s rule: Join.induct) auto

lemma Dir_abs:
  assumes "\<forall>c \<in> set cs. component c"
  shows "Dir (abs_path cs) = abs_path (butlast cs)"
proof (cases cs rule: rev_cases)
  case Nil
  then show ?thesis by (simp add: Dir_def abs_path_def Clean_def IsAbs_def HasPrefix_def cleanStep_def)
next
  case (snoc ds x)
  have x: "CHR ''/'' \<notin> set x" and ds: "\<forall>c \<in> set ds. component c" using assms snoc by (auto simp: component_def)
  define q where "q = (if ds = [] then ''/'' else abs_path ds @ ''/'')"
  have "abs_path cs = q @ x" using snoc by (auto simp: q_def abs_path_def Join_snoc)
  moreover have "\<exists>r. q = r @ [CHR ''/'']" by (auto simp: q_def)
  ultimately have "Dir (abs_path cs) = Clean q"
    using dropWhile_until [of "CHR ''/''" "rev x"] x by (auto simp: Dir_def)
  moreover have "IsAbs q" by (simp add: q_def IsAbs_def HasPrefix_def abs_path_def)
  moreover have "fold (cleanStep True) (SplitChar (CHR ''/'') q) [] = rev ds"
    using SplitChar_sep [of "CHR ''/''" "abs_path ds" "[]"] fold_abs_path [OF ds]
    by (auto simp: q_def cleanStep_def)
  ultimately show ?thesis using snoc by (simp add: Clean_abs)
qed

end
