(* ===== verification/Tar_Untar.thy ===== *)
theory Tar_Untar
  imports Go_Filepath "HOL-Library.Sublist"
begin

unbundle bit_operations_syntax

text \<open>
  Extraction of archives, \<open>tar/untar.go\<close> and \<open>tar/options.go\<close>, on Unix. The operating system is a parameter: what it answers
  to an attempted effect may depend on all effects before. The state is the sequence of attempted effects. An archive is the
  sequence of results of \<open>tar.Reader.Next\<close>, and an entry has the results of the reads of its content; both end in
  \<open>io.EOF\<close>. \<open>securejoin.SecureJoin\<close> is a parameter. Times count from the zero time.
\<close>

section \<open>Options\<close>

datatype entryType = RegularType | DirType | SymlinkType | OtherType

datatype ioerr = EOF | NotExist | ErrShortWrite | OtherError string

record tarEntry =
  hName :: string
  hSize :: int
  hType :: entryType
  hPerm :: nat
  hModTime :: int
  hReads :: "(string \<times> ioerr option) list"

record tarOpts =
  maxUntarSize :: int
  skipSymlinks :: bool
  skipGzip :: bool
  tarFilter :: "(string \<Rightarrow> tarEntry \<Rightarrow> bool) option"

type_synonym tarOption = "tarOpts \<Rightarrow> tarOpts"

definition WithMaxUntarSize :: "int \<Rightarrow> tarOption" where
  "WithMaxUntarSize m t = t\<lparr>maxUntarSize := m\<rparr>"

definition WithSkipSymlinks :: tarOption where
  "WithSkipSymlinks t = t\<lparr>skipSymlinks := True\<rparr>"

definition WithSkipGzip :: tarOption where
  "WithSkipGzip t = t\<lparr>skipGzip := True\<rparr>"

definition WithFilter :: "(string \<Rightarrow> tarEntry \<Rightarrow> bool) \<Rightarrow> tarOption" where
  "WithFilter f t = t\<lparr>tarFilter := Some f\<rparr>"

definition applyTarOpts :: "tarOption list \<Rightarrow> tarOpts \<Rightarrow> tarOpts" where
  "applyTarOpts opts t = fold (\<lambda>opt t. opt t) opts t"

definition DefaultMaxUntarSize :: int where "DefaultMaxUntarSize = 100 * 2 ^ 20"

definition UnlimitedUntarSize :: int where "UnlimitedUntarSize = - 1"

section \<open>The host\<close>

datatype effect =
    MkdirAll (epath: string) nat
  | Remove (epath: string)
  | OpenFile (epath: string) nat
  | WriteFile (epath: string) string
  | CloseFile (epath: string)
  | Chtimes (epath: string) int

datatype lstatResult = LstatFound bool | LstatError ioerr

record host =
  attempt :: "effect list \<Rightarrow> effect \<Rightarrow> ioerr option"
  bytesWritten :: "effect list \<Rightarrow> string \<Rightarrow> int"
  darwin :: bool
  Getwd :: "ioerr + string"
  SecureJoin :: "string \<Rightarrow> string \<Rightarrow> ioerr + string"
  Lstat :: "string \<Rightarrow> lstatResult"
  gzipReader :: "ioerr option"
  closeReader :: "ioerr option"
  clock :: int

datatype untar_error =
    HostError ioerr
  | LstatFailed ioerr
  | NotDirectory
  | GzipError ioerr
  | TarError ioerr
  | TooBig string
  | InvalidName string
  | CopyError ioerr
  | WriteError ioerr
  | WrongSize int
  | TimeError ioerr
  | SymlinkNotAllowed string
  | UnsupportedType string

section \<open>Copying\<close>

fun copyLoop ::
  "host \<Rightarrow> string \<Rightarrow> (string \<times> ioerr option) list \<Rightarrow> int \<Rightarrow> effect list \<Rightarrow> (int \<times> ioerr option) \<times> effect list" where
  "copyLoop h p [] written log = ((written, None), log)"
| "copyLoop h p ((chunk, er) # reads) written log =
     (let nr = int (length chunk);
          nw0 = bytesWritten h log chunk;
          ew0 = attempt h log (WriteFile p chunk);
          invalid = (nw0 < 0 \<or> nr < nw0);
          nw = (if invalid then 0 else nw0);
          ew = (if invalid \<and> ew0 = None then Some (OtherError ''invalid write result'') else ew0);
          written1 = (if nr > 0 then wrap64 (written + nw) else written);
          log1 = (if nr > 0 then log @ [WriteFile p chunk] else log)
      in if nr > 0 \<and> ew \<noteq> None then ((written1, ew), log1)
         else if nr > 0 \<and> nr \<noteq> nw then ((written1, Some ErrShortWrite), log1)
         else if er \<noteq> None then ((written1, if er = Some EOF then None else er), log1)
         else copyLoop h p reads written1 log1)"

definition copyBuffer ::
  "host \<Rightarrow> string \<Rightarrow> (string \<times> ioerr option) list \<Rightarrow> string option \<Rightarrow> effect list \<Rightarrow>
     (int \<times> ioerr option) \<times> effect list" where
  "copyBuffer h p reads buf log =
     (if buf = None then ((0, Some (OtherError ''buf is nil'')), log) else copyLoop h p reads 0 log)"

section \<open>Extraction\<close>

definition validRelPath :: "string \<Rightarrow> bool" where
  "validRelPath p \<longleftrightarrow> \<not> (p = [] \<or> Contains p [CHR 0x5C] \<or> HasPrefix p ''/'' \<or> Contains p ''../'')"

text \<open>The file itself: opening, copying, closing and the times.\<close>

definition writeRegular :: "host \<Rightarrow> int \<Rightarrow> string \<Rightarrow> tarEntry \<Rightarrow> effect list \<Rightarrow> untar_error option \<times> effect list" where
  "writeRegular h t0 absPath f log =
     (let log1 = log @ [OpenFile absPath (hPerm f)] in
      case attempt h log (OpenFile absPath (hPerm f)) of
        Some e \<Rightarrow> (Some (HostError e), log1)
      | None \<Rightarrow>
          let ((n, err), log2) = copyBuffer h absPath (hReads f) (Some []) log1 in
          if err \<noteq> None \<and> err \<noteq> Some EOF then (Some (CopyError (the err)), log2)
          else
            let closeErr = attempt h log2 (CloseFile absPath);
                log3 = log2 @ [CloseFile absPath];
                err1 = (if closeErr \<noteq> None \<and> err = None then closeErr else err)
            in case err1 of
                 Some e \<Rightarrow> (Some (WriteError e), log3)
               | None \<Rightarrow>
                   if n \<noteq> hSize f then (Some (WrongSize n), log3)
                   else
                     let modTime = (if hModTime f > t0 then t0 else hModTime f) in
                     if modTime \<noteq> 0 then
                       (map_option TimeError (attempt h log3 (Chtimes absPath modTime)), log3 @ [Chtimes absPath modTime])
                     else (None, log3))"

definition extractRegular ::
  "host \<Rightarrow> int \<Rightarrow> string \<Rightarrow> tarEntry \<Rightarrow> string list \<Rightarrow> effect list \<Rightarrow> untar_error option \<times> string list \<times> effect list" where
  "extractRegular h t0 absPath f madeDir log =
     (let parentDir = Dir absPath;
          make = (parentDir \<notin> set madeDir);
          mkErr = (if make then attempt h log (MkdirAll parentDir 0x1E8) else None);
          log1 = (if make then log @ [MkdirAll parentDir 0x1E8] else log)
      in case mkErr of
           Some e \<Rightarrow> (Some (HostError e), madeDir, log1)
         | None \<Rightarrow>
             let madeDir1 = (if make then parentDir # madeDir else madeDir);
                 rm = (darwin h \<and> hPerm f AND 0x49 \<noteq> 0);
                 rmErr = (if rm then attempt h log1 (Remove absPath) else None);
                 log2 = (if rm then log1 @ [Remove absPath] else log1)
             in if rmErr \<noteq> None \<and> rmErr \<noteq> Some NotExist then (Some (HostError (the rmErr)), madeDir1, log2)
                else (case writeRegular h t0 absPath f log2 of (e, log3) \<Rightarrow> (e, madeDir1, log3)))"

definition extractEntry ::
  "host \<Rightarrow> tarOpts \<Rightarrow> int \<Rightarrow> string \<Rightarrow> tarEntry \<Rightarrow> string list \<Rightarrow> effect list \<Rightarrow> untar_error option \<times> string list \<times> effect list" where
  "extractEntry h opts t0 dir f madeDir log =
     (let absPath = JoinPath dir (hName f) in
      if (case tarFilter opts of Some flt \<Rightarrow> flt (hName f) f | None \<Rightarrow> False) then (None, madeDir, log)
      else
        (case hType f of
           RegularType \<Rightarrow> extractRegular h t0 absPath f madeDir log
         | DirType \<Rightarrow>
             let e = MkdirAll absPath (hPerm f OR 0x1C0) in
             (case attempt h log e of
                Some err \<Rightarrow> (Some (HostError err), madeDir, log @ [e])
              | None \<Rightarrow> (None, absPath # madeDir, log @ [e]))
         | SymlinkType \<Rightarrow> (if \<not> skipSymlinks opts then Some (SymlinkNotAllowed (hName f)) else None, madeDir, log)
         | OtherType \<Rightarrow> (Some (UnsupportedType (hName f)), madeDir, log)))"

fun untarLoop ::
  "host \<Rightarrow> tarOpts \<Rightarrow> int \<Rightarrow> string \<Rightarrow> (ioerr + tarEntry) list \<Rightarrow> int \<Rightarrow> string list \<Rightarrow> effect list \<Rightarrow>
     untar_error option \<times> effect list" where
  "untarLoop h opts t0 dir [] processed madeDir log = (map_option HostError (closeReader h), log)"
| "untarLoop h opts t0 dir (Inl e # ns) processed madeDir log =
     (if e = EOF then (map_option HostError (closeReader h), log) else (Some (TarError e), log))"
| "untarLoop h opts t0 dir (Inr f # ns) processed madeDir log =
     (let processed1 = wrap64 (processed + hSize f) in
      if maxUntarSize opts > UnlimitedUntarSize \<and> processed1 > maxUntarSize opts then (Some (TooBig (hName f)), log)
      else if \<not> validRelPath (hName f) then (Some (InvalidName (hName f)), log)
      else
        (case extractEntry h opts t0 dir f madeDir log of
           (Some e, _, log1) \<Rightarrow> (Some e, log1)
         | (None, madeDir1, log1) \<Rightarrow> untarLoop h opts t0 dir ns processed1 madeDir1 log1))"

definition resolveDir :: "host \<Rightarrow> string \<Rightarrow> ioerr + string" where
  "resolveDir h dir0 =
     (let dir = Clean dir0 in
      if IsAbs dir then Inr dir
      else (case Getwd h of Inl e \<Rightarrow> Inl e | Inr cwd \<Rightarrow> SecureJoin h cwd dir))"

definition Untar ::
  "host \<Rightarrow> (ioerr + tarEntry) list \<Rightarrow> string \<Rightarrow> tarOption list \<Rightarrow> untar_error option \<times> effect list" where
  "Untar h archive dir0 inOpts =
     (let opts = applyTarOpts inOpts
            \<lparr>maxUntarSize = DefaultMaxUntarSize, skipSymlinks = False, skipGzip = False, tarFilter = None\<rparr>
      in case resolveDir h dir0 of
           Inl e \<Rightarrow> (Some (HostError e), [])
         | Inr dir \<Rightarrow>
             (case Lstat h dir of
                LstatError e \<Rightarrow>
                  if e \<noteq> NotExist then (Some (LstatFailed e), [])
                  else if \<not> skipGzip opts \<and> gzipReader h \<noteq> None then (Some (GzipError (the (gzipReader h))), [])
                  else untarLoop h opts (clock h) dir archive 0 [] []
              | LstatFound isDir \<Rightarrow>
                  if \<not> isDir then (Some NotDirectory, [])
                  else if \<not> skipGzip opts \<and> gzipReader h \<noteq> None then (Some (GzipError (the (gzipReader h))), [])
                  else untarLoop h opts (clock h) dir archive 0 [] []))"

end
