(* ===== verification/Tar_Confinement.thy ===== *)
theory Tar_Confinement
  imports Tar_Untar
begin

text \<open>
  What an extraction can touch, and how much it can write, whatever the operating system answers.
\<close>

section \<open>The effects of one entry\<close>

definition adds :: "(effect \<Rightarrow> bool) \<Rightarrow> effect list \<Rightarrow> effect list \<Rightarrow> bool" where
  "adds P log log' \<longleftrightarrow> (\<exists>es. log' = log @ es \<and> list_all P es)"

lemma adds_refl [simp]: "adds P log log"
  by (simp add: adds_def)

lemma adds_one [simp]: "adds P log (log @ [e]) \<longleftrightarrow> P e"
  by (auto simp: adds_def)

lemma adds_trans: "adds P a b \<Longrightarrow> adds P b c \<Longrightarrow> adds P a c"
  unfolding adds_def by (metis append.assoc list_all_append)

lemma adds_snoc: "adds P a b \<Longrightarrow> P e \<Longrightarrow> adds P a (b @ [e])"
  using adds_trans adds_one by blast

lemma adds_mono: "adds P a b \<Longrightarrow> (\<And>e. P e \<Longrightarrow> Q e) \<Longrightarrow> adds Q a b"
  unfolding adds_def by (metis list.pred_mono_strong)

definition makesDir :: "effect \<Rightarrow> bool" where
  "makesDir e \<longleftrightarrow> (case e of MkdirAll _ _ \<Rightarrow> True | _ \<Rightarrow> False)"

definition entry_effect :: "string \<Rightarrow> effect \<Rightarrow> bool" where
  "entry_effect p e \<longleftrightarrow> epath e = p \<or> makesDir e \<and> epath e = Dir p"

lemma if3_cases:
  "(if a then (x, l) else if b then (y, l) else if c then (z, l) else g) = r \<Longrightarrow> snd r = l \<or> r = g"
  by (auto split: if_splits)

lemma copyLoop_step:
  obtains log1 where "log1 = log \<or> log1 = log @ [WriteFile p chunk]"
    "snd (copyLoop h p ((chunk, er) # reads) w log) = log1 \<or>
     (\<exists>w1. snd (copyLoop h p ((chunk, er) # reads) w log) = snd (copyLoop h p reads w1 log1))"
proof (rule that [of "if int (length chunk) > 0 then log @ [WriteFile p chunk] else log"])
  show "snd (copyLoop h p ((chunk, er) # reads) w log) = (if int (length chunk) > 0 then log @ [WriteFile p chunk] else log) \<or>
     (\<exists>w1. snd (copyLoop h p ((chunk, er) # reads) w log) =
       snd (copyLoop h p reads w1 (if int (length chunk) > 0 then log @ [WriteFile p chunk] else log)))"
    using if3_cases [OF copyLoop.simps(2) [unfolded Let_def, symmetric], of h p chunk er reads w log] by metis
qed simp

lemma copyLoop_adds: "adds (\<lambda>e. epath e = p) log (snd (copyLoop h p reads w log))"
proof (induction reads arbitrary: w log)
  case (Cons r reads)
  obtain chunk er where r: "r = (chunk, er)" by (cases r)
  obtain log1 where l: "log1 = log \<or> log1 = log @ [WriteFile p chunk]"
    "snd (copyLoop h p (r # reads) w log) = log1 \<or> (\<exists>w1. snd (copyLoop h p (r # reads) w log) = snd (copyLoop h p reads w1 log1))"
    unfolding r by (rule copyLoop_step)
  have a: "adds (\<lambda>e. epath e = p) log log1" using l(1) by auto
  show ?case using l(2)
  proof (elim disjE exE)
    fix w1 assume "snd (copyLoop h p (r # reads) w log) = snd (copyLoop h p reads w1 log1)"
    then show ?thesis using adds_trans [OF a Cons.IH] by simp
  qed (use a in simp)
qed simp

lemma writeRegular_adds: "adds (\<lambda>e. epath e = p) log (snd (writeRegular h t0 p f log))"
proof -
  obtain n err log2 where c: "copyBuffer h p (hReads f) (Some []) (log @ [OpenFile p (hPerm f)]) = ((n, err), log2)"
    by (metis prod.exhaust)
  have "adds (\<lambda>e. epath e = p) (log @ [OpenFile p (hPerm f)]) log2"
    using copyLoop_adds [of p "log @ [OpenFile p (hPerm f)]" h "hReads f" 0] c by (simp add: copyBuffer_def)
  then have a: "adds (\<lambda>e. epath e = p) log log2"
    by (rule adds_trans [rotated]) simp
  then have "adds (\<lambda>e. epath e = p) log (log2 @ [CloseFile p])" by (rule adds_snoc) simp
  moreover from this have "adds (\<lambda>e. epath e = p) log ((log2 @ [CloseFile p]) @ [Chtimes p t])" for t
    by (rule adds_snoc) simp
  ultimately show ?thesis using a c by (simp add: writeRegular_def Let_def split: option.split)
qed

lemma extractRegular_adds: "adds (entry_effect p) log (snd (snd (extractRegular h t0 p f madeDir log)))"
proof -
  have w: "adds (entry_effect p) l (snd (writeRegular h t0 p f l))" for l
    by (rule adds_mono [OF writeRegular_adds]) (simp add: entry_effect_def)
  define log1 where "log1 = (if Dir p \<notin> set madeDir then log @ [MkdirAll (Dir p) 0x1E8] else log)"
  define log2 where "log2 = (if darwin h \<and> hPerm f AND 0x49 \<noteq> 0 then log1 @ [Remove p] else log1)"
  have a1: "adds (entry_effect p) log log1" by (simp add: log1_def entry_effect_def makesDir_def)
  have a2: "adds (entry_effect p) log log2"
    unfolding log2_def using a1 by (simp add: adds_snoc entry_effect_def)
  have "snd (snd (extractRegular h t0 p f madeDir log)) \<in> {log1, log2, snd (writeRegular h t0 p f log2)}"
    unfolding extractRegular_def Let_def log1_def [symmetric] log2_def [symmetric]
    by (simp split: option.split prod.split)
  then show ?thesis using a1 a2 adds_trans [OF a2 w] by auto
qed

lemma extractEntry_adds:
  "adds (entry_effect (JoinPath dir (hName f))) log (snd (snd (extractEntry h opts t0 dir f madeDir log)))"
  using extractRegular_adds [of "JoinPath dir (hName f)" log h t0 f madeDir]
  by (simp add: extractEntry_def Let_def entry_effect_def split: entryType.split option.split)

lemma untarLoop_adds:
  "adds (\<lambda>e. \<exists>f. Inr f \<in> set ns \<and> validRelPath (hName f) \<and> entry_effect (JoinPath dir (hName f)) e)
     log (snd (untarLoop h opts t0 dir ns processed madeDir log))"
proof (induction ns arbitrary: processed madeDir log)
  case (Cons n ns)
  let ?P = "\<lambda>e. \<exists>f. Inr f \<in> set (n # ns) \<and> validRelPath (hName f) \<and> entry_effect (JoinPath dir (hName f)) e"
  have IH: "adds ?P l (snd (untarLoop h opts t0 dir ns pr md l))" for pr md l
    by (rule adds_mono [OF Cons.IH]) auto
  show ?case
  proof (cases n)
    case (Inl e)
    then show ?thesis by simp
  next
    case (Inr f)
    obtain r md log1 where x: "extractEntry h opts t0 dir f madeDir log = (r, md, log1)" by (metis prod.exhaust)
    have "adds ?P log log1" if "validRelPath (hName f)"
      using adds_mono [OF extractEntry_adds [of dir f log h opts t0 madeDir], of ?P] that x Inr by auto
    then show ?thesis using Inr x adds_trans [OF _ IH]
      by (auto simp: Let_def split: option.split)
  qed
qed simp

section \<open>Paths of entries\<close>

lemma Join_Cons: "xs \<noteq> [] \<Longrightarrow> Join (x # xs) s = x @ s @ Join xs s"
  by (cases xs) simp_all

lemma Join_middle: "bs \<noteq> [] \<Longrightarrow> \<exists>a b. Join (as @ x # bs) s = a @ x @ s @ b"
proof (induction as)
  case Nil
  then have "Join ([] @ x # bs) s = [] @ x @ s @ Join bs s" by (simp add: Join_Cons)
  then show ?case by blast
next
  case (Cons y as)
  then obtain a b where "Join (as @ x # bs) s = a @ x @ s @ b" by blast
  then have "Join ((y # as) @ x # bs) s = (y @ s @ a) @ x @ s @ b" by (simp add: Join_Cons)
  then show ?case by blast
qed

lemma butlast_SplitChar:
  assumes "x \<in> set (butlast (SplitChar c s))"
  shows "\<exists>a b. s = a @ x @ c # b"
proof -
  obtain as cs where "butlast (SplitChar c s) = as @ x # cs" using assms by (meson split_list)
  then have "SplitChar c s = as @ x # cs @ [last (SplitChar c s)]"
    by (metis SplitChar_ne append_Cons append_assoc append_butlast_last_id)
  then show ?thesis using Join_middle [of "cs @ [last (SplitChar c s)]" as x "[c]"] Join_SplitChar [of c s] by simp
qed

lemma valid_components:
  assumes "validRelPath n" "x \<in> set (butlast (SplitChar (CHR ''/'') n))"
  shows "x \<noteq> ''..''"
proof
  assume "x = ''..''"
  then obtain a b where "n = a @ ''../'' @ b" using butlast_SplitChar [OF assms(2)] by auto
  then have "Contains n ''../''" unfolding Contains_append by blast
  then show False using assms(1) by (simp add: validRelPath_def)
qed

lemma fold_no_dotdot:
  "\<forall>x \<in> set xs. x \<noteq> ''..'' \<Longrightarrow> \<exists>ys. fold (cleanStep True) xs st = ys @ st"
proof (induction xs arbitrary: st)
  case (Cons x xs)
  have "cleanStep True x st = st \<or> cleanStep True x st = x # st" using Cons.prems by (simp add: cleanStep_def)
  then show ?case using Cons.IH [of st] Cons.IH [of "x # st"] Cons.prems by auto
qed simp

lemma JoinPath_confined:
  assumes "\<forall>c \<in> set ds. component c" "validRelPath n"
  obtains cs where "JoinPath (abs_path ds) n = abs_path cs" "\<forall>c \<in> set cs. component c"
    "prefix ds cs \<or> cs = butlast ds \<and> last (SplitChar (CHR ''/'') n) = ''..''"
proof -
  let ?xs = "SplitChar (CHR ''/'') n"
  define st where "st = fold (cleanStep True) ?xs (rev ds)"
  have n: "n \<noteq> []" using assms(2) by (auto simp: validRelPath_def)
  obtain ys where ys: "fold (cleanStep True) (butlast ?xs) (rev ds) = ys @ rev ds"
    using fold_no_dotdot [of "butlast ?xs" "rev ds"] valid_components [OF assms(2)] by blast
  have st: "st = cleanStep True (last ?xs) (ys @ rev ds)"
    unfolding st_def using ys append_butlast_last_id [of ?xs, symmetric] by (metis SplitChar_ne comp_apply fold_append fold_simps)
  have c: "\<forall>x \<in> set st. component x" unfolding st_def
    using assms(1) SplitChar_no_sep by (intro fold_cleanStep_components) auto
  have cy: "\<forall>x \<in> set (ys @ rev ds). component x" unfolding ys [symmetric]
    using assms(1) SplitChar_no_sep by (intro fold_cleanStep_components) (auto dest: in_set_butlastD)
  have "prefix ds (rev st) \<or> rev st = butlast ds \<and> last ?xs = ''..''"
  proof (cases "last ?xs = ''..''")
    case True
    then have "st = tl (ys @ rev ds)" using st cy by (cases "ys @ rev ds") (auto simp: cleanStep_def component_def)
    then show ?thesis using True by (cases ys) (simp_all add: butlast_rev [symmetric])
  next
    case False
    then have "st = ys @ rev ds \<or> st = last ?xs # ys @ rev ds" using st by (simp add: cleanStep_def)
    then show ?thesis by auto
  qed
  then show thesis using that [of "rev st"] JoinPath_abs [OF assms(1) n] c by (simp add: st_def)
qed

lemma prefix_butlast: "prefix ds cs \<Longrightarrow> prefix ds (butlast cs) \<or> cs = ds"
  by (cases cs rule: rev_cases) auto

text \<open>
  C7. Extraction is confined, whatever the archive holds and whatever the operating system answers: every path that is
  touched is the directory, lies below it, or is one of its ancestors. An ancestor is at most made as a directory,
  except that an entry whose name ends in the component \<open>..\<close> can have the parent directory itself opened as a file.
\<close>

theorem Untar_confined:
  assumes "resolveDir h dir0 = Inr (abs_path ds)" "\<forall>c \<in> set ds. component c"
    and "e \<in> set (snd (Untar h archive dir0 opts))"
  shows "\<exists>cs. epath e = abs_path cs \<and>
    (prefix ds cs \<or> prefix cs ds \<and> makesDir e \<or>
     cs = butlast ds \<and> (\<exists>f. Inr f \<in> set archive \<and> last (SplitChar (CHR ''/'') (hName f)) = ''..''))"
proof -
  have "\<exists>o'. snd (Untar h archive dir0 opts) = [] \<or>
      snd (Untar h archive dir0 opts) = snd (untarLoop h o' (clock h) (abs_path ds) archive 0 [] [])"
    using assms(1) by (auto simp: Untar_def Let_def split: lstatResult.split)
  then obtain o' where "e \<in> set (snd (untarLoop h o' (clock h) (abs_path ds) archive 0 [] []))"
    using assms(3) by auto
  then obtain f where f: "Inr f \<in> set archive" "validRelPath (hName f)" "entry_effect (JoinPath (abs_path ds) (hName f)) e"
    using untarLoop_adds [of archive "abs_path ds" "[]" h o' "clock h" 0 "[]"]
    by (auto simp: adds_def list_all_iff)
  obtain cs where cs: "JoinPath (abs_path ds) (hName f) = abs_path cs" "\<forall>c \<in> set cs. component c"
    "prefix ds cs \<or> cs = butlast ds \<and> last (SplitChar (CHR ''/'') (hName f)) = ''..''"
    using JoinPath_confined [OF assms(2) f(2)] by blast
  have "epath e = abs_path cs \<or> makesDir e \<and> epath e = abs_path (butlast cs)"
    using f(3) cs(1) Dir_abs [OF cs(2)] by (auto simp: entry_effect_def)
  then show ?thesis
  proof
    assume "epath e = abs_path cs"
    then show ?thesis using cs(3) f(1) by blast
  next
    assume m: "makesDir e \<and> epath e = abs_path (butlast cs)"
    have "prefix ds (butlast cs) \<or> prefix (butlast cs) ds"
      using cs(3) prefix_butlast [of ds cs] by (metis prefix_order.trans prefixeq_butlast)
    then show ?thesis using m by blast
  qed
qed

definition quiet_host :: host where
  "quiet_host = \<lparr>attempt = (\<lambda>_ _. None), bytesWritten = (\<lambda>_ s. int (length s)), darwin = False, Getwd = Inr ''/'',
     SecureJoin = (\<lambda>a b. Inr (JoinPath a b)), Lstat = (\<lambda>_. LstatFound True), gzipReader = None, closeReader = None, clock = 9\<rparr>"

definition file_entry :: "string \<Rightarrow> int \<Rightarrow> string \<Rightarrow> ioerr + tarEntry" where
  "file_entry n sz s = Inr \<lparr>hName = n, hSize = sz, hType = RegularType, hPerm = 420, hModTime = 5, hReads = [(s, Some EOF)]\<rparr>"

theorem Untar_confined_witness:
  "OpenFile ''/d/a/b'' 420 \<in> set (snd (Untar quiet_host [file_entry ''a/b'' 2 ''xy''] ''/d'' [])) \<and>
   (\<exists>cs. ''/d/a/b'' = abs_path cs \<and> prefix [''d''] cs)"
proof -
  let ?e = "OpenFile ''/d/a/b'' 420"
  have m: "?e \<in> set (snd (Untar quiet_host [file_entry ''a/b'' 2 ''xy''] ''/d'' []))" by code_simp
  have r: "resolveDir quiet_host ''/d'' = Inr (abs_path [''d''])" by code_simp
  have "last (SplitChar (CHR ''/'') ''a/b'') \<noteq> ''..''" by code_simp
  then show ?thesis using Untar_confined [OF r _ m] m by (auto simp: component_def makesDir_def file_entry_def)
qed

section \<open>The size limit\<close>

definition effect_bytes :: "effect \<Rightarrow> int" where
  "effect_bytes e = (case e of WriteFile _ s \<Rightarrow> int (length s) | _ \<Rightarrow> 0)"

definition bytes :: "effect list \<Rightarrow> int" where
  "bytes log = sum_list (map effect_bytes log)"

lemma bytes_simps [simp]: "bytes [] = 0" "bytes (e # log) = effect_bytes e + bytes log" "bytes (a @ b) = bytes a + bytes b"
  by (simp_all add: bytes_def)

lemma effect_bytes_simps [simp]:
  "effect_bytes (MkdirAll p n) = 0" "effect_bytes (Remove p) = 0" "effect_bytes (OpenFile p n) = 0"
  "effect_bytes (WriteFile p s) = int (length s)" "effect_bytes (CloseFile p) = 0" "effect_bytes (Chtimes p t) = 0"
  by (simp_all add: effect_bytes_def)

definition content :: "tarEntry \<Rightarrow> int" where
  "content f = sum_list (map (\<lambda>(s, _). int (length s)) (hReads f))"

lemma content_nonneg: "0 \<le> sum_list (map (\<lambda>(s, _). int (length s)) reads)"
  by (induction reads) auto

lemma copyLoop_bytes:
  "bytes (snd (copyLoop h p reads w log)) \<le> bytes log + sum_list (map (\<lambda>(s, _). int (length s)) reads)"
proof (induction reads arbitrary: w log)
  case (Cons r reads)
  obtain chunk er where r: "r = (chunk, er)" by (cases r)
  obtain log1 where l: "log1 = log \<or> log1 = log @ [WriteFile p chunk]"
    "snd (copyLoop h p (r # reads) w log) = log1 \<or> (\<exists>w1. snd (copyLoop h p (r # reads) w log) = snd (copyLoop h p reads w1 log1))"
    unfolding r by (rule copyLoop_step)
  have b: "bytes log1 \<le> bytes log + int (length chunk)" using l(1) by auto
  show ?case using l(2)
  proof (elim disjE exE)
    assume "snd (copyLoop h p (r # reads) w log) = log1"
    then show ?thesis using b r content_nonneg [of reads] by simp
  next
    fix w1 assume "snd (copyLoop h p (r # reads) w log) = snd (copyLoop h p reads w1 log1)"
    then show ?thesis using b r Cons.IH [of w1 log1] by simp
  qed
qed simp

lemma writeRegular_bytes: "bytes (snd (writeRegular h t0 p f log)) \<le> bytes log + content f"
proof -
  obtain n err log2 where c: "copyBuffer h p (hReads f) (Some []) (log @ [OpenFile p (hPerm f)]) = ((n, err), log2)"
    by (metis prod.exhaust)
  have "bytes log2 \<le> bytes log + content f"
    using copyLoop_bytes [of h p "hReads f" 0 "log @ [OpenFile p (hPerm f)]"] c by (simp add: copyBuffer_def content_def)
  then show ?thesis using c content_nonneg [of "hReads f"]
    by (simp add: writeRegular_def Let_def content_def split: option.split)
qed

lemma extractEntry_bytes: "bytes (snd (snd (extractEntry h opts t0 dir f madeDir log))) \<le> bytes log + content f"
proof -
  let ?p = "JoinPath dir (hName f)"
  have c: "0 \<le> content f" using content_nonneg by (simp add: content_def)
  define log1 where "log1 = (if Dir ?p \<notin> set madeDir then log @ [MkdirAll (Dir ?p) 0x1E8] else log)"
  define log2 where "log2 = (if darwin h \<and> hPerm f AND 0x49 \<noteq> 0 then log1 @ [Remove ?p] else log1)"
  have b: "bytes log1 = bytes log" "bytes log2 = bytes log" by (simp_all add: log1_def log2_def)
  have "snd (snd (extractRegular h t0 ?p f madeDir log)) \<in> {log1, log2, snd (writeRegular h t0 ?p f log2)}"
    unfolding extractRegular_def Let_def log1_def [symmetric] log2_def [symmetric]
    by (simp split: option.split prod.split)
  then have "bytes (snd (snd (extractRegular h t0 ?p f madeDir log))) \<le> bytes log + content f"
    using b c writeRegular_bytes [of h t0 ?p f log2] by auto
  then show ?thesis using c by (simp add: extractEntry_def Let_def split: entryType.split option.split)
qed

definition sizes :: "(ioerr + tarEntry) list \<Rightarrow> int" where
  "sizes ns = sum_list (map (\<lambda>n. case n of Inr f \<Rightarrow> hSize f | Inl _ \<Rightarrow> 0) ns)"

text \<open>What \<open>tar.Reader\<close> guarantees of an entry: the size is not negative and bounds what is read.\<close>

definition entries_ok :: "(ioerr + tarEntry) list \<Rightarrow> bool" where
  "entries_ok ns \<longleftrightarrow> (\<forall>f. Inr f \<in> set ns \<longrightarrow> 0 \<le> hSize f \<and> content f \<le> hSize f)"

lemma sizes_nonneg: "entries_ok ns \<Longrightarrow> 0 \<le> sizes ns"
  by (induction ns) (auto simp: entries_ok_def sizes_def split: sum.split)

lemma untarLoop_bytes:
  assumes "0 \<le> maxUntarSize opts"
  shows "entries_ok ns \<Longrightarrow> 0 \<le> processed \<Longrightarrow> processed + sizes ns < 2 ^ 63 \<Longrightarrow> bytes log \<le> processed \<Longrightarrow>
    processed \<le> maxUntarSize opts \<Longrightarrow>
    bytes (snd (untarLoop h opts t0 dir ns processed madeDir log)) \<le> maxUntarSize opts"
proof (induction ns arbitrary: processed madeDir log)
  case (Cons n ns)
  have ok: "entries_ok ns" using Cons.prems(1) by (auto simp: entries_ok_def)
  show ?case
  proof (cases n)
    case (Inl e)
    then show ?thesis using Cons.prems by simp
  next
    case (Inr f)
    obtain r md log1 where x: "extractEntry h opts t0 dir f madeDir log = (r, md, log1)" by (metis prod.exhaust)
    have f: "0 \<le> hSize f" "content f \<le> hSize f" using Cons.prems(1) Inr by (auto simp: entries_ok_def)
    have s: "processed + hSize f + sizes ns < 2 ^ 63" using Cons.prems(3) Inr by (simp add: sizes_def)
    then have w: "wrap64 (processed + hSize f) = processed + hSize f"
      using f Cons.prems(2) sizes_nonneg [OF ok] by (intro wrap64_id) simp_all
    have b: "bytes log1 \<le> processed + hSize f"
      using extractEntry_bytes [of h opts t0 dir f madeDir log] x f Cons.prems(4) by simp
    show ?thesis
    proof (cases "processed + hSize f \<le> maxUntarSize opts")
      case True
      then show ?thesis using Cons.IH [OF ok _ s b True, of md] Inr x w b f Cons.prems(2,4,5)
        by (auto simp: Let_def split: option.split)
    next
      case False
      then show ?thesis using Inr w assms Cons.prems(4,5) by (simp add: Let_def UnlimitedUntarSize_def)
    qed
  qed
qed simp

definition defaultTarOpts :: tarOpts where
  "defaultTarOpts = \<lparr>maxUntarSize = DefaultMaxUntarSize, skipSymlinks = False, skipGzip = False, tarFilter = None\<rparr>"



text \<open>
  Without the bound on the sum, the 64-bit counter overflows to a negative value and the limit is passed: here 4 bytes are written under a limit of 2.
\<close>

lemma Untar_limit_overflow:
  "bytes (snd (Untar quiet_host [file_entry ''a'' 1 ''x'', file_entry ''b'' (2 ^ 63 - 1) ''yyy''] ''/d'' [WithMaxUntarSize 2])) = 4"
  by code_simp

end
