(* ===== verification/Json.thy ===== *)
theory Json
  imports Complex_Main Go_Prelude
begin

text \<open>
  Values of the type \<open>any\<close> as decoded from JSON: a nil interface, booleans, \<open>int64\<close> and \<open>float64\<close> numbers,
  strings, slices and maps. The comparison of two interfaces panics when both hold a slice or both hold a map.
\<close>

datatype json =
    JNull
  | JBool bool
  | JInt int
  | JFloat rat
  | JString string
  | JArray "json list"
  | JObject "(string \<times> json) list"

type_synonym jmap = "(string, json) gomap"

definition goEqual :: "json \<Rightarrow> json \<Rightarrow> bool option" where
  "goEqual a b =
     (case (a, b) of
        (JArray _, JArray _) \<Rightarrow> None
      | (JObject _, JObject _) \<Rightarrow> None
      | _ \<Rightarrow> Some (a = b))"

definition comparable :: "json \<Rightarrow> json \<Rightarrow> bool" where
  "comparable a b \<longleftrightarrow> goEqual a b \<noteq> None"

lemma goEqual_comparable: "goEqual a b = (if comparable a b then Some (a = b) else None)"
  by (cases a; cases b) (simp_all add: goEqual_def comparable_def)

lemma comparable_String [simp]: "comparable (JString s) b" "comparable a (JString s)"
  by (auto simp: comparable_def goEqual_def split: json.split)

end
