(* ===== verification/Ssa_Object.thy ===== *)
theory Ssa_Object
  imports Resource_Order Go_Utf8 Json
begin

text \<open>
  Kubernetes objects as the \<open>ssa\<close> package sees them: what the accessors of \<open>unstructured.Unstructured\<close> return, and the
  rest of the object as content of any type. Then the helpers of \<open>ssa/utils\<close> and \<open>ssa/manager.go\<close>.
\<close>

section \<open>Objects\<close>

text \<open>A pointer is its address with the value there.\<close>

type_synonym 'a pointer = "(nat \<times> 'a) option"

record 'f ManagedFieldsEntry =
  mManager :: string
  mOperation :: string
  mAPIVersion :: string
  mTime :: "int pointer"
  mFieldsType :: string
  mFieldsV1 :: "'f pointer"
  mSubresource :: string

text \<open>\<open>uGVK\<close> is what \<open>GroupVersionKind()\<close> returns: group, version and kind.\<close>

record ('f, 'c) Unstructured =
  uAPIVersion :: string
  uKind :: string
  uGVK :: "string \<times> string \<times> string"
  uNamespace :: string
  uName :: string
  uUID :: string
  uResourceVersion :: string
  uLabels :: "(string, string) gomap"
  uAnnotations :: "(string, string) gomap"
  uManagedFields :: "'f ManagedFieldsEntry list"
  uContent :: 'c

definition UnstructuredToObjMetadata :: "('f, 'c) Unstructured \<Rightarrow> ObjMetadata" where
  "UnstructuredToObjMetadata o' = ObjMetadata (uNamespace o') (uName o') (GK (fst (uGVK o')) (snd (snd (uGVK o'))))"

definition mapEqual :: "('k, 'v) gomap \<Rightarrow> ('k, 'v) gomap \<Rightarrow> bool" where
  "mapEqual a b \<longleftrightarrow> list_all (\<lambda>k. map_of a k = map_of b k) (map fst a @ map fst b)"

lemma mapEqual_iff: "mapEqual a b \<longleftrightarrow> map_of a = map_of b"
proof
  assume e: "mapEqual a b"
  show "map_of a = map_of b"
  proof
    fix k
    show "map_of a k = map_of b k"
    proof (cases "k \<in> fst ` set a \<union> fst ` set b")
      case True
      then show ?thesis using e by (auto simp: mapEqual_def list_all_iff)
    next
      case False
      then have "map_of a k = None" "map_of b k = None" by (simp_all add: map_of_eq_None_iff)
      then show ?thesis by simp
    qed
  qed
qed (simp add: mapEqual_def list_all_iff)

section \<open>Formatting\<close>

definition FmtObjMetadata :: "ObjMetadata \<Rightarrow> string" where
  "FmtObjMetadata obj =
     Kind (GroupKind obj) @ ''/'' @ (if Namespace obj \<noteq> [] then Namespace obj @ ''/'' else []) @ Name obj"

definition FmtUnstructured :: "('f, 'c) Unstructured \<Rightarrow> string" where
  "FmtUnstructured obj = FmtObjMetadata (UnstructuredToObjMetadata obj)"

section \<open>Kinds\<close>

definition IsCRD :: "unicode \<Rightarrow> ('f, 'c) Unstructured \<Rightarrow> bool" where
  "IsCRD u o' \<longleftrightarrow> ToLower u (uKind o') = ''customresourcedefinition'' \<and> HasPrefix (uAPIVersion o') ''apiextensions.k8s.io/''"

definition IsNamespace :: "unicode \<Rightarrow> ('f, 'c) Unstructured \<Rightarrow> bool" where
  "IsNamespace u o' \<longleftrightarrow> ToLower u (uKind o') = ''namespace'' \<and> uAPIVersion o' = ''v1''"

definition IsClusterRole :: "unicode \<Rightarrow> ('f, 'c) Unstructured \<Rightarrow> bool" where
  "IsClusterRole u o' \<longleftrightarrow> ToLower u (uKind o') = ''clusterrole'' \<and> HasPrefix (uAPIVersion o') ''rbac.authorization.k8s.io/''"

definition IsClusterDefinition :: "unicode \<Rightarrow> ('f, 'c) Unstructured \<Rightarrow> bool" where
  "IsClusterDefinition u o' \<longleftrightarrow> IsCRD u o' \<or> IsNamespace u o' \<or> IsClusterRole u o'"

definition IsClassDefinition :: "('f, 'c) Unstructured \<Rightarrow> bool" where
  "IsClassDefinition o' \<longleftrightarrow> HasSuffix (uKind o') ''Class''"

definition IsCustomStage :: "('f, 'c) Unstructured \<Rightarrow> GroupKind list \<Rightarrow> bool" where
  "IsCustomStage o' kinds \<longleftrightarrow> GK (fst (uGVK o')) (snd (snd (uGVK o'))) \<in> set kinds"

definition IsKubernetesObject :: "('f, 'c) Unstructured \<Rightarrow> bool" where
  "IsKubernetesObject o' = (if uName o' = [] \<or> uKind o' = [] \<or> uAPIVersion o' = [] then False else True)"

definition IsKustomization :: "unicode \<Rightarrow> ('f, 'c) Unstructured \<Rightarrow> bool" where
  "IsKustomization u o' \<longleftrightarrow> ToLower u (uKind o') = ''kustomization'' \<and> HasPrefix (uAPIVersion o') ''kustomize.config.k8s.io/''"

definition IsSecret :: "unicode \<Rightarrow> ('f, 'c) Unstructured \<Rightarrow> bool" where
  "IsSecret u o' \<longleftrightarrow> ToLower u (uKind o') = ''secret'' \<and> uAPIVersion o' = ''v1''"

section \<open>Metadata\<close>

text \<open>\<open>strings.EqualFold\<close>, with the representative of each class of runes that differ in case only as a parameter.\<close>

definition EqualFold :: "(nat \<Rightarrow> nat) \<Rightarrow> string \<Rightarrow> string \<Rightarrow> bool" where
  "EqualFold fld s t \<longleftrightarrow> map fld (runes s) = map fld (runes t)"

definition lookupString :: "(string, string) gomap \<Rightarrow> string \<Rightarrow> string" where
  "lookupString m k = (case map_of m k of Some v \<Rightarrow> v | None \<Rightarrow> [])"

definition AnyInMetadata :: "(nat \<Rightarrow> nat) \<Rightarrow> ('f, 'c) Unstructured \<Rightarrow> (string, string) gomap \<Rightarrow> bool" where
  "AnyInMetadata fld o' metadata \<longleftrightarrow> list_ex (\<lambda>(k, v).
     lookupString (uLabels o') k \<noteq> [] \<and> EqualFold fld (lookupString (uLabels o') k) v \<or>
     lookupString (uAnnotations o') k \<noteq> [] \<and> EqualFold fld (lookupString (uAnnotations o') k) v) metadata"

definition updateAll :: "('k, 'v) gomap \<Rightarrow> ('k, 'v) gomap \<Rightarrow> ('k, 'v) gomap" where
  "updateAll new m = fold (\<lambda>(k, v). AList.update k v) new m"

definition SetCommonMetadata ::
  "(string, string) gomap \<Rightarrow> (string, string) gomap \<Rightarrow> ('f, 'c) Unstructured list \<Rightarrow> ('f, 'c) Unstructured list" where
  "SetCommonMetadata labels annotations objects =
     map (\<lambda>ob.
       let lbs = updateAll labels (uLabels ob);
           ob1 = (if length lbs > 0 then ob\<lparr>uLabels := lbs\<rparr> else ob);
           ans = updateAll annotations (uAnnotations ob1)
       in if length ans > 0 then ob1\<lparr>uAnnotations := ans\<rparr> else ob1) objects"

section \<open>Resource manager\<close>

record Owner =
  Field :: string
  OGroup :: string

definition SetOwnerLabels :: "Owner \<Rightarrow> string \<Rightarrow> string \<Rightarrow> ('f, 'c) Unstructured list \<Rightarrow> ('f, 'c) Unstructured list" where
  "SetOwnerLabels ow name ns objects =
     map (\<lambda>ob. ob\<lparr>uLabels := AList.update (OGroup ow @ ''/namespace'') ns (AList.update (OGroup ow @ ''/name'') name (uLabels ob))\<rparr>)
       objects"

definition GetOwnerLabels :: "Owner \<Rightarrow> string \<Rightarrow> string \<Rightarrow> (string, string) gomap" where
  "GetOwnerLabels ow name ns = [(OGroup ow @ ''/name'', name), (OGroup ow @ ''/namespace'', ns)]"

definition changeSetEntry :: "('f, 'c) Unstructured \<Rightarrow> Action \<Rightarrow> ChangeSetEntry" where
  "changeSetEntry o' action =
     \<lparr>EObjMetadata = UnstructuredToObjMetadata o', GroupVersion = fst (snd (uGVK o')),
      Subject = FmtUnstructured o', EAction = action\<rparr>"

text \<open>\<open>sort.Sort(SortableUnstructureds(objects))\<close> and its reverse.\<close>

definition objectLess :: "('f, 'c) Unstructured \<Rightarrow> ('f, 'c) Unstructured \<Rightarrow> bool" where
  "objectLess a b = metaLess (UnstructuredToObjMetadata a) (UnstructuredToObjMetadata b)"

interpretation objects: less_order objectLess
  unfolding objectLess_def by unfold_locales (auto dest: metas.asym metas.neg_trans)

lemma less_order_converse: "less_order lt \<Longrightarrow> less_order (\<lambda>a b. lt b a)"
  unfolding less_order_def by blast

lemma changeSetEntry_simps [simp]:
  "EObjMetadata (changeSetEntry o' a) = UnstructuredToObjMetadata o'" "EAction (changeSetEntry o' a) = a"
  by (simp_all add: changeSetEntry_def)

end
