(* ===== verification/Ssa_Patch.thy ===== *)
theory Ssa_Patch
  imports Ssa_Object
begin

text \<open>
  The JSON patches of \<open>ssa/patch.go\<close> that rewrite the managed fields, annotations and labels of an object. Field sets
  are those of the \<open>fieldpath\<close> package, which is a parameter. Structs are compared with their pointers by address; a pointer carries its
  address, so this is equality, and the result of a merge is at a fresh address.
\<close>

section \<open>Patches\<close>

record 'f JSONPatch =
  pOperation :: string
  pPath :: string
  pValue :: "'f ManagedFieldsEntry list"

definition managedFieldsPath :: string where "managedFieldsPath = ''/metadata/managedFields''"

definition ApplyOperation :: string where "ApplyOperation = ''Apply''"

definition NewPatchRemove :: "string \<Rightarrow> 'f JSONPatch" where
  "NewPatchRemove path = \<lparr>pOperation = ''remove'', pPath = path, pValue = []\<rparr>"

definition NewPatchReplace :: "string \<Rightarrow> 'f ManagedFieldsEntry list \<Rightarrow> 'f JSONPatch" where
  "NewPatchReplace path value = \<lparr>pOperation = ''replace'', pPath = path, pValue = value\<rparr>"

record FieldManager =
  fmName :: string
  ExactMatch :: bool
  OperationType :: string

definition matchFieldManager :: "'f ManagedFieldsEntry \<Rightarrow> FieldManager \<Rightarrow> bool" where
  "matchFieldManager entry manager =
     (if mOperation entry \<noteq> OperationType manager \<or> mSubresource entry \<noteq> [] then False
      else if ExactMatch manager then mManager entry = fmName manager
      else HasPrefix (mManager entry) (fmName manager))"

definition emptyEntry :: "'f ManagedFieldsEntry" where
  "emptyEntry = \<lparr>mManager = [], mOperation = [], mAPIVersion = [], mTime = None, mFieldsType = [], mFieldsV1 = None,
     mSubresource = []\<rparr>"

definition PatchRemoveFieldsManagers :: "('f, 'c) Unstructured \<Rightarrow> FieldManager list \<Rightarrow> 'f JSONPatch list" where
  "PatchRemoveFieldsManagers ob managers =
     (let objEntries = uManagedFields ob;
          entries = filter (\<lambda>entry. \<not> list_ex (matchFieldManager entry) managers) objEntries
      in if length entries = length objEntries then []
         else [NewPatchReplace managedFieldsPath (if length entries = 0 then [emptyEntry] else entries)])"

section \<open>Merging field sets\<close>

record ('f, 's) fieldset_lib =
  FromJSON :: "'f \<Rightarrow> string + 's"
  SetUnion :: "'s \<Rightarrow> 's \<Rightarrow> 's"
  ToJSON :: "'s \<Rightarrow> string + 'f"

definition mergeManagedFieldsV1 ::
  "('f, 's) fieldset_lib \<Rightarrow> nat \<Rightarrow> 'f pointer \<Rightarrow> 'f pointer \<Rightarrow> string + 'f pointer" where
  "mergeManagedFieldsV1 lib fresh prevField newField =
     (case (prevField, newField) of
        (None, None) \<Rightarrow> Inr None
      | (None, _) \<Rightarrow> Inr newField
      | (_, None) \<Rightarrow> Inr prevField
      | (Some (_, p), Some (_, n)) \<Rightarrow>
          (case FromJSON lib p of
             Inl e \<Rightarrow> Inl e
           | Inr prevSet \<Rightarrow>
               (case FromJSON lib n of
                  Inl e \<Rightarrow> Inl e
                | Inr newSet \<Rightarrow>
                    (case ToJSON lib (SetUnion lib prevSet newSet) of
                       Inl e \<Rightarrow> Inl (''unable to convert managed set to field: '' @ e)
                     | Inr f \<Rightarrow> Inr (Some (fresh, f))))))"

fun replaceLoop ::
  "('f, 's) fieldset_lib \<Rightarrow> FieldManager list \<Rightarrow> string \<Rightarrow> nat \<Rightarrow> 'f ManagedFieldsEntry list \<Rightarrow>
     'f ManagedFieldsEntry \<Rightarrow> 'f ManagedFieldsEntry list \<Rightarrow> bool \<Rightarrow>
     string + 'f ManagedFieldsEntry \<times> 'f ManagedFieldsEntry list \<times> bool" where
  "replaceLoop lib managers name fresh [] prev entries edited = Inr (prev, entries, edited)"
| "replaceLoop lib managers name fresh (entry # es) prev entries edited =
     (if entry = prev then replaceLoop lib managers name fresh es prev entries edited
      else if list_ex (matchFieldManager entry) managers then
        (if prev = emptyEntry then
           replaceLoop lib managers name fresh es (entry\<lparr>mManager := name, mOperation := ApplyOperation\<rparr>) entries True
         else
           (case mergeManagedFieldsV1 lib fresh (mFieldsV1 prev) (mFieldsV1 entry) of
              Inl e \<Rightarrow> Inl (''unable to merge managed fields: '' @ [CHR 0x27] @ e @ [CHR 0x27])
            | Inr merged \<Rightarrow> replaceLoop lib managers name (Suc fresh) es (prev\<lparr>mFieldsV1 := merged\<rparr>) entries True))
      else replaceLoop lib managers name fresh es prev (entries @ [entry]) edited)"

definition previousEntry :: "string \<Rightarrow> 'f ManagedFieldsEntry list \<Rightarrow> 'f ManagedFieldsEntry" where
  "previousEntry name es =
     fold (\<lambda>entry prev. if mManager entry = name \<and> mOperation entry = ApplyOperation then entry else prev) es emptyEntry"

definition addresses :: "'f ManagedFieldsEntry list \<Rightarrow> nat list" where
  "addresses es = concat (map (\<lambda>e. case mFieldsV1 e of Some (a, _) \<Rightarrow> [a] | None \<Rightarrow> []) es)"

definition PatchReplaceFieldsManagers ::
  "('f, 's) fieldset_lib \<Rightarrow> ('f, 'c) Unstructured \<Rightarrow> FieldManager list \<Rightarrow> string \<Rightarrow> string + 'f JSONPatch list" where
  "PatchReplaceFieldsManagers lib ob managers name =
     (let objEntries = uManagedFields ob in
      case replaceLoop lib managers name (Suc (fold max (addresses objEntries) 0)) objEntries
             (previousEntry name objEntries) [] False of
        Inl e \<Rightarrow> Inl e
      | Inr (prev, entries, edited) \<Rightarrow>
          if \<not> edited then Inr [] else Inr [NewPatchReplace managedFieldsPath (entries @ [prev])])"

section \<open>Versions, annotations and labels\<close>

definition PatchMigrateToVersion :: "('f, 'c) Unstructured \<Rightarrow> string \<Rightarrow> string + 'f JSONPatch list" where
  "PatchMigrateToVersion ob apiVersion =
     (let objEntries = uManagedFields ob in
      if length objEntries = 0 then Inr []
      else
        let (entries, changed) = fold (\<lambda>entry (entries, changed).
              if mAPIVersion entry \<noteq> apiVersion then (entries @ [entry\<lparr>mAPIVersion := apiVersion\<rparr>], True)
              else (entries @ [entry], changed)) objEntries ([], False)
        in if \<not> changed then Inr [] else Inr [NewPatchReplace managedFieldsPath entries])"

definition escapeSlash :: "string \<Rightarrow> string" where
  "escapeSlash key = concat (map (\<lambda>c. if c = CHR ''/'' then ''~1'' else [c]) key)"

definition PatchRemoveAnnotations :: "('f, 'c) Unstructured \<Rightarrow> string list \<Rightarrow> 'f JSONPatch list" where
  "PatchRemoveAnnotations ob keys =
     map (\<lambda>key. NewPatchRemove (''/metadata/annotations/'' @ escapeSlash key))
       (filter (\<lambda>key. map_of (uAnnotations ob) key \<noteq> None) keys)"

definition PatchRemoveLabels :: "('f, 'c) Unstructured \<Rightarrow> string list \<Rightarrow> 'f JSONPatch list" where
  "PatchRemoveLabels ob keys =
     map (\<lambda>key. NewPatchRemove (''/metadata/labels/'' @ escapeSlash key))
       (filter (\<lambda>key. map_of (uLabels ob) key \<noteq> None) keys)"

section \<open>Ownership\<close>

text \<open>What the \<open>fieldpath\<close> package documents, with the paths of a set: the union has the paths of both, and encoding keeps them.\<close>

definition fieldset_laws :: "('f, 's) fieldset_lib \<Rightarrow> ('s \<Rightarrow> 'p set) \<Rightarrow> bool" where
  "fieldset_laws lib paths \<longleftrightarrow> (\<forall>a b. paths (SetUnion lib a b) = paths a \<union> paths b) \<and>
     (\<forall>s f. ToJSON lib s = Inr f \<longrightarrow> (\<exists>s'. FromJSON lib f = Inr s' \<and> paths s' = paths s))"

definition pointerPaths :: "('f, 's) fieldset_lib \<Rightarrow> ('s \<Rightarrow> 'p set) \<Rightarrow> 'f pointer \<Rightarrow> 'p set" where
  "pointerPaths lib paths p =
     (case p of None \<Rightarrow> {} | Some (_, f) \<Rightarrow> (case FromJSON lib f of Inl _ \<Rightarrow> {} | Inr s \<Rightarrow> paths s))"

abbreviation ownedPaths :: "('f, 's) fieldset_lib \<Rightarrow> ('s \<Rightarrow> 'p set) \<Rightarrow> 'f ManagedFieldsEntry \<Rightarrow> 'p set" where
  "ownedPaths lib paths e \<equiv> pointerPaths lib paths (mFieldsV1 e)"

lemma merge_paths:
  assumes "fieldset_laws lib paths" "mergeManagedFieldsV1 lib fresh p n = Inr m"
  shows "pointerPaths lib paths m = pointerPaths lib paths p \<union> pointerPaths lib paths n"
proof (cases "p = None \<or> n = None")
  case True
  then show ?thesis using assms(2) by (auto simp: mergeManagedFieldsV1_def pointerPaths_def split: option.splits)
next
  case False
  then obtain a f b g where pn: "p = Some (a, f)" "n = Some (b, g)" by auto
  obtain s t r where "FromJSON lib f = Inr s" "FromJSON lib g = Inr t" "ToJSON lib (SetUnion lib s t) = Inr r" "m = Some (fresh, r)"
    using assms(2) pn by (auto simp: mergeManagedFieldsV1_def split: sum.splits)
  moreover from this(3) obtain s' where "FromJSON lib r = Inr s'" "paths s' = paths (SetUnion lib s t)"
    using assms(1) unfolding fieldset_laws_def by blast
  ultimately show ?thesis using assms(1) pn by (simp add: pointerPaths_def fieldset_laws_def)
qed

definition owner_entry :: "string \<Rightarrow> 'f ManagedFieldsEntry \<Rightarrow> bool" where
  "owner_entry name e \<longleftrightarrow> mManager e = name \<and> mOperation e = ApplyOperation"

lemma previousEntry_owner:
  "previousEntry name es = emptyEntry \<or> owner_entry name (previousEntry name es) \<and> previousEntry name es \<in> set es"
proof -
  define f where "f = (\<lambda>(entry::'a ManagedFieldsEntry) prev. if mManager entry = name \<and> mOperation entry = ApplyOperation then entry else prev)"
  have f: "f e p = p \<or> f e p = e \<and> owner_entry name e" for e p by (simp add: f_def owner_entry_def)
  have "fold f es p = p \<or> owner_entry name (fold f es p) \<and> fold f es p \<in> set es" for p
  proof (induction es arbitrary: p)
    case (Cons e es)
    show ?case using Cons.IH [of "f e p"] f [of e p] by auto
  qed simp
  then show ?thesis by (simp add: previousEntry_def f_def)
qed

lemma replaceLoop_owner:
  "replaceLoop lib managers name fresh es prev entries edited = Inr (prev', entries', edited') \<Longrightarrow>
    prev = emptyEntry \<or> owner_entry name prev \<Longrightarrow> edited \<longrightarrow> owner_entry name prev \<Longrightarrow>
    (prev' = emptyEntry \<or> owner_entry name prev') \<and> (edited' \<longrightarrow> owner_entry name prev')"
  by (induction es arbitrary: fresh prev entries edited) (auto simp: owner_entry_def split: if_splits sum.splits)

lemma replaceLoop_kept:
  "replaceLoop lib managers name fresh es prev entries edited = Inr (prev', entries', edited') \<Longrightarrow>
    \<exists>kept. entries' = entries @ kept \<and> set kept \<subseteq> {e \<in> set es. \<not> list_ex (matchFieldManager e) managers}"
  by (induction es arbitrary: fresh prev entries edited) (fastforce split: if_splits sum.splits)+

lemma replaceLoop_grows:
  assumes "fieldset_laws lib paths"
  shows "replaceLoop lib managers name fresh es prev entries edited = Inr (prev', entries', edited') \<Longrightarrow>
    ownedPaths lib paths prev \<subseteq> ownedPaths lib paths prev'"
proof (induction es arbitrary: fresh prev entries edited)
  case (Cons entry es)
  have empty: "ownedPaths lib paths emptyEntry = {}" by (simp add: pointerPaths_def emptyEntry_def)
  show ?case
    using Cons.prems Cons.IH empty merge_paths [OF assms]
    by (fastforce split: if_splits sum.splits)
qed simp

lemma replaceLoop_covers:
  assumes "fieldset_laws lib paths"
  shows "replaceLoop lib managers name fresh es prev entries edited = Inr (prev', entries', edited') \<Longrightarrow>
    e \<in> set es \<Longrightarrow> e \<in> set entries' \<or> ownedPaths lib paths e \<subseteq> ownedPaths lib paths prev'"
proof (induction es arbitrary: fresh prev entries edited)
  case (Cons entry es)
  note grows = replaceLoop_grows [OF assms]
  consider "e \<in> set es" | "e = entry" using Cons.prems(2) by auto
  then show ?case
  proof cases
    case 1
    then show ?thesis using Cons.prems(1) Cons.IH by (auto split: if_splits sum.splits)
  next
    case 2
    consider "entry = prev" | "entry \<noteq> prev" "\<not> list_ex (matchFieldManager entry) managers"
      | "entry \<noteq> prev" "list_ex (matchFieldManager entry) managers" "prev = emptyEntry"
      | "entry \<noteq> prev" "list_ex (matchFieldManager entry) managers" "prev \<noteq> emptyEntry" by blast
    then show ?thesis
    proof cases
      case 1
      then show ?thesis using Cons.prems(1) 2 grows by simp
    next
      case n: 2
      then show ?thesis using Cons.prems(1) 2 by (auto dest: replaceLoop_kept)
    next
      case 3
      then show ?thesis using Cons.prems(1) 2 by (auto dest!: grows)
    next
      case 4
      then obtain m where m: "mergeManagedFieldsV1 lib fresh (mFieldsV1 prev) (mFieldsV1 entry) = Inr m"
        and "replaceLoop lib managers name (Suc fresh) es (prev\<lparr>mFieldsV1 := m\<rparr>) entries True = Inr (prev', entries', edited')"
        using Cons.prems(1) by (auto split: sum.splits)
      from grows [OF this(2)] show ?thesis using 2 merge_paths [OF assms m] by auto
    qed
  qed
qed simp

lemma replaceLoop_only:
  assumes "fieldset_laws lib paths"
  shows "replaceLoop lib managers name fresh es prev entries edited = Inr (prev', entries', edited') \<Longrightarrow>
    ownedPaths lib paths prev' \<subseteq> ownedPaths lib paths prev \<union>
      (\<Union>e \<in> {e \<in> set es. list_ex (matchFieldManager e) managers}. ownedPaths lib paths e)"
proof (induction es arbitrary: fresh prev entries edited)
  case (Cons entry es)
  have "replaceLoop lib managers name f es p es' ed = Inr (prev', entries', edited') \<Longrightarrow>
      ownedPaths lib paths p \<subseteq> ownedPaths lib paths prev \<union>
        (\<Union>e \<in> {e \<in> set (entry # es). list_ex (matchFieldManager e) managers}. ownedPaths lib paths e) \<Longrightarrow>
      ?case" for f p es' ed
    using Cons.IH [of f p es' ed] by fastforce
  note step = this
  consider "entry = prev \<or> \<not> list_ex (matchFieldManager entry) managers"
    | "entry \<noteq> prev" "list_ex (matchFieldManager entry) managers" "prev = emptyEntry"
    | "entry \<noteq> prev" "list_ex (matchFieldManager entry) managers" "prev \<noteq> emptyEntry" by blast
  then show ?case
  proof cases
    case 1
    then show ?thesis using Cons.prems step [of fresh prev] by (auto split: if_splits)
  next
    case 2
    then show ?thesis
      using Cons.prems step [of fresh "entry\<lparr>mManager := name, mOperation := ApplyOperation\<rparr>" entries True] by auto
  next
    case 3
    then obtain m where m: "mergeManagedFieldsV1 lib fresh (mFieldsV1 prev) (mFieldsV1 entry) = Inr m"
      and r: "replaceLoop lib managers name (Suc fresh) es (prev\<lparr>mFieldsV1 := m\<rparr>) entries True = Inr (prev', entries', edited')"
      using Cons.prems by (auto split: sum.splits)
    show ?thesis by (rule step [OF r]) (use merge_paths [OF assms m] 3(2) in auto)
  qed
qed simp

text \<open>C10. When \<open>PatchReplaceFieldsManagers\<close> emits a patch, the list it writes is some untouched entries of the object, none of them
  of a replaced manager, followed by an \<open>Apply\<close> entry of the new owner. No path is lost: every entry of the object is in
  the new list or has all its paths in the owner's entry. And none is invented: each path of the owner's entry was the owner's before
  or a replaced manager's.\<close>

theorem PatchReplaceFieldsManagers_ownership:
  assumes "fieldset_laws lib paths" "PatchReplaceFieldsManagers lib ob managers name = Inr [patch]"
  shows "\<exists>kept owner. pValue patch = kept @ [owner] \<and> owner_entry name owner \<and>
    set kept \<subseteq> {e \<in> set (uManagedFields ob). \<not> list_ex (matchFieldManager e) managers} \<and>
    (\<forall>e \<in> set (uManagedFields ob). e \<in> set kept \<or> ownedPaths lib paths e \<subseteq> ownedPaths lib paths owner) \<and>
    ownedPaths lib paths owner \<subseteq> (\<Union>e \<in> {e \<in> set (uManagedFields ob). owner_entry name e \<or>
      list_ex (matchFieldManager e) managers}. ownedPaths lib paths e)"
proof -
  let ?prev = "previousEntry name (uManagedFields ob)"
  obtain prev entries where
    loop: "replaceLoop lib managers name (Suc (fold max (addresses (uManagedFields ob)) 0)) (uManagedFields ob) ?prev [] False =
      Inr (prev, entries, True)" and patch: "pValue patch = entries @ [prev]"
    using assms(2) by (auto simp: PatchReplaceFieldsManagers_def Let_def NewPatchReplace_def split: sum.splits if_splits)
  have owner: "owner_entry name prev" using replaceLoop_owner [OF loop] previousEntry_owner [of name "uManagedFields ob"] by auto
  have kept: "set entries \<subseteq> {e \<in> set (uManagedFields ob). \<not> list_ex (matchFieldManager e) managers}"
    using replaceLoop_kept [OF loop] by simp
  have empty: "ownedPaths lib paths emptyEntry = {}" by (simp add: pointerPaths_def emptyEntry_def)
  have only: "ownedPaths lib paths prev \<subseteq> (\<Union>e \<in> {e \<in> set (uManagedFields ob). owner_entry name e \<or>
      list_ex (matchFieldManager e) managers}. ownedPaths lib paths e)"
    using replaceLoop_only [OF assms(1) loop] previousEntry_owner [of name "uManagedFields ob"] empty by fastforce
  show ?thesis using patch owner kept only replaceLoop_covers [OF assms(1) loop] by blast
qed

text \<open>Field sets as lists of path numbers, encoded as they are.\<close>

definition list_sets :: "(nat list, nat list) fieldset_lib" where
  "list_sets = \<lparr>FromJSON = Inr, SetUnion = (@), ToJSON = Inr\<rparr>"

lemma list_sets_laws: "fieldset_laws list_sets set"
  by (simp add: fieldset_laws_def list_sets_def)

definition sampleEntry :: "string \<Rightarrow> string \<Rightarrow> nat \<Rightarrow> nat list \<Rightarrow> nat list ManagedFieldsEntry" where
  "sampleEntry manager op address owned =
     \<lparr>mManager = manager, mOperation = op, mAPIVersion = ''v1'', mTime = None, mFieldsType = ''FieldsV1'', mFieldsV1 = Some (address, owned),
      mSubresource = []\<rparr>"

definition sampleObject :: "nat list ManagedFieldsEntry list \<Rightarrow> (nat list, unit) Unstructured" where
  "sampleObject es =
     \<lparr>uAPIVersion = ''v1'', uKind = ''ConfigMap'', uGVK = ([], ''v1'', ''ConfigMap''), uNamespace = ''default'', uName = ''cm'', uUID = ''u'',
      uResourceVersion = ''1'', uLabels = [], uAnnotations = [], uManagedFields = es, uContent = ()\<rparr>"

definition kubectlManager :: FieldManager where
  "kubectlManager = \<lparr>fmName = ''kubectl'', ExactMatch = False, OperationType = ''Update''\<rparr>"

lemma list_sets_replace:
  "PatchReplaceFieldsManagers list_sets
     (sampleObject [sampleEntry ''flux'' ''Apply'' 1 [1, 2], sampleEntry ''kubectl-edit'' ''Update'' 2 [3], sampleEntry ''hpa'' ''Update'' 3 [4]])
     [kubectlManager] ''flux'' =
   Inr [NewPatchReplace managedFieldsPath [sampleEntry ''hpa'' ''Update'' 3 [4], sampleEntry ''flux'' ''Apply'' 4 [1, 2, 3]]]"
  by code_simp

theorem PatchReplaceFieldsManagers_ownership_witness:
  "\<exists>kept owner. pValue (NewPatchReplace managedFieldsPath
      [sampleEntry ''hpa'' ''Update'' 3 [4], sampleEntry ''flux'' ''Apply'' 4 [1, 2, 3]]) = kept @ [owner] \<and> owner_entry ''flux'' owner"
  using PatchReplaceFieldsManagers_ownership [OF list_sets_laws list_sets_replace] by blast

text \<open>The entry saved as the owner's is recognised by comparing structs. Once a merge has given it a new \<open>FieldsV1\<close> pointer the owner's
  own entry no longer compares equal, so an owner's entry that stands after a replaced one is written twice.\<close>
lemma PatchReplaceFieldsManagers_duplicate_owner:
  "PatchReplaceFieldsManagers list_sets
     (sampleObject [sampleEntry ''kubectl-edit'' ''Update'' 2 [3], sampleEntry ''flux'' ''Apply'' 1 [1, 2]])
     [kubectlManager] ''flux'' =
   Inr [NewPatchReplace managedFieldsPath [sampleEntry ''flux'' ''Apply'' 1 [1, 2], sampleEntry ''flux'' ''Apply'' 3 [1, 2, 3]]]"
  by code_simp

section \<open>Removing managers and migrating versions\<close>

lemma migrate_fold:
  "fold (\<lambda>entry (entries, changed).
      if mAPIVersion entry \<noteq> v then (entries @ [entry\<lparr>mAPIVersion := v\<rparr>], True) else (entries @ [entry], changed)) es (acc, b) =
   (acc @ map (mAPIVersion_update (\<lambda>_. v)) es, b \<or> list_ex (\<lambda>e. mAPIVersion e \<noteq> v) es)"
proof (induction es arbitrary: acc b)
  case (Cons e es)
  have "e\<lparr>mAPIVersion := v\<rparr> = e" if "mAPIVersion e = v" using that by (cases e) simp
  then show ?case using Cons.IH by simp
qed simp

lemma PatchMigrateToVersion_eq:
  "PatchMigrateToVersion ob v =
     (if list_all (\<lambda>e. mAPIVersion e = v) (uManagedFields ob) then Inr []
      else Inr [NewPatchReplace managedFieldsPath (map (mAPIVersion_update (\<lambda>_. v)) (uManagedFields ob))])"
  by (auto simp: PatchMigrateToVersion_def Let_def migrate_fold list_ex_iff list_all_iff)

lemma PatchMigrateToVersion_once:
  "PatchMigrateToVersion (ob\<lparr>uManagedFields := map (mAPIVersion_update (\<lambda>_. v)) (uManagedFields ob)\<rparr>) v = Inr []"
  by (simp add: PatchMigrateToVersion_eq list_all_iff)

lemma PatchRemoveFieldsManagers_eq:
  "PatchRemoveFieldsManagers ob managers =
     (let kept = filter (\<lambda>e. \<not> list_ex (matchFieldManager e) managers) (uManagedFields ob) in
      if kept = uManagedFields ob then []
      else [NewPatchReplace managedFieldsPath (if kept = [] then [emptyEntry] else kept)])"
proof -
  have "length (filter P xs) = length xs \<longleftrightarrow> filter P xs = xs" for P and xs :: "'a ManagedFieldsEntry list"
    by (metis filter_id_conv length_filter_less nat_neq_iff)
  then show ?thesis by (simp add: PatchRemoveFieldsManagers_def Let_def)
qed

lemma escapeSlash_no_slash: "CHR ''/'' \<notin> set (escapeSlash key)"
  by (auto simp: escapeSlash_def split: if_splits)

end
