(* ===== verification/Ssa_Drift.thy ===== *)
theory Ssa_Drift
  imports Ssa_Patch
begin

text \<open>
  Ignore rules and drift: the selectors of \<open>ssa/jsondiff/selector.go\<close>, the compiled rules of \<open>ssa/jsondiff/unstructured.go\<close>,
  the patches of \<open>ssa/jsondiff/patch.go\<close>, and what \<open>ssa/manager_apply.go\<close> does with the ignored fields of an
  object. Field ownership is read from \<open>fieldsV1\<close>, the JSON document in which an API server keeps a manager's fields. The
  regular expressions, label selectors, JSON pointers, JSON decoding, patching and deep equality the code calls are parameters, and so is the order
  of a loop over a map. A panic is \<open>None\<close>.
\<close>

section \<open>The libraries\<close>

type_synonym 'c object = "(string, 'c) Unstructured"

datatype PatchOp = RemoveOp string | ReplaceOp string json

record ('r, 'l, 'p, 'c) drift_lib =
  RegexpCompile :: "string \<Rightarrow> string + 'r"
  MatchString :: "'r \<Rightarrow> string \<Rightarrow> bool"
  LabelsParse :: "string \<Rightarrow> string + 'l"
  LabelsMatches :: "'l \<Rightarrow> (string, string) gomap \<Rightarrow> bool"
  PointerNew :: "string \<Rightarrow> string + 'p"
  PointerGet :: "'p \<Rightarrow> 'c object \<Rightarrow> string + json"
  NestedSlice :: "'c object \<Rightarrow> string list \<Rightarrow> json list option"
  Unmarshal :: "string \<Rightarrow> string + jmap"
  DeepEqual :: "json \<Rightarrow> json \<Rightarrow> bool"
  PatchJSON :: "'c object \<Rightarrow> PatchOp list \<Rightarrow> string + 'c object"
  RangeKeys :: "string list \<Rightarrow> string list"

section \<open>Selectors\<close>

record Selector =
  selGroup :: string
  selVersion :: string
  selKind :: string
  selName :: string
  selNamespace :: string
  selAnnotation :: string
  selLabel :: string

record ('r, 'l) SelectorRegex =
  selector :: Selector
  groupRegex :: 'r
  versionRegex :: 'r
  kindRegex :: 'r
  nameRegex :: 'r
  namespaceRegex :: 'r
  labelSelector :: "'l option"
  annotationSelector :: "'l option"

definition anchorRegex :: "string \<Rightarrow> string" where
  "anchorRegex pattern = (if pattern = [] then pattern else ''^(?:'' @ pattern @ '')$'')"

definition errorf :: "string \<Rightarrow> string + 'a \<Rightarrow> string + 'a" where
  "errorf msg r = (case r of Inl e \<Rightarrow> Inl (msg @ '': '' @ e) | Inr x \<Rightarrow> Inr x)"

definition bindE :: "'e + 'a \<Rightarrow> ('a \<Rightarrow> 'e + 'b) \<Rightarrow> 'e + 'b" where
  "bindE r f = (case r of Inl e \<Rightarrow> Inl e | Inr x \<Rightarrow> f x)"

definition parseOptional :: "('r, 'l, 'p, 'c) drift_lib \<Rightarrow> string \<Rightarrow> string + 'l option" where
  "parseOptional lib s =
     (if s \<noteq> [] then (case LabelsParse lib s of Inl e \<Rightarrow> Inl e | Inr l \<Rightarrow> Inr (Some l)) else Inr None)"

definition NewSelectorRegex ::
  "('r, 'l, 'p, 'c) drift_lib \<Rightarrow> Selector option \<Rightarrow> string + ('r, 'l) SelectorRegex option" where
  "NewSelectorRegex lib sel =
     (case sel of
        None \<Rightarrow> Inr None
      | Some s \<Rightarrow>
          bindE (errorf ''invalid group regex'' (RegexpCompile lib (anchorRegex (selGroup s)))) (\<lambda>g.
          bindE (errorf ''invalid version regex'' (RegexpCompile lib (anchorRegex (selVersion s)))) (\<lambda>v.
          bindE (errorf ''invalid kind regex'' (RegexpCompile lib (anchorRegex (selKind s)))) (\<lambda>k.
          bindE (errorf ''invalid name regex'' (RegexpCompile lib (anchorRegex (selName s)))) (\<lambda>n.
          bindE (errorf ''invalid namespace regex'' (RegexpCompile lib (anchorRegex (selNamespace s)))) (\<lambda>ns.
          bindE (errorf ''invalid label selector'' (parseOptional lib (selLabel s))) (\<lambda>l.
          bindE (errorf ''invalid annotation selector'' (parseOptional lib (selAnnotation s))) (\<lambda>a.
            Inr (Some \<lparr>selector = s, groupRegex = g, versionRegex = v, kindRegex = k, nameRegex = n, namespaceRegex = ns,
              labelSelector = l, annotationSelector = a\<rparr>)))))))))"

definition MatchGVK :: "('r, 'l, 'p, 'c) drift_lib \<Rightarrow> ('r, 'l) SelectorRegex \<Rightarrow> string \<Rightarrow> string \<Rightarrow> string \<Rightarrow> bool" where
  "MatchGVK lib s g v k =
     (if length (selGroup (selector s)) > 0 \<and> \<not> MatchString lib (groupRegex s) g then False
      else if length (selVersion (selector s)) > 0 \<and> \<not> MatchString lib (versionRegex s) v then False
      else if length (selKind (selector s)) > 0 \<and> \<not> MatchString lib (kindRegex s) k then False
      else True)"

definition MatchName :: "('r, 'l, 'p, 'c) drift_lib \<Rightarrow> ('r, 'l) SelectorRegex \<Rightarrow> string \<Rightarrow> bool" where
  "MatchName lib s n = (if selName (selector s) = [] then True else MatchString lib (nameRegex s) n)"

definition MatchNamespace :: "('r, 'l, 'p, 'c) drift_lib \<Rightarrow> ('r, 'l) SelectorRegex \<Rightarrow> string \<Rightarrow> bool" where
  "MatchNamespace lib s ns = (if selNamespace (selector s) = [] then True else MatchString lib (namespaceRegex s) ns)"

text \<open>A nil selector is dereferenced only if it was not parsed, which needs an empty string.\<close>

definition MatchAnnotationSelector ::
  "('r, 'l, 'p, 'c) drift_lib \<Rightarrow> ('r, 'l) SelectorRegex \<Rightarrow> (string, string) gomap \<Rightarrow> bool option" where
  "MatchAnnotationSelector lib s a =
     (if selAnnotation (selector s) = [] then Some True else map_option (\<lambda>l. LabelsMatches lib l a) (annotationSelector s))"

definition MatchLabelSelector ::
  "('r, 'l, 'p, 'c) drift_lib \<Rightarrow> ('r, 'l) SelectorRegex \<Rightarrow> (string, string) gomap \<Rightarrow> bool option" where
  "MatchLabelSelector lib s l =
     (if selLabel (selector s) = [] then Some True else map_option (\<lambda>x. LabelsMatches lib x l) (labelSelector s))"

definition MatchUnstructured ::
  "('r, 'l, 'p, 'c) drift_lib \<Rightarrow> ('r, 'l) SelectorRegex option \<Rightarrow> ('f, 'd) Unstructured \<Rightarrow> bool option" where
  "MatchUnstructured lib sr ob =
     (case sr of
        None \<Rightarrow> Some True
      | Some s \<Rightarrow>
          if \<not> MatchNamespace lib s (uNamespace ob) then Some False
          else if \<not> MatchName lib s (uName ob) then Some False
          else if \<not> MatchGVK lib s (fst (uGVK ob)) (fst (snd (uGVK ob))) (snd (snd (uGVK ob))) then Some False
          else
            (case MatchLabelSelector lib s (uLabels ob) of
               None \<Rightarrow> None
             | Some False \<Rightarrow> Some False
             | Some True \<Rightarrow> MatchAnnotationSelector lib s (uAnnotations ob)))"

section \<open>Ignore rules\<close>

record IgnoreRule =
  Paths :: "string list"
  ruleSelector :: "Selector option"

text \<open>The compiled rules are keyed by the pointer to the compiled selector, nil for a rule that has none.\<close>

type_synonym ('r, 'l) CompiledIgnoreRules = "(('r, 'l) SelectorRegex pointer, string list) gomap"

definition selectorPointer :: "nat \<Rightarrow> 'a option \<Rightarrow> 'a pointer" where
  "selectorPointer address = map_option (Pair address)"

fun compileRules ::
  "('r, 'l, 'p, 'c) drift_lib \<Rightarrow> nat \<Rightarrow> IgnoreRule list \<Rightarrow> ('r, 'l) CompiledIgnoreRules \<Rightarrow> string + ('r, 'l) CompiledIgnoreRules" where
  "compileRules lib address [] compiled = Inr compiled"
| "compileRules lib address (rule # rules) compiled =
     (case NewSelectorRegex lib (ruleSelector rule) of
        Inl e \<Rightarrow> Inl (''failed to create ignore rule selector: '' @ e)
      | Inr sr \<Rightarrow> compileRules lib (Suc address) rules (AList.update (selectorPointer address sr) (Paths rule) compiled))"

definition CompileIgnoreRules :: "('r, 'l, 'p, 'c) drift_lib \<Rightarrow> IgnoreRule list \<Rightarrow> string + ('r, 'l) CompiledIgnoreRules" where
  "CompileIgnoreRules lib rules = compileRules lib 0 rules []"

text \<open>The paths that a loop over the compiled rules collects for an object, in the order of the loop.\<close>

fun matchedPaths ::
  "('r, 'l, 'p, 'c) drift_lib \<Rightarrow> ('f, 'd) Unstructured \<Rightarrow> ('r, 'l) CompiledIgnoreRules \<Rightarrow> string list option" where
  "matchedPaths lib ob [] = Some []"
| "matchedPaths lib ob ((p, paths) # rules) =
     (case MatchUnstructured lib (map_option snd p) ob of
        None \<Rightarrow> None
      | Some matches \<Rightarrow> map_option (\<lambda>rest. if matches then paths @ rest else rest) (matchedPaths lib ob rules))"

section \<open>Patches\<close>

definition GenerateRemovePatch :: "string list \<Rightarrow> PatchOp list" where
  "GenerateRemovePatch paths = map RemoveOp paths"

definition GenerateReplacePatch :: "(string \<times> json) list \<Rightarrow> PatchOp list" where
  "GenerateReplacePatch ops = map (\<lambda>(path, v). ReplaceOp path v) ops"

definition ApplyPatchToUnstructured ::
  "('r, 'l, 'p, 'c) drift_lib \<Rightarrow> 'c object \<Rightarrow> PatchOp list \<Rightarrow> string + 'c object" where
  "ApplyPatchToUnstructured lib ob patch = (if length patch = 0 then Inr ob else PatchJSON lib ob patch)"

definition removeIgnoredFields ::
  "('r, 'l, 'p, 'c) drift_lib \<Rightarrow> 'c object \<Rightarrow> 'c object \<Rightarrow> ('r, 'l) CompiledIgnoreRules \<Rightarrow> (string + 'c object) option" where
  "removeIgnoredFields lib matchObj ob rules =
     map_option (\<lambda>ignorePaths.
       if length ignorePaths > 0 then ApplyPatchToUnstructured lib ob (GenerateRemovePatch ignorePaths) else Inr ob)
       (matchedPaths lib matchObj rules)"

definition lookupJSONPointer :: "('r, 'l, 'p, 'c) drift_lib \<Rightarrow> 'c object \<Rightarrow> string \<Rightarrow> string + json option" where
  "lookupJSONPointer lib ob pointer =
     (case PointerNew lib pointer of
        Inl e \<Rightarrow> Inl e
      | Inr ptr \<Rightarrow> (case PointerGet lib ptr ob of Inl _ \<Rightarrow> Inr None | Inr v \<Rightarrow> Inr (Some v)))"

section \<open>Ownership of a field\<close>

record parsedManagedField =
  pmManager :: string
  pmFields :: jmap

definition parseManagedFieldsApply :: "('r, 'l, 'p, 'c) drift_lib \<Rightarrow> 'c object \<Rightarrow> parsedManagedField list" where
  "parseManagedFieldsApply lib ob =
     concat (map (\<lambda>mf.
       if mSubresource mf \<noteq> [] \<or> mOperation mf \<noteq> ApplyOperation then []
       else
         (case mFieldsV1 mf of
            None \<Rightarrow> []
          | Some (_, raw) \<Rightarrow>
              if length raw = 0 then []
              else (case Unmarshal lib raw of Inl _ \<Rightarrow> [] | Inr m \<Rightarrow> [\<lparr>pmManager = mManager mf, pmFields = m\<rparr>])))
       (uManagedFields ob))"

fun walkFieldsV1 :: "jmap \<Rightarrow> string list \<Rightarrow> jmap option" where
  "walkFieldsV1 current [] = Some current"
| "walkFieldsV1 current (seg # segments) =
     (case map_of current seg of
        Some (JObject childMap) \<Rightarrow> walkFieldsV1 childMap segments
      | _ \<Rightarrow> None)"

fun containsFrom :: "jmap \<Rightarrow> string list \<Rightarrow> bool" where
  "containsFrom current [] = True"
| "containsFrom current (seg # segments) =
     (case map_of current seg of
        None \<Rightarrow> False
      | Some child \<Rightarrow>
          if segments = [] then True
          else (case child of JObject childMap \<Rightarrow> containsFrom childMap segments | _ \<Rightarrow> False))"

definition fieldsV1Contains :: "jmap \<Rightarrow> string list \<Rightarrow> bool" where
  "fieldsV1Contains fs segments = (if length segments = 0 then False else containsFrom fs segments)"

definition collectKKeys :: "('r, 'l, 'p, 'c) drift_lib \<Rightarrow> string list \<Rightarrow> parsedManagedField list \<Rightarrow> string list" where
  "collectKKeys lib parentSegments parsed =
     RangeKeys lib (remdups (concat (map (\<lambda>entry.
       case walkFieldsV1 (pmFields entry) parentSegments of
         None \<Rightarrow> []
       | Some node \<Rightarrow> filter (\<lambda>key. HasPrefix key ''k:'') (map fst node)) parsed)))"

definition parseKKey :: "('r, 'l, 'p, 'c) drift_lib \<Rightarrow> string \<Rightarrow> string + jmap" where
  "parseKKey lib kKey = Unmarshal lib (TrimPrefix kKey ''k:'')"

definition matchesKKey :: "('r, 'l, 'p, 'c) drift_lib \<Rightarrow> jmap \<Rightarrow> jmap \<Rightarrow> bool" where
  "matchesKKey lib item kv =
     list_all (\<lambda>(k, v). DeepEqual lib (case map_of item k of Some x \<Rightarrow> x | None \<Rightarrow> JNull) v) kv"

definition firstMatchingKey :: "('r, 'l, 'p, 'c) drift_lib \<Rightarrow> jmap \<Rightarrow> string list \<Rightarrow> string option" where
  "firstMatchingKey lib item kKeys =
     List.find (\<lambda>kKey. case parseKKey lib kKey of Inl _ \<Rightarrow> False | Inr kv \<Rightarrow> matchesKKey lib item kv) kKeys"

definition resolveArrayMergeKey ::
  "('r, 'l, 'p, 'c) drift_lib \<Rightarrow> 'c object \<Rightarrow> string list \<Rightarrow> int \<Rightarrow> string list \<Rightarrow> parsedManagedField list \<Rightarrow>
     (string + string) option" where
  "resolveArrayMergeKey lib ob objPath index parentSegments parsed =
     (case NestedSlice lib ob objPath of
        None \<Rightarrow> Some (Inl (''array not found or index '' @ itoa index @ '' out of bounds''))
      | Some arr \<Rightarrow>
          if index \<ge> int (length arr) then Some (Inl (''array not found or index '' @ itoa index @ '' out of bounds''))
          else if index < 0 then None
          else
            (case arr ! nat index of
               JObject item \<Rightarrow>
                 (let kKeys = collectKKeys lib parentSegments parsed in
                  if length kKeys = 0 then Some (Inl ''no k: entries found at parent path'')
                  else
                    (case firstMatchingKey lib item kKeys of
                       Some kKey \<Rightarrow> Some (Inr kKey)
                     | None \<Rightarrow> Some (Inl (''no matching k: entry for item at index '' @ itoa index))))
             | _ \<Rightarrow> Some (Inl (''array item at index '' @ itoa index @ '' is not a map''))))"

definition unescape :: "string \<Rightarrow> string" where
  "unescape s = Replace (Replace s ''~1'' ''/'' None) ''~0'' ''~'' None"

fun segmentsLoop ::
  "('r, 'l, 'p, 'c) drift_lib \<Rightarrow> 'c object \<Rightarrow> parsedManagedField list \<Rightarrow> string list \<Rightarrow> string list \<Rightarrow> string list \<Rightarrow>
     (string + string list) option" where
  "segmentsLoop lib ob parsed [] segments objPath = Some (Inr segments)"
| "segmentsLoop lib ob parsed (seg # rawSegments) segments objPath =
     (case Atoi seg of
        None \<Rightarrow> segmentsLoop lib ob parsed rawSegments (segments @ [''f:'' @ seg]) (objPath @ [seg])
      | Some idx \<Rightarrow>
          (case resolveArrayMergeKey lib ob objPath idx segments parsed of
             None \<Rightarrow> None
           | Some (Inl e) \<Rightarrow>
               Some (Inl (''cannot resolve array key for '' @ Join objPath ''/'' @ ''['' @ itoa idx @ '']: '' @ e))
           | Some (Inr kKey) \<Rightarrow> segmentsLoop lib ob parsed rawSegments (segments @ [kKey]) (objPath @ [seg])))"

definition pointerToFieldsV1Segments ::
  "('r, 'l, 'p, 'c) drift_lib \<Rightarrow> 'c object \<Rightarrow> string \<Rightarrow> parsedManagedField list \<Rightarrow> (string + string list) option" where
  "pointerToFieldsV1Segments lib ob pointer parsed =
     (let raw = TrimPrefix pointer ''/'' in
      if raw = [] then Some (Inl ''empty pointer'')
      else segmentsLoop lib ob parsed (map unescape (SplitChar (CHR ''/'') raw)) [] [])"

definition isFieldOwnedByOtherApplyManager ::
  "('r, 'l, 'p, 'c) drift_lib \<Rightarrow> 'c object \<Rightarrow> string \<Rightarrow> string \<Rightarrow> parsedManagedField list \<Rightarrow> bool option" where
  "isFieldOwnedByOtherApplyManager lib ob pointer fluxManager parsed =
     map_option (\<lambda>r.
       case r of
         Inl _ \<Rightarrow> False
       | Inr segments \<Rightarrow> list_ex (\<lambda>entry. pmManager entry \<noteq> fluxManager \<and> fieldsV1Contains (pmFields entry) segments) parsed)
       (pointerToFieldsV1Segments lib ob pointer parsed)"

section \<open>Drift\<close>

datatype driftAction = driftStrip | driftAdopt

record driftEntry =
  dPath :: string
  dAction :: driftAction
  dValue :: json

definition pathDrifted :: "('r, 'l, 'p, 'c) drift_lib \<Rightarrow> 'c object \<Rightarrow> 'c object \<Rightarrow> string \<Rightarrow> bool" where
  "pathDrifted lib existing dryRun path =
     (case (lookupJSONPointer lib existing path, lookupJSONPointer lib dryRun path) of
        (Inr None, Inr None) \<Rightarrow> \<not> DeepEqual lib JNull JNull
      | (Inr (Some a), Inr (Some b)) \<Rightarrow> \<not> DeepEqual lib a b
      | _ \<Rightarrow> True)"

definition existingValue :: "('r, 'l, 'p, 'c) drift_lib \<Rightarrow> 'c object \<Rightarrow> string \<Rightarrow> json" where
  "existingValue lib existing path = (case lookupJSONPointer lib existing path of Inr (Some v) \<Rightarrow> v | _ \<Rightarrow> JNull)"

fun driftEntries ::
  "('r, 'l, 'p, 'c) drift_lib \<Rightarrow> 'c object \<Rightarrow> 'c object \<Rightarrow> string \<Rightarrow> parsedManagedField list \<Rightarrow> string list \<Rightarrow> driftEntry list option" where
  "driftEntries lib existing dryRun fluxManager parsed [] = Some []"
| "driftEntries lib existing dryRun fluxManager parsed (path # paths) =
     (if \<not> pathDrifted lib existing dryRun path then driftEntries lib existing dryRun fluxManager parsed paths
      else
        (case isFieldOwnedByOtherApplyManager lib existing path fluxManager parsed of
           None \<Rightarrow> None
         | Some owned \<Rightarrow>
             map_option (Cons (if owned then \<lparr>dPath = path, dAction = driftStrip, dValue = JNull\<rparr>
                               else \<lparr>dPath = path, dAction = driftAdopt, dValue = existingValue lib existing path\<rparr>))
               (driftEntries lib existing dryRun fluxManager parsed paths)))"

definition computeDriftedPaths ::
  "('r, 'l, 'p, 'c) drift_lib \<Rightarrow> 'c object \<Rightarrow> 'c object \<Rightarrow> ('r, 'l) CompiledIgnoreRules \<Rightarrow> string \<Rightarrow> driftEntry list option" where
  "computeDriftedPaths lib existing dryRun rules fluxManager =
     Option.bind (matchedPaths lib dryRun rules)
       (driftEntries lib existing dryRun fluxManager (parseManagedFieldsApply lib existing))"

definition applyDriftResult :: "('r, 'l, 'p, 'c) drift_lib \<Rightarrow> 'c object \<Rightarrow> driftEntry list \<Rightarrow> string + 'c object" where
  "applyDriftResult lib target es =
     (let stripPaths = map dPath (filter (\<lambda>e. dAction e = driftStrip) es);
          adoptOps = map (\<lambda>e. (dPath e, dValue e)) (filter (\<lambda>e. dAction e = driftAdopt) es)
      in bindE (if length stripPaths > 0 then ApplyPatchToUnstructured lib target (GenerateRemovePatch stripPaths) else Inr target)
           (\<lambda>t. if length adoptOps > 0 then ApplyPatchToUnstructured lib t (GenerateReplacePatch adoptOps) else Inr t))"

section \<open>Compiled selectors\<close>

lemma bindE_simps [simp]: "bindE (Inl e) f = Inl e" "bindE (Inr x) f = f x"
  by (simp_all add: bindE_def)

lemma bindE_Inr [simp]: "bindE r f = Inr y \<longleftrightarrow> (\<exists>x. r = Inr x \<and> f x = Inr y)"
  by (cases r) auto

lemma errorf_Inr [simp]: "errorf msg r = Inr x \<longleftrightarrow> r = Inr x"
  by (cases r) (auto simp: errorf_def)

text \<open>The selectors that \<open>NewSelectorRegex\<close> builds have a label selector wherever one is consulted.\<close>

definition selector_ok :: "('r, 'l) SelectorRegex \<Rightarrow> bool" where
  "selector_ok s \<longleftrightarrow> (selLabel (selector s) \<noteq> [] \<longrightarrow> labelSelector s \<noteq> None) \<and>
     (selAnnotation (selector s) \<noteq> [] \<longrightarrow> annotationSelector s \<noteq> None)"

lemma NewSelectorRegex_ok: "NewSelectorRegex lib sel = Inr (Some s) \<Longrightarrow> selector_ok s \<and> sel = Some (selector s)"
  by (auto simp: NewSelectorRegex_def selector_ok_def parseOptional_def split: option.splits if_splits sum.splits)

lemma NewSelectorRegex_None: "NewSelectorRegex lib sel = Inr None \<longleftrightarrow> sel = None"
  by (auto simp: NewSelectorRegex_def split: option.splits)

definition rules_ok :: "('r, 'l) CompiledIgnoreRules \<Rightarrow> bool" where
  "rules_ok rules \<longleftrightarrow> (\<forall>p \<in> fst ` set rules. case p of None \<Rightarrow> True | Some (_, s) \<Rightarrow> selector_ok s)"

lemma MatchUnstructured_total: "selector_ok s \<Longrightarrow> MatchUnstructured lib (Some s) ob \<noteq> None"
  by (auto simp: MatchUnstructured_def MatchLabelSelector_def MatchAnnotationSelector_def selector_ok_def split: bool.splits)

lemma matchedPaths_total: "rules_ok rules \<Longrightarrow> \<exists>paths. matchedPaths lib ob rules = Some paths"
proof (induction rules)
  case (Cons r rules)
  obtain p paths where r: "r = (p, paths)" by (cases r)
  have "rules_ok rules" using Cons.prems by (simp add: rules_ok_def)
  then obtain rest where rest: "matchedPaths lib ob rules = Some rest" using Cons.IH by blast
  have "MatchUnstructured lib (map_option snd p) ob \<noteq> None"
  proof (cases p)
    case (Some q)
    then have "selector_ok (snd q)" using Cons.prems r by (auto simp: rules_ok_def split: prod.splits)
    then show ?thesis using Some MatchUnstructured_total by auto
  qed (simp add: MatchUnstructured_def)
  then show ?case using r rest by auto
qed simp

lemma compileRules_ok: "compileRules lib a rules c = Inr c' \<Longrightarrow> rules_ok c \<Longrightarrow> rules_ok c'"
proof (induction rules arbitrary: a c)
  case (Cons rule rules)
  obtain sr where sr: "NewSelectorRegex lib (ruleSelector rule) = Inr sr"
    and rest: "compileRules lib (Suc a) rules (AList.update (selectorPointer a sr) (Paths rule) c) = Inr c'"
    using Cons.prems(1) by (auto split: sum.splits)
  have "rules_ok (AList.update (selectorPointer a sr) (Paths rule) c)"
    using Cons.prems(2) sr unfolding rules_ok_def keys_update
    by (cases sr) (auto simp: selectorPointer_def dest: NewSelectorRegex_ok)
  then show ?case using Cons.IH rest by blast
qed simp

lemma CompileIgnoreRules_ok: "CompileIgnoreRules lib rules = Inr c \<Longrightarrow> rules_ok c"
  unfolding CompileIgnoreRules_def by (rule compileRules_ok) (auto simp: rules_ok_def)

text \<open>A compiled rule set keeps the paths of every rule that has a selector, and of the rules that have none only the last one's: they
  all have the nil key.\<close>

lemma compileRules_unselected:
  "compileRules lib a rules c = Inr c' \<Longrightarrow>
    map_of c' None = (if \<exists>r \<in> set rules. ruleSelector r = None then Some (Paths (last (filter (\<lambda>r. ruleSelector r = None) rules)))
      else map_of c None)"
proof (induction rules arbitrary: a c)
  case (Cons rule rules)
  obtain sr where sr: "NewSelectorRegex lib (ruleSelector rule) = Inr sr"
    and rest: "compileRules lib (Suc a) rules (AList.update (selectorPointer a sr) (Paths rule) c) = Inr c'"
    using Cons.prems by (auto split: sum.splits)
  have nil: "sr = None \<longleftrightarrow> ruleSelector rule = None" using sr NewSelectorRegex_None by (metis NewSelectorRegex_ok not_Some_eq sum.inject(2))
  have "filter (\<lambda>r. ruleSelector r = None) rules = [] \<longleftrightarrow> \<not> (\<exists>r \<in> set rules. ruleSelector r = None)"
    by (auto simp: filter_empty_conv)
  then show ?case using Cons.IH [OF rest] nil by (cases sr) (auto simp: selectorPointer_def map_of_update)
qed simp

lemma compileRules_below:
  "compileRules lib a rules c = Inr c' \<Longrightarrow> i < a \<Longrightarrow> map_of c' (Some (i, sr)) = map_of c (Some (i, sr))"
proof (induction rules arbitrary: a c)
  case (Cons rule rules)
  obtain sr' where "compileRules lib (Suc a) rules (AList.update (selectorPointer a sr') (Paths rule) c) = Inr c'"
    using Cons.prems(1) by (auto split: sum.splits)
  then show ?case using Cons.IH Cons.prems(2) by (cases sr') (simp_all add: selectorPointer_def map_of_update)
qed simp

lemma compileRules_selected:
  "compileRules lib a rules c = Inr c' \<Longrightarrow> i < length rules \<Longrightarrow> NewSelectorRegex lib (ruleSelector (rules ! i)) = Inr (Some sr) \<Longrightarrow>
    map_of c' (Some (a + i, sr)) = Some (Paths (rules ! i))"
proof (induction rules arbitrary: a c i)
  case (Cons rule rules)
  obtain sr' where sr': "NewSelectorRegex lib (ruleSelector rule) = Inr sr'"
    and rest: "compileRules lib (Suc a) rules (AList.update (selectorPointer a sr') (Paths rule) c) = Inr c'"
    using Cons.prems by (auto split: sum.splits)
  show ?case
  proof (cases i)
    case 0
    then show ?thesis using Cons.prems(3) sr' compileRules_below [OF rest, of a] by (simp add: selectorPointer_def map_of_update)
  next
    case (Suc j)
    then show ?thesis using Cons.IH [OF rest, of j] Cons.prems by simp
  qed
qed simp

text \<open>C38. Compiling ignore rules keeps the paths of each rule that has a selector, under the selector it compiles to. Of the rules without one
  it keeps the paths of the last only, since they share the nil key of the map: an ignored path of an earlier one is no longer ignored.\<close>

theorem CompileIgnoreRules_keeps:
  assumes "CompileIgnoreRules lib rules = Inr compiled"
  shows "(\<forall>i < length rules. \<forall>sr. NewSelectorRegex lib (ruleSelector (rules ! i)) = Inr (Some sr) \<longrightarrow>
      map_of compiled (Some (i, sr)) = Some (Paths (rules ! i))) \<and>
    map_of compiled None = (if \<exists>r \<in> set rules. ruleSelector r = None
      then Some (Paths (last (filter (\<lambda>r. ruleSelector r = None) rules))) else None)"
  using compileRules_selected [of lib 0 rules "[]" compiled] compileRules_unselected [of lib 0 rules "[]" compiled] assms
  by (simp add: CompileIgnoreRules_def)

text \<open>Regular expressions and label selectors that match what they are equal to, and JSON kept as its text.\<close>

definition plain_lib :: "(string, string, string list, jmap) drift_lib" where
  "plain_lib = \<lparr>
     RegexpCompile = Inr, MatchString = (\<lambda>r s. r = anchorRegex s), LabelsParse = Inr, LabelsMatches = (\<lambda>l m. map_of m l \<noteq> None),
     PointerNew = (\<lambda>p. if HasPrefix p ''/'' then Inr (SplitChar (CHR ''/'') (tl p)) else Inl ''invalid''),
     PointerGet = (\<lambda>p ob. case walkFieldsV1 (uContent ob) (butlast p) of
       None \<Rightarrow> Inl ''missing'' | Some m \<Rightarrow> (case map_of m (last p) of None \<Rightarrow> Inl ''missing'' | Some v \<Rightarrow> Inr v)),
     NestedSlice = (\<lambda>ob p. case walkFieldsV1 (uContent ob) (butlast p) of
       None \<Rightarrow> None | Some m \<Rightarrow> (case map_of m (last p) of Some (JArray xs) \<Rightarrow> Some xs | _ \<Rightarrow> None)),
     Unmarshal = (\<lambda>s. if s = ''{f:data:{f:7:{}}}'' then Inr [(''f:data'', JObject [(''f:7'', JObject [])])] else Inl ''syntax''),
     DeepEqual = (=),
     PatchJSON = (\<lambda>ob patch. Inr ob),
     RangeKeys = (\<lambda>ks. ks)\<rparr>"

theorem CompileIgnoreRules_keeps_witness:
  "map_of [(None, [''/b''])] None = Some [''/b''] \<and>
    (\<exists>compiled. CompileIgnoreRules plain_lib [\<lparr>Paths = [''/a''], ruleSelector = None\<rparr>, \<lparr>Paths = [''/b''], ruleSelector = None\<rparr>] = Inr compiled \<and>
      map_of compiled None = Some [''/b''])"
proof -
  let ?rules = "[\<lparr>Paths = [''/a''], ruleSelector = None\<rparr>, \<lparr>Paths = [''/b''], ruleSelector = None\<rparr>]"
  have c: "CompileIgnoreRules plain_lib ?rules = Inr [(None, [''/b''])]" by code_simp
  show ?thesis using CompileIgnoreRules_keeps [OF c] c by simp
qed

section \<open>Ownership\<close>

lemma containsFrom_walk:
  "containsFrom fs (segs @ [s]) \<longleftrightarrow> (\<exists>node. walkFieldsV1 fs segs = Some node \<and> map_of node s \<noteq> None)"
  by (induction segs arbitrary: fs) (auto split: option.splits json.splits)

lemma fieldsV1Contains_walk:
  "fieldsV1Contains fs segs \<longleftrightarrow> segs \<noteq> [] \<and> (\<exists>node. walkFieldsV1 fs (butlast segs) = Some node \<and> map_of node (last segs) \<noteq> None)"
proof (cases segs rule: rev_cases)
  case (snoc ss s)
  then show ?thesis using containsFrom_walk [of fs ss s] by (simp add: fieldsV1Contains_def)
qed (simp add: fieldsV1Contains_def)

lemma segmentsLoop_names:
  "\<forall>s \<in> set raw. Atoi s = None \<Longrightarrow> segmentsLoop lib ob parsed raw segs path = Some (Inr (segs @ map ((@) ''f:'') raw))"
  by (induction raw arbitrary: segs path) auto

lemma segmentsLoop_stuck:
  "\<forall>s \<in> set raw. Atoi s = None \<Longrightarrow> Atoi n = Some i \<Longrightarrow> NestedSlice lib ob (path @ raw) = None \<Longrightarrow>
    \<exists>e. segmentsLoop lib ob parsed (raw @ n # rest) segs path = Some (Inl e)"
  by (induction raw arbitrary: segs path) (auto simp: resolveArrayMergeKey_def)

abbreviation pointerSegments :: "string \<Rightarrow> string list" where
  "pointerSegments pointer \<equiv> map unescape (SplitChar (CHR ''/'') (TrimPrefix pointer ''/''))"

text \<open>For a pointer none of whose segments reads as an integer the ownership test is exact: it holds when an \<open>Apply\<close> manager other than
  Flux has, in its \<open>fieldsV1\<close>, a node for the parent of the field with the field in it.\<close>

theorem isFieldOwned_names:
  assumes "TrimPrefix pointer ''/'' \<noteq> []" "\<forall>s \<in> set (pointerSegments pointer). Atoi s = None"
  shows "isFieldOwnedByOtherApplyManager lib ob pointer flux parsed = Some (\<exists>entry \<in> set parsed. pmManager entry \<noteq> flux \<and>
    (\<exists>node. walkFieldsV1 (pmFields entry) (map ((@) ''f:'') (butlast (pointerSegments pointer))) = Some node \<and>
      map_of node (''f:'' @ last (pointerSegments pointer)) \<noteq> None))"
proof -
  let ?segs = "pointerSegments pointer"
  have ne: "?segs \<noteq> []" by simp
  have "pointerToFieldsV1Segments lib ob pointer parsed = Some (Inr (map ((@) ''f:'') ?segs))"
    using assms segmentsLoop_names [of ?segs lib ob parsed "[]" "[]"] by (simp add: pointerToFieldsV1Segments_def Let_def)
  then show ?thesis using ne by (simp add: isFieldOwnedByOtherApplyManager_def fieldsV1Contains_walk list_ex_iff map_butlast last_map)
qed

definition hpaFields :: "string list \<Rightarrow> parsedManagedField" where
  "hpaFields segs = \<lparr>pmManager = ''hpa'', pmFields = foldr (\<lambda>s m. [(s, JObject m)]) segs []\<rparr>"

definition configMapObject :: "jmap \<Rightarrow> string ManagedFieldsEntry list \<Rightarrow> jmap object" where
  "configMapObject c es =
     \<lparr>uAPIVersion = ''v1'', uKind = ''ConfigMap'', uGVK = ([], ''v1'', ''ConfigMap''), uNamespace = ''default'', uName = ''cm'', uUID = ''u'',
      uResourceVersion = ''1'', uLabels = [], uAnnotations = [], uManagedFields = es, uContent = c\<rparr>"

theorem isFieldOwned_names_witness:
  "isFieldOwnedByOtherApplyManager plain_lib (configMapObject [] []) ''/spec/replicas'' ''flux'' [hpaFields [''f:spec'', ''f:replicas'']] = Some True"
proof -
  have segs: "pointerSegments ''/spec/replicas'' = [''spec'', ''replicas'']" by code_simp
  have "TrimPrefix ''/spec/replicas'' ''/'' \<noteq> []" "\<forall>s \<in> set (pointerSegments ''/spec/replicas''). Atoi s = None"
    unfolding segs by code_simp+
  from isFieldOwned_names [OF this, of plain_lib "configMapObject [] []" "''flux''" "[hpaFields [''f:spec'', ''f:replicas'']]"]
  show ?thesis unfolding segs by (simp add: hpaFields_def)
qed

text \<open>A segment that reads as an integer is taken for an array index, also where the object has a map: then no owner is ever found, whatever the
  other managers own.\<close>
lemma isFieldOwned_numeric_key:
  assumes "TrimPrefix pointer ''/'' \<noteq> []" "pointerSegments pointer = raw @ n # rest" "\<forall>s \<in> set raw. Atoi s = None" "Atoi n = Some i"
    "NestedSlice lib ob raw = None"
  shows "isFieldOwnedByOtherApplyManager lib ob pointer flux parsed = Some False"
proof -
  obtain e where e: "segmentsLoop lib ob parsed (raw @ n # rest) [] [] = Some (Inl e)"
    using segmentsLoop_stuck [OF assms(3,4), of lib ob "[]" parsed rest "[]"] assms(5) by auto
  have "pointerToFieldsV1Segments lib ob pointer parsed = Some (Inl e)"
    unfolding pointerToFieldsV1Segments_def Let_def assms(2) e using assms(1) by (simp only: if_False)
  then show ?thesis by (simp add: isFieldOwnedByOtherApplyManager_def)
qed

lemma isFieldOwned_numeric_key_example:
  "fieldsV1Contains (pmFields (hpaFields [''f:data'', ''f:7''])) [''f:data'', ''f:7'']"
  "isFieldOwnedByOtherApplyManager plain_lib (configMapObject [(''data'', JObject [(''7'', JString ''x'')])] []) ''/data/7'' ''flux''
     [hpaFields [''f:data'', ''f:7'']] = Some False"
  by code_simp+

section \<open>What is done with a drifted field\<close>

lemma driftEntries_exact:
  "driftEntries lib existing dryRun flux parsed paths = Some es \<Longrightarrow>
    map dPath es = filter (pathDrifted lib existing dryRun) paths \<and>
    (\<forall>e \<in> set es.
      isFieldOwnedByOtherApplyManager lib existing (dPath e) flux parsed = Some (dAction e = driftStrip) \<and>
      dValue e = (if dAction e = driftStrip then JNull else existingValue lib existing (dPath e)))"
proof (induction paths arbitrary: es)
  case (Cons path paths)
  show ?case
  proof (cases "pathDrifted lib existing dryRun path")
    case True
    then obtain owned es' where owned: "isFieldOwnedByOtherApplyManager lib existing path flux parsed = Some owned"
      and es': "driftEntries lib existing dryRun flux parsed paths = Some es'"
      and es: "es = (if owned then \<lparr>dPath = path, dAction = driftStrip, dValue = JNull\<rparr>
        else \<lparr>dPath = path, dAction = driftAdopt, dValue = existingValue lib existing path\<rparr>) # es'"
      using Cons.prems by (auto split: option.splits)
    show ?thesis unfolding es using Cons.IH [OF es'] owned True by (cases owned) simp_all
  qed (use Cons in simp)
qed simp

text \<open>\<open>computeDriftedPaths\<close> resolves exactly the matched paths whose values differ, in their order: it strips the ones another
  \<open>Apply\<close> manager owns, and adopts the in-cluster value for the rest.\<close>

theorem computeDriftedPaths_exact:
  assumes "computeDriftedPaths lib existing dryRun rules flux = Some es"
  shows "\<exists>paths. matchedPaths lib dryRun rules = Some paths \<and>
    map dPath es = filter (pathDrifted lib existing dryRun) paths \<and>
    (\<forall>e \<in> set es.
      isFieldOwnedByOtherApplyManager lib existing (dPath e) flux (parseManagedFieldsApply lib existing) = Some (dAction e = driftStrip) \<and>
      dValue e = (if dAction e = driftStrip then JNull else existingValue lib existing (dPath e)))"
  using assms by (auto simp: computeDriftedPaths_def bind_eq_Some_conv dest: driftEntries_exact)

theorem computeDriftedPaths_exact_witness:
  "map dPath [\<lparr>dPath = ''/spec/replicas'', dAction = driftAdopt, dValue = JInt 5\<rparr>] = [''/spec/replicas''] \<and>
    (\<exists>paths. matchedPaths plain_lib (configMapObject [(''spec'', JObject [(''replicas'', JInt 2)])] []) [(None, [''/spec/replicas'', ''/x''])] = Some paths \<and>
      filter (pathDrifted plain_lib (configMapObject [(''spec'', JObject [(''replicas'', JInt 5)])] [])
        (configMapObject [(''spec'', JObject [(''replicas'', JInt 2)])] [])) paths = [''/spec/replicas''])"
proof -
  have c: "computeDriftedPaths plain_lib (configMapObject [(''spec'', JObject [(''replicas'', JInt 5)])] [])
      (configMapObject [(''spec'', JObject [(''replicas'', JInt 2)])] []) [(None, [''/spec/replicas'', ''/x''])] ''flux'' =
      Some [\<lparr>dPath = ''/spec/replicas'', dAction = driftAdopt, dValue = JInt 5\<rparr>]" by code_simp
  show ?thesis using computeDriftedPaths_exact [OF c] by auto
qed

text \<open>Adopting is a JSON patch \<open>replace\<close>, which the RFC makes fail where the target does not exist. A field that the manifest no longer has and
  the cluster still has is adopted, so its object cannot be applied.\<close>
lemma adopt_missing_target_fails:
  assumes "\<And>ob path v ops. PointerNew lib path = Inr ptr \<Longrightarrow> PointerGet lib ptr ob = Inl m \<Longrightarrow> \<exists>e. PatchJSON lib ob (ReplaceOp path v # ops) = Inl e"
    "PointerNew lib path = Inr ptr" "PointerGet lib ptr target = Inl m"
  shows "\<exists>e. applyDriftResult lib target [\<lparr>dPath = path, dAction = driftAdopt, dValue = v\<rparr>] = Inl e"
  using assms(1) [OF assms(2,3), of v "[]"]
  by (simp add: applyDriftResult_def ApplyPatchToUnstructured_def GenerateReplacePatch_def)

end
