(* ===== verification/Secret_Masking.thy ===== *)
theory Secret_Masking
  imports Json
begin

text \<open>
  Masking of secret values before they are shown: \<open>SanitizeUnstructuredData\<close> of \<open>ssa/sanitize.go\<close> on two versions of
  an object, and \<open>MaskSecretPatchData\<close> of \<open>ssa/jsondiff/mask.go\<close> on the operations of a JSON patch. A panic, from
  comparing two slices or two maps, is \<open>None\<close>. The functions of the \<open>unstructured\<close> package are parameters.
\<close>

section \<open>Two versions of an object\<close>

record 'o nested_lib =
  NestedMap :: "'o \<Rightarrow> string \<Rightarrow> string + jmap option"
  SetNestedMap :: "'o \<Rightarrow> jmap \<Rightarrow> string \<Rightarrow> string + 'o"

definition sanitizeMaskDefault :: json where "sanitizeMaskDefault = JString ''***''"

definition sanitizeMaskBefore :: json where "sanitizeMaskBefore = JString ''*** (before)''"

definition sanitizeMaskAfter :: json where "sanitizeMaskAfter = JString ''*** (after)''"

lemmas sanitize_masks = sanitizeMaskDefault_def sanitizeMaskBefore_def sanitizeMaskAfter_def

text \<open>One round of the first loop, for a key of the old data.\<close>

definition sanitizeOld :: "string \<Rightarrow> jmap \<times> jmap \<Rightarrow> (jmap \<times> jmap) option" where
  "sanitizeOld k = (\<lambda>(old, new).
     case (map_of old k, map_of new k) of
       (Some a, Some b) \<Rightarrow>
         map_option (\<lambda>eq.
           if \<not> eq then (AList.update k sanitizeMaskBefore old, AList.update k sanitizeMaskAfter new)
           else (AList.update k sanitizeMaskDefault old, AList.update k sanitizeMaskDefault new)) (goEqual a b)
     | _ \<Rightarrow> Some (AList.update k sanitizeMaskDefault old, new))"

definition sanitizeNew :: "string \<Rightarrow> jmap \<times> jmap \<Rightarrow> jmap \<times> jmap" where
  "sanitizeNew k = (\<lambda>(old, new).
     if map_of old k = None then (old, AList.update k sanitizeMaskDefault new) else (old, new))"

fun foldOption :: "('a \<Rightarrow> 'b \<Rightarrow> 'b option) \<Rightarrow> 'a list \<Rightarrow> 'b \<Rightarrow> 'b option" where
  "foldOption f [] s = Some s"
| "foldOption f (x # xs) s = Option.bind (f x s) (foldOption f xs)"

definition sanitizeLoops :: "jmap \<Rightarrow> jmap \<Rightarrow> (jmap \<times> jmap) option" where
  "sanitizeLoops old new = do {
     (old1, new1) \<leftarrow> foldOption sanitizeOld (map fst old) (old, new);
     Some (fold sanitizeNew (map fst new1) (old1, new1))
   }"

text \<open>A nil map and a missing one are both \<open>None\<close>; looping over them does nothing.\<close>

definition getUnstructuredData :: "'o nested_lib \<Rightarrow> 'o option \<Rightarrow> string + jmap option" where
  "getUnstructuredData lib u = (case u of None \<Rightarrow> Inr None | Some ob \<Rightarrow> NestedMap lib ob ''data'')"

definition setData :: "'o nested_lib \<Rightarrow> 'o option \<Rightarrow> jmap option \<Rightarrow> jmap \<Rightarrow> string + 'o option" where
  "setData lib u data0 data =
     (case (u, data0) of
        (Some ob, Some _) \<Rightarrow> (case SetNestedMap lib ob data ''data'' of Inl e \<Rightarrow> Inl e | Inr ob' \<Rightarrow> Inr (Some ob'))
      | _ \<Rightarrow> Inr u)"

definition SanitizeUnstructuredData ::
  "'o nested_lib \<Rightarrow> 'o option \<Rightarrow> 'o option \<Rightarrow> (string + 'o option \<times> 'o option) option" where
  "SanitizeUnstructuredData lib old new =
     (case getUnstructuredData lib old of
        Inl e \<Rightarrow> Some (Inl e)
      | Inr oldData \<Rightarrow>
          (case getUnstructuredData lib new of
             Inl e \<Rightarrow> Some (Inl e)
           | Inr newData \<Rightarrow>
               map_option (\<lambda>(o1, n1).
                 case setData lib old oldData o1 of
                   Inl e \<Rightarrow> Inl e
                 | Inr old' \<Rightarrow> (case setData lib new newData n1 of Inl e \<Rightarrow> Inl e | Inr new' \<Rightarrow> Inr (old', new')))
                 (sanitizeLoops (case oldData of Some m \<Rightarrow> m | None \<Rightarrow> []) (case newData of Some m \<Rightarrow> m | None \<Rightarrow> []))))"

section \<open>Operations of a patch\<close>

record Operation =
  opPath :: string
  OldValue :: json
  Value :: json

definition maskOld :: "string \<Rightarrow> jmap \<times> jmap \<Rightarrow> (jmap \<times> jmap) option" where
  "maskOld k = (\<lambda>(from, to).
     case (map_of from k, map_of to k) of
       (Some a, Some b) \<Rightarrow>
         map_option (\<lambda>eq.
           if \<not> eq then (AList.update k sanitizeMaskBefore from, AList.update k sanitizeMaskAfter to)
           else (AList.update k sanitizeMaskDefault from, to)) (goEqual a b)
     | _ \<Rightarrow> Some (AList.update k sanitizeMaskDefault from, to))"

definition jmapOf :: "json \<Rightarrow> jmap" where
  "jmapOf v = (case v of JObject m \<Rightarrow> m | _ \<Rightarrow> [])"

text \<open>The maps are changed in place, so a value that is a map becomes the masked map.\<close>

definition maskMap :: "json \<Rightarrow> json \<Rightarrow> (json \<times> json) option" where
  "maskMap from to = do {
     (f1, t1) \<leftarrow> foldOption maskOld (map fst (jmapOf from)) (jmapOf from, jmapOf to);
     let (f2, t2) = fold sanitizeNew (map fst t1) (f1, t1);
     Some (case from of JObject _ \<Rightarrow> JObject f2 | _ \<Rightarrow> from, case to of JObject _ \<Rightarrow> JObject t2 | _ \<Rightarrow> to)
   }"

definition maskOperation :: "Operation \<Rightarrow> Operation option" where
  "maskOperation v =
     (let both = (OldValue v \<noteq> JNull \<and> Value v \<noteq> JNull);
          oldMask = (if both then sanitizeMaskBefore else sanitizeMaskDefault);
          newMask = (if both then sanitizeMaskAfter else sanitizeMaskDefault)
      in if opPath v = ''/data'' \<or> opPath v = ''/stringData'' then
           map_option (\<lambda>(a, b). v\<lparr>OldValue := a, Value := b\<rparr>) (maskMap (OldValue v) (Value v))
         else if HasPrefix (opPath v) ''/data/'' \<or> HasPrefix (opPath v) ''/stringData/'' then
           Some (v\<lparr>OldValue := if OldValue v \<noteq> JNull then oldMask else OldValue v,
                   Value := if Value v \<noteq> JNull then newMask else Value v\<rparr>)
         else Some v)"

definition MaskSecretPatchData :: "Operation list \<Rightarrow> Operation list option" where
  "MaskSecretPatchData patch = those (map maskOperation patch)"

section \<open>The loops\<close>

text \<open>What the first loop makes of the two values of a key.\<close>

definition maskedOld :: "jmap \<Rightarrow> jmap \<Rightarrow> string \<Rightarrow> json option" where
  "maskedOld old new k =
     (case (map_of old k, map_of new k) of
        (Some a, Some b) \<Rightarrow> Some (if a = b then sanitizeMaskDefault else sanitizeMaskBefore)
      | (Some _, None) \<Rightarrow> Some sanitizeMaskDefault
      | (None, _) \<Rightarrow> None)"

definition maskedNew :: "json \<Rightarrow> jmap \<Rightarrow> jmap \<Rightarrow> string \<Rightarrow> json option" where
  "maskedNew same old new k =
     (case (map_of old k, map_of new k) of
        (Some a, Some b) \<Rightarrow> Some (if a = b then same else sanitizeMaskAfter)
      | (None, Some _) \<Rightarrow> Some sanitizeMaskDefault
      | (_, None) \<Rightarrow> None)"

definition all_comparable :: "jmap \<Rightarrow> jmap \<Rightarrow> bool" where
  "all_comparable old new \<longleftrightarrow>
     list_all (\<lambda>(k, a). case map_of new k of Some b \<Rightarrow> comparable a b | None \<Rightarrow> True) old"

lemma all_comparable_iff:
  "keys_distinct old \<Longrightarrow> all_comparable old new \<longleftrightarrow>
     (\<forall>k a b. map_of old k = Some a \<longrightarrow> map_of new k = Some b \<longrightarrow> comparable a b)"
  by (fastforce simp: all_comparable_def list_all_iff map_of_iff_set split: option.splits)

text \<open>Both first loops work key by key: what they do to one key depends on that key only.\<close>

definition pointwise :: "(string \<Rightarrow> jmap \<times> jmap \<Rightarrow> (jmap \<times> jmap) option) \<Rightarrow>
    (json option \<Rightarrow> json option \<Rightarrow> (json option \<times> json option) option) \<Rightarrow> bool" where
  "pointwise f g \<longleftrightarrow> (\<forall>k old new. case g (map_of old k) (map_of new k) of
       None \<Rightarrow> f k (old, new) = None
     | Some (a, b) \<Rightarrow> \<exists>old' new'. f k (old, new) = Some (old', new') \<and>
         map_of old' = (map_of old)(k := a) \<and> map_of new' = (map_of new)(k := b))"

lemma pointwise_None: "pointwise f g \<Longrightarrow> g (map_of old k) (map_of new k) = None \<Longrightarrow> f k (old, new) = None"
  unfolding pointwise_def by (drule spec [of _ k], drule spec [of _ old], drule spec [of _ new]) simp

lemma pointwise_Some:
  assumes "pointwise f g" "g (map_of old k) (map_of new k) = Some (a, b)"
  obtains old' new' where "f k (old, new) = Some (old', new')" "map_of old' = (map_of old)(k := a)"
    "map_of new' = (map_of new)(k := b)"
  using assms(1) [unfolded pointwise_def, THEN spec, THEN spec, THEN spec, of k old new] assms(2) by auto

lemma foldOption_pointwise:
  assumes "pointwise f g" "distinct ks"
  shows "case foldOption f ks (old, new) of
      None \<Rightarrow> \<exists>k \<in> set ks. g (map_of old k) (map_of new k) = None
    | Some (old', new') \<Rightarrow> \<forall>k. if k \<in> set ks
        then g (map_of old k) (map_of new k) = Some (map_of old' k, map_of new' k)
        else map_of old' k = map_of old k \<and> map_of new' k = map_of new k"
  using assms(2)
proof (induction ks arbitrary: old new)
  case (Cons x ks)
  show ?case
  proof (cases "g (map_of old x) (map_of new x)")
    case None
    moreover from this have "f x (old, new) = None" by (rule pointwise_None [OF assms(1)])
    ultimately show ?thesis by auto
  next
    case (Some r)
    obtain a b where r: "r = (a, b)" by (cases r)
    then obtain o1 n1 where s: "f x (old, new) = Some (o1, n1)" "map_of o1 = (map_of old)(x := a)"
      "map_of n1 = (map_of new)(x := b)"
      using pointwise_Some [OF assms(1)] Some by metis
    have x: "x \<notin> set ks" "distinct ks" using Cons.prems by auto
    note IH = Cons.IH [OF x(2), of o1 n1]
    show ?thesis
    proof (cases "foldOption f ks (o1, n1)")
      case None
      with IH obtain k where "k \<in> set ks" "g (map_of o1 k) (map_of n1 k) = None" by auto
      moreover from this have "k \<noteq> x" using x by auto
      ultimately show ?thesis using None s by auto
    next
      case (Some q)
      obtain o2 n2 where q: "q = (o2, n2)" by (cases q)
      have "if k \<in> set (x # ks) then g (map_of old k) (map_of new k) = Some (map_of o2 k, map_of n2 k)
        else map_of o2 k = map_of old k \<and> map_of n2 k = map_of new k" for k
        using IH Some q s x(1) r \<open>g (map_of old x) (map_of new x) = Some r\<close> by (auto simp: fun_upd_apply split: if_splits)
      then show ?thesis using s Some q by simp
    qed
  qed
qed simp

lemma sanitizeOld_pointwise:
  "pointwise sanitizeOld (\<lambda>a b. case (a, b) of
       (Some x, Some y) \<Rightarrow>
         if comparable x y then Some (if x = y then (Some sanitizeMaskDefault, Some sanitizeMaskDefault)
           else (Some sanitizeMaskBefore, Some sanitizeMaskAfter)) else None
     | _ \<Rightarrow> Some (Some sanitizeMaskDefault, b))"
  unfolding pointwise_def sanitizeOld_def
  by (auto simp: goEqual_comparable map_of_update fun_upd_idem split: option.split)

lemma maskOld_pointwise:
  "pointwise maskOld (\<lambda>a b. case (a, b) of
       (Some x, Some y) \<Rightarrow>
         if comparable x y then Some (if x = y then (Some sanitizeMaskDefault, Some y)
           else (Some sanitizeMaskBefore, Some sanitizeMaskAfter)) else None
     | _ \<Rightarrow> Some (Some sanitizeMaskDefault, b))"
  unfolding pointwise_def maskOld_def
  by (auto simp: goEqual_comparable map_of_update fun_upd_idem split: option.split)

lemma fold_sanitizeNew:
  "fst (fold sanitizeNew ks (old, new)) = old \<and>
     map_of (snd (fold sanitizeNew ks (old, new))) =
       (\<lambda>k. if k \<in> set ks \<and> map_of old k = None then Some sanitizeMaskDefault else map_of new k)"
  by (induction ks arbitrary: new) (auto simp: sanitizeNew_def map_of_update fun_eq_iff)

text \<open>The two loops, for a first loop that leaves unchanged values with the given result.\<close>

lemma loops_masked:
  assumes "pointwise f g" and "keys_distinct old" "all_comparable old new"
    and g: "g = (\<lambda>a b. case (a, b) of
       (Some x, Some y) \<Rightarrow>
         if comparable x y then Some (if x = y then (Some sanitizeMaskDefault, Some (same y))
           else (Some sanitizeMaskBefore, Some sanitizeMaskAfter)) else None
     | _ \<Rightarrow> Some (Some sanitizeMaskDefault, b))"
  obtains old1 new1 new2 where "foldOption f (map fst old) (old, new) = Some (old1, new1)"
    "fold sanitizeNew (map fst new1) (old1, new1) = (old1, new2)"
    "map_of old1 = maskedOld old new"
    "\<And>k. map_of new2 k = (case map_of new k of None \<Rightarrow> None | Some b \<Rightarrow> maskedNew (same b) old new k)"
proof -
  have c: "comparable a b" if "map_of old k = Some a" "map_of new k = Some b" for k a b
    using assms(2,3) that all_comparable_iff by blast
  have nn: "g (map_of old k) (map_of new k) \<noteq> None" for k
    using c by (auto simp: g split: option.split)
  have "foldOption f (map fst old) (old, new) \<noteq> None"
  proof
    assume "foldOption f (map fst old) (old, new) = None"
    then show False
      using foldOption_pointwise [OF assms(1,2), where old = old and new = new] by (simp del: set_map add: nn)
  qed
  then obtain old1 new1 where f: "foldOption f (map fst old) (old, new) = Some (old1, new1)" by auto
  have r: "if k \<in> fst ` set old then g (map_of old k) (map_of new k) = Some (map_of old1 k, map_of new1 k)
        else map_of old1 k = map_of old k \<and> map_of new1 k = map_of new k" for k
    using foldOption_pointwise [OF assms(1,2), where old = old and new = new] f by simp
  have k: "k \<in> fst ` set old \<longleftrightarrow> map_of old k \<noteq> None" for k by (simp add: map_of_eq_None_iff)
  have m1: "map_of old1 k = maskedOld old new k" for k
    using r [of k] c [of k] unfolding k g by (auto simp: maskedOld_def split: option.splits if_splits)
  have m2: "map_of new1 k = (case (map_of old k, map_of new k) of
      (Some a, Some b) \<Rightarrow> Some (if a = b then same b else sanitizeMaskAfter) | _ \<Rightarrow> map_of new k)" for k
    using r [of k] c [of k] unfolding k g by (auto split: option.splits if_splits)
  obtain new2 where n: "fold sanitizeNew (map fst new1) (old1, new1) = (old1, new2)"
    using fold_sanitizeNew [of "map fst new1" old1 new1] by (metis prod.collapse)
  have "map_of new2 k = (if map_of new1 k \<noteq> None \<and> map_of old1 k = None then Some sanitizeMaskDefault else map_of new1 k)" for k
    using fold_sanitizeNew [of "map fst new1" old1 new1] n by (simp add: map_of_eq_None_iff)
  then have "map_of new2 k = (case map_of new k of None \<Rightarrow> None | Some b \<Rightarrow> maskedNew (same b) old new k)" for k
    unfolding m1 m2 by (auto simp: maskedOld_def maskedNew_def split: option.split)
  with f n m1 show thesis using that by blast
qed

lemma sanitizeLoops_masked:
  assumes "keys_distinct old" "all_comparable old new"
  obtains old' new' where "sanitizeLoops old new = Some (old', new')"
    "map_of old' = maskedOld old new" "map_of new' = maskedNew sanitizeMaskDefault old new"
proof -
  obtain old1 new1 new2 where l: "foldOption sanitizeOld (map fst old) (old, new) = Some (old1, new1)"
    "fold sanitizeNew (map fst new1) (old1, new1) = (old1, new2)" "map_of old1 = maskedOld old new"
    "\<And>k. map_of new2 k = (case map_of new k of None \<Rightarrow> None | Some b \<Rightarrow> maskedNew sanitizeMaskDefault old new k)"
    using loops_masked [OF sanitizeOld_pointwise assms, of "\<lambda>_. sanitizeMaskDefault"] by blast
  have "map_of new2 = maskedNew sanitizeMaskDefault old new"
    using l(4) by (auto simp: fun_eq_iff maskedNew_def split: option.split)
  then show thesis using that l by (simp add: sanitizeLoops_def)
qed

section \<open>Properties\<close>

text \<open>What the \<open>unstructured\<close> package documents: a map that has been set is read back.\<close>

definition nested_laws :: "'o nested_lib \<Rightarrow> bool" where
  "nested_laws lib \<longleftrightarrow> (\<forall>ob m f ob'. SetNestedMap lib ob m f = Inr ob' \<longrightarrow> NestedMap lib ob' f = Inr (Some m))"

definition isMask :: "json \<Rightarrow> bool" where
  "isMask v \<longleftrightarrow> v \<in> {sanitizeMaskDefault, sanitizeMaskBefore, sanitizeMaskAfter}"

lemma dom_masked: "dom (maskedOld old new) = dom (map_of old)" "dom (maskedNew same old new) = dom (map_of new)"
  by (auto simp: maskedOld_def maskedNew_def split: option.splits)

lemma masked_isMask:
  "maskedOld old new k = Some v \<Longrightarrow> isMask v" "maskedNew sanitizeMaskDefault old new k = Some v \<Longrightarrow> isMask v"
  by (auto simp: maskedOld_def maskedNew_def isMask_def split: option.splits if_splits)

text \<open>
  C39. No secret is shown: when two versions of an object with data are sanitized and no common key has two slices or
  two maps, the call does not panic, and when it succeeds every value of the data of both objects is a mask. The keys are the
  same as before, and a key has the before and after masks exactly when it is in both and its values differ.
\<close>

theorem Sanitize_masks:
  assumes "nested_laws lib" "NestedMap lib old ''data'' = Inr (Some od)" "NestedMap lib new ''data'' = Inr (Some nd)"
    and "keys_distinct od" "all_comparable od nd"
  shows "\<exists>r. SanitizeUnstructuredData lib (Some old) (Some new) = Some r \<and>
    (\<forall>old' new'. r = Inr (Some old', Some new') \<longrightarrow>
      (\<exists>od' nd'. NestedMap lib old' ''data'' = Inr (Some od') \<and> NestedMap lib new' ''data'' = Inr (Some nd') \<and>
        (\<forall>k v. map_of od' k = Some v \<or> map_of nd' k = Some v \<longrightarrow> isMask v) \<and>
        dom (map_of od') = dom (map_of od) \<and> dom (map_of nd') = dom (map_of nd) \<and>
        (\<forall>k. map_of od' k = Some sanitizeMaskBefore \<longleftrightarrow>
           k \<in> dom (map_of od) \<inter> dom (map_of nd) \<and> map_of od k \<noteq> map_of nd k)))"
proof -
  obtain od' nd' where s: "sanitizeLoops od nd = Some (od', nd')"
    "map_of od' = maskedOld od nd" "map_of nd' = maskedNew sanitizeMaskDefault od nd"
    using sanitizeLoops_masked [OF assms(4,5)] .
  define r where "r = (case setData lib (Some old) (Some od) od' of Inl e \<Rightarrow> Inl e
    | Inr old' \<Rightarrow> (case setData lib (Some new) (Some nd) nd' of Inl e \<Rightarrow> Inl e | Inr new' \<Rightarrow> Inr (old', new')))"
  have "SanitizeUnstructuredData lib (Some old) (Some new) = Some r"
    using assms(2,3) s(1) by (simp add: SanitizeUnstructuredData_def getUnstructuredData_def r_def)
  moreover have "NestedMap lib old' ''data'' = Inr (Some od') \<and> NestedMap lib new' ''data'' = Inr (Some nd')"
    if "r = Inr (Some old', Some new')" for old' new'
    using that assms(1) by (auto simp: r_def setData_def nested_laws_def split: sum.splits)
  moreover have "map_of od' k = Some sanitizeMaskBefore \<longleftrightarrow>
      k \<in> dom (map_of od) \<inter> dom (map_of nd) \<and> map_of od k \<noteq> map_of nd k" for k
    unfolding s(2) by (auto simp: maskedOld_def sanitize_masks split: option.split)
  moreover have "isMask v" if "map_of od' k = Some v \<or> map_of nd' k = Some v" for k v
    using that masked_isMask unfolding s(2,3) by blast
  moreover have "dom (map_of od') = dom (map_of od)" "dom (map_of nd') = dom (map_of nd)"
    unfolding s(2,3) by (simp_all add: dom_masked)
  ultimately show ?thesis by blast
qed

definition demo_lib :: "json nested_lib" where
  "demo_lib = \<lparr>NestedMap = (\<lambda>ob f. case ob of
       JObject m \<Rightarrow> (case map_of m f of None \<Rightarrow> Inr None | Some (JObject d) \<Rightarrow> Inr (Some d) | Some _ \<Rightarrow> Inl ''no map'')
     | _ \<Rightarrow> Inl ''no object''),
     SetNestedMap = (\<lambda>ob d f. case ob of JObject m \<Rightarrow> Inr (JObject (AList.update f (JObject d) m)) | _ \<Rightarrow> Inl ''no object'')\<rparr>"

lemma demo_lib_laws: "nested_laws demo_lib"
  by (auto simp: nested_laws_def demo_lib_def map_of_update split: json.splits)

definition demo_secret :: "string \<Rightarrow> json" where
  "demo_secret pw = JObject [(''data'', JObject [(''user'', JString ''admin''), (''password'', JString pw)])]"

theorem Sanitize_masks_witness:
  "\<exists>old' new' od'. SanitizeUnstructuredData demo_lib (Some (demo_secret ''a'')) (Some (demo_secret ''b'')) =
     Some (Inr (Some old', Some new')) \<and>
     NestedMap demo_lib old' ''data'' = Inr (Some od') \<and> map_of od' ''password'' = Some sanitizeMaskBefore"
proof -
  let ?d = "\<lambda>pw. [(''user'', JString ''admin''), (''password'', JString pw)]"
  have n: "NestedMap demo_lib (demo_secret pw) ''data'' = Inr (Some (?d pw))" for pw
    by (simp add: demo_lib_def demo_secret_def)
  have c: "all_comparable (?d ''a'') (?d ''b'')" "keys_distinct (?d ''a'')" by (simp_all add: all_comparable_def)
  have e: "SanitizeUnstructuredData demo_lib (Some (demo_secret ''a'')) (Some (demo_secret ''b'')) =
     Some (Inr (Some (JObject [(''data'', JObject [(''user'', JString ''***''), (''password'', JString ''*** (before)'')])]),
       Some (JObject [(''data'', JObject [(''user'', JString ''***''), (''password'', JString ''*** (after)'')])])))"
    by code_simp
  from Sanitize_masks [OF demo_lib_laws n [of "''a''"] n [of "''b''"] c(2,1)] e
  obtain old' new' od' where r: "SanitizeUnstructuredData demo_lib (Some (demo_secret ''a'')) (Some (demo_secret ''b'')) =
     Some (Inr (Some old', Some new'))" "NestedMap demo_lib old' ''data'' = Inr (Some od')"
    and "\<forall>k. map_of od' k = Some sanitizeMaskBefore \<longleftrightarrow>
       k \<in> dom (map_of (?d ''a'')) \<inter> dom (map_of (?d ''b'')) \<and> map_of (?d ''a'') k \<noteq> map_of (?d ''b'') k"
    by (metis option.inject)
  then have "map_of od' ''password'' = Some sanitizeMaskBefore" by simp
  then show ?thesis using r by blast
qed

text \<open>
  C40. A patch that replaces the whole data of a secret is not masked completely: after masking, the new value of every key
  whose value did not change is still there in clear, while all other values are masked.
\<close>

theorem MaskSecretPatchData_unchanged_in_clear:
  assumes "keys_distinct od" "all_comparable od nd" "p = ''/data'' \<or> p = ''/stringData''"
  shows "\<exists>od' nd'. MaskSecretPatchData [\<lparr>opPath = p, OldValue = JObject od, Value = JObject nd\<rparr>] =
      Some [\<lparr>opPath = p, OldValue = JObject od', Value = JObject nd'\<rparr>] \<and>
    dom (map_of od') = dom (map_of od) \<and> dom (map_of nd') = dom (map_of nd) \<and>
    (\<forall>k v. map_of od' k = Some v \<longrightarrow> isMask v) \<and>
    (\<forall>k v. map_of nd' k = Some v \<longrightarrow> (if map_of od k = map_of nd k then map_of nd k = Some v else isMask v))"
proof -
  obtain old1 new1 new2 where l: "foldOption maskOld (map fst od) (od, nd) = Some (old1, new1)"
    "fold sanitizeNew (map fst new1) (old1, new1) = (old1, new2)" "map_of old1 = maskedOld od nd"
    "\<And>k. map_of new2 k = (case map_of nd k of None \<Rightarrow> None | Some b \<Rightarrow> maskedNew b od nd k)"
    using loops_masked [OF maskOld_pointwise assms(1,2), of "\<lambda>b. b"] by blast
  have "MaskSecretPatchData [\<lparr>opPath = p, OldValue = JObject od, Value = JObject nd\<rparr>] =
      Some [\<lparr>opPath = p, OldValue = JObject old1, Value = JObject new2\<rparr>]"
    using l(1,2) assms(3) by (auto simp: MaskSecretPatchData_def maskOperation_def maskMap_def jmapOf_def Let_def)
  moreover have "dom (map_of new2) = dom (map_of nd)"
    using l(4) by (auto simp: maskedNew_def dom_def split: option.splits)
  moreover have "if map_of od k = map_of nd k then map_of nd k = Some v else isMask v" if "map_of new2 k = Some v" for k v
    using that l(4) [of k] by (auto simp: maskedNew_def isMask_def split: option.splits if_splits)
  moreover have "dom (map_of old1) = dom (map_of od)" "\<And>k v. map_of old1 k = Some v \<Longrightarrow> isMask v"
    unfolding l(3) using masked_isMask by (simp_all add: dom_masked)
  ultimately show ?thesis by blast
qed

theorem MaskSecretPatchData_unchanged_in_clear_witness:
  "\<exists>od' nd'. MaskSecretPatchData [\<lparr>opPath = ''/data'', OldValue = JObject [(''password'', JString ''s3cret''), (''user'', JString ''a'')],
      Value = JObject [(''password'', JString ''s3cret''), (''user'', JString ''b'')]\<rparr>] =
      Some [\<lparr>opPath = ''/data'', OldValue = JObject od', Value = JObject nd'\<rparr>] \<and>
    map_of nd' ''password'' = Some (JString ''s3cret'')"
proof -
  let ?od = "[(''password'', JString ''s3cret''), (''user'', JString ''a'')]" and
    ?nd = "[(''password'', JString ''s3cret''), (''user'', JString ''b'')]"
  have a: "keys_distinct ?od" "all_comparable ?od ?nd" by (simp_all add: all_comparable_def)
  obtain od' nd' where r: "MaskSecretPatchData [\<lparr>opPath = ''/data'', OldValue = JObject ?od, Value = JObject ?nd\<rparr>] =
      Some [\<lparr>opPath = ''/data'', OldValue = JObject od', Value = JObject nd'\<rparr>]"
    "dom (map_of nd') = dom (map_of ?nd)"
    "\<forall>k v. map_of nd' k = Some v \<longrightarrow> (if map_of ?od k = map_of ?nd k then map_of ?nd k = Some v else isMask v)"
    using MaskSecretPatchData_unchanged_in_clear [OF a, of "''/data''"] by blast
  have "''password'' \<in> dom (map_of nd')" using r(2) by simp
  then show ?thesis using r(1,3) by fastforce
qed

end
