(* ===== verification/Ssa_Apply.thy ===== *)
theory Ssa_Apply
  imports Ssa_Drift Secret_Masking "HOL-Library.State_Monad"
begin

text \<open>
  The resource manager of \<open>ssa/manager_apply.go\<close>, \<open>manager_diff.go\<close>, \<open>manager_delete.go\<close> and the termination waits of
  \<open>manager_wait.go\<close>. What the manager asks of the API server is a log of calls, threaded by the state monad. The server is a
  parameter that answers each call from the log so far, so it may change between two calls as it likes. The goroutines of \<open>ApplyAll\<close> run one at a
  time, which is the concurrency \<open>NewResourceManager\<close> sets; the context they share is cancelled at the first error, which the log records.
\<close>

section \<open>Errors\<close>

text \<open>An API error, with what the predicates of the \<open>apierrors\<close> package say of it.\<close>

record apierror =
  eMessage :: string
  eNotFound :: bool
  eConflict :: bool
  eInvalid :: bool
  eReason :: string
  eCauses :: "string list"

definition regexSpace :: string where
  "regexSpace = [CHR 0x09, CHR 0x0A, CHR 0x0C, CHR 0x0D, CHR 0x20]"

text \<open>The patterns are not anchored, so matching one is having its middle part somewhere.\<close>

definition matchImmutableFieldErrors :: "string \<Rightarrow> bool list" where
  "matchImmutableFieldErrors s =
     [list_ex (\<lambda>w. Contains s (''is'' @ [w] @ ''immutable'')) regexSpace,
      list_ex (\<lambda>w. Contains s (''immutable'' @ [w] @ ''field'')) regexSpace]"

definition IsImmutableError :: "apierror \<Rightarrow> bool" where
  "IsImmutableError err =
     (if eConflict err \<or> eInvalid err then True
      else if list_ex id (matchImmutableFieldErrors (eMessage err)) then True
      else False)"

datatype 'c failure =
    Panic
  | Failed string
  | DryRunErr apierror "'c object option"

definition DryRunErr_Error :: "apierror \<Rightarrow> 'c object option \<Rightarrow> string" where
  "DryRunErr_Error err involved =
     (case involved of
        None \<Rightarrow> eMessage err
      | Some ob \<Rightarrow>
          if eNotFound err then
            (if uNamespace ob = [] then FmtUnstructured ob @ '' namespace not specified: '' @ eMessage err
             else FmtUnstructured ob @ '' not found: '' @ eMessage err)
          else
            let reason = (if List.member (eCauses err) ''FieldManagerConflict'' then ''FieldManagerConflict'' else eReason err);
                reason = (if reason \<noteq> [] then '' ('' @ reason @ '')'' else reason)
            in FmtUnstructured ob @ '' dry-run failed'' @ reason @ '': '' @ eMessage err)"

definition failureError :: "'c failure \<Rightarrow> string" where
  "failureError f = (case f of Panic \<Rightarrow> [] | Failed s \<Rightarrow> s | DryRunErr e ob \<Rightarrow> DryRunErr_Error e ob)"

section \<open>Options\<close>

record ApplyCleanupOptions =
  cAnnotations :: "string list"
  cLabels :: "string list"
  cFieldManagers :: "FieldManager list"
  cExclusions :: "(string, string) gomap"

record ApplyOptions =
  Force :: bool
  ForceSelector :: "(string, string) gomap"
  ExclusionSelector :: "(string, string) gomap"
  IfNotPresentSelector :: "(string, string) gomap"
  WaitInterval :: int
  WaitTimeout :: int
  Cleanup :: ApplyCleanupOptions
  CustomStageKinds :: "GroupKind list"
  MigrateAPIVersion :: bool
  DriftIgnoreRules :: "IgnoreRule list"

definition emptyCleanup :: ApplyCleanupOptions where
  "emptyCleanup = \<lparr>cAnnotations = [], cLabels = [], cFieldManagers = [], cExclusions = []\<rparr>"

definition emptyApplyOptions :: ApplyOptions where
  "emptyApplyOptions =
     \<lparr>Force = False, ForceSelector = [], ExclusionSelector = [], IfNotPresentSelector = [], WaitInterval = 0, WaitTimeout = 0,
      Cleanup = emptyCleanup, CustomStageKinds = [], MigrateAPIVersion = False, DriftIgnoreRules = []\<rparr>"

definition DefaultApplyOptions :: ApplyOptions where
  "DefaultApplyOptions = emptyApplyOptions\<lparr>WaitInterval := 2 * 1000000000, WaitTimeout := 60 * 1000000000\<rparr>"

record DiffOptions =
  dExclusions :: "(string, string) gomap"
  dIfNotPresentSelector :: "(string, string) gomap"
  dForce :: bool
  dForceSelector :: "(string, string) gomap"
  dDriftIgnoreRules :: "IgnoreRule list"

definition DefaultDiffOptions :: DiffOptions where
  "DefaultDiffOptions =
     \<lparr>dExclusions = [], dIfNotPresentSelector = [], dForce = False, dForceSelector = [], dDriftIgnoreRules = []\<rparr>"

record DeleteOptions =
  PropagationPolicy :: string
  Inclusions :: "(string, string) gomap"
  Exclusions :: "(string, string) gomap"

definition BackgroundPolicy :: string where "BackgroundPolicy = ''Background''"

definition DefaultDeleteOptions :: DeleteOptions where
  "DefaultDeleteOptions = \<lparr>PropagationPolicy = BackgroundPolicy, Inclusions = [], Exclusions = []\<rparr>"

section \<open>The manager and its calls\<close>

type_synonym key = "(string \<times> string \<times> string) \<times> string \<times> string"

datatype 'c call =
    CGet key
  | CDryRun string "'c object"
  | CApply string "'c object"
  | CPatch string "'c object" "string JSONPatch list"
  | CDelete string "'c object"
  | CWait "ObjMetadata list" int int
  | CCancel

type_synonym 'c log = "'c call list"

record ('r, 'l, 'p, 's, 'c) manager =
  owner :: Owner
  driftLib :: "('r, 'l, 'p, 'c) drift_lib"
  fieldsets :: "(string, 's) fieldset_lib"
  folding :: "nat \<Rightarrow> nat"
  tables :: unicode
  zeroContent :: 'c
  NestedString :: "'c object \<Rightarrow> string list \<Rightarrow> string + string option"
  Base64Decode :: "string \<Rightarrow> string option"
  TLSConfigFor :: "string \<Rightarrow> bool"
  RemoveNestedField :: "'c object \<Rightarrow> string list \<Rightarrow> 'c object"
  DryRunUnstructured :: "'c object \<Rightarrow> string + 'c object"
  EqualMaps :: "(string, string) gomap \<Rightarrow> (string, string) gomap \<Rightarrow> bool"
  EqualObjects :: "'c object \<Rightarrow> 'c object \<Rightarrow> bool"
  nestedMaps :: "'c object nested_lib"
  SelectorMatches :: "(string, string) gomap \<Rightarrow> (string, string) gomap \<Rightarrow> string + bool"
  sGet :: "'c log \<Rightarrow> key \<Rightarrow> apierror + 'c object"
  sDryRun :: "'c log \<Rightarrow> string \<Rightarrow> 'c object \<Rightarrow> apierror + 'c object"
  sApply :: "'c log \<Rightarrow> string \<Rightarrow> 'c object \<Rightarrow> apierror + 'c object"
  sPatch :: "'c log \<Rightarrow> string \<Rightarrow> 'c object \<Rightarrow> string JSONPatch list \<Rightarrow> apierror + 'c object"
  sDelete :: "'c log \<Rightarrow> string \<Rightarrow> 'c object \<Rightarrow> apierror option"
  sWait :: "'c log \<Rightarrow> ObjMetadata list \<Rightarrow> int \<Rightarrow> int \<Rightarrow> string option"
  sPolls :: "'c log \<Rightarrow> nat"
  sContextErr :: "'c log \<Rightarrow> string"

definition objectKey :: "'c object \<Rightarrow> key" where
  "objectKey ob = (uGVK ob, uNamespace ob, uName ob)"

definition askServer :: "'c call \<Rightarrow> ('c log \<Rightarrow> 'a) \<Rightarrow> ('c log, 'a) state" where
  "askServer c answer = State (\<lambda>calls. (answer calls, calls @ [c]))"

definition tryS :: "('s, 'e + 'a) state \<Rightarrow> ('a \<Rightarrow> ('s, 'e + 'b) state) \<Rightarrow> ('s, 'e + 'b) state" where
  "tryS m f = do { r \<leftarrow> m; case r of Inl e \<Rightarrow> State_Monad.return (Inl e) | Inr x \<Rightarrow> f x }"

definition liftP :: "(string + 'a) option \<Rightarrow> ('s, 'c failure + 'a) state" where
  "liftP r = State_Monad.return (case r of None \<Rightarrow> Inl Panic | Some (Inl e) \<Rightarrow> Inl (Failed e) | Some (Inr x) \<Rightarrow> Inr x)"

text \<open>An empty object of the kind of the given one; a failed \<open>Get\<close> leaves its target as it is.\<close>

definition newExisting :: "('r, 'l, 'p, 's, 'c) manager \<Rightarrow> 'c object \<Rightarrow> 'c object" where
  "newExisting m ob =
     \<lparr>uAPIVersion = uAPIVersion ob, uKind = snd (snd (uGVK ob)), uGVK = uGVK ob, uNamespace = [], uName = [], uUID = [], uResourceVersion = [],
      uLabels = [], uAnnotations = [], uManagedFields = [], uContent = zeroContent m\<rparr>"

definition getInto ::
  "('r, 'l, 'p, 's, 'c) manager \<Rightarrow> 'c object \<Rightarrow> 'c object \<Rightarrow> ('c log, apierror option \<times> 'c object) state" where
  "getInto m ob existing = do {
     r \<leftarrow> askServer (CGet (objectKey ob)) (\<lambda>calls. sGet m calls (objectKey ob));
     State_Monad.return (case r of Inl e \<Rightarrow> (Some e, existing) | Inr x \<Rightarrow> (None, x))
   }"

definition isNotFound :: "apierror option \<Rightarrow> bool" where
  "isNotFound e = (case e of None \<Rightarrow> False | Some err \<Rightarrow> eNotFound err)"

definition dryRunApply :: "('r, 'l, 'p, 's, 'c) manager \<Rightarrow> 'c object \<Rightarrow> ('c log, apierror + 'c object) state" where
  "dryRunApply m ob = askServer (CDryRun (Field (owner m)) ob) (\<lambda>calls. sDryRun m calls (Field (owner m)) ob)"

definition applyObject :: "('r, 'l, 'p, 's, 'c) manager \<Rightarrow> 'c object \<Rightarrow> ('c log, apierror + 'c object) state" where
  "applyObject m ob = askServer (CApply (Field (owner m)) ob) (\<lambda>calls. sApply m calls (Field (owner m)) ob)"

definition deleteObject :: "('r, 'l, 'p, 's, 'c) manager \<Rightarrow> string \<Rightarrow> 'c object \<Rightarrow> ('c log, apierror option) state" where
  "deleteObject m policy ob = askServer (CDelete policy ob) (\<lambda>calls. sDelete m calls policy ob)"

definition patchObject ::
  "('r, 'l, 'p, 's, 'c) manager \<Rightarrow> 'c object \<Rightarrow> string JSONPatch list \<Rightarrow> ('c log, apierror + 'c object) state" where
  "patchObject m ob patches =
     askServer (CPatch (Field (owner m)) ob patches) (\<lambda>calls. sPatch m calls (Field (owner m)) ob patches)"

section \<open>Helpers\<close>

definition caBundlePath :: "string list" where
  "caBundlePath = [''spec'', ''conversion'', ''webhook'', ''clientConfig'', ''caBundle'']"

definition validateCABundle :: "('r, 'l, 'p, 's, 'c) manager \<Rightarrow> string \<Rightarrow> bool" where
  "validateCABundle m caBundle = (if length caBundle = 0 then True else TLSConfigFor m caBundle)"

definition isCRDWithInvalidCABundle :: "('r, 'l, 'p, 's, 'c) manager \<Rightarrow> 'c object \<Rightarrow> bool" where
  "isCRDWithInvalidCABundle m ob =
     (if \<not> IsCRD (tables m) ob then False
      else
        (case NestedString m ob caBundlePath of
           Inl _ \<Rightarrow> False
         | Inr None \<Rightarrow> False
         | Inr (Some caBundle) \<Rightarrow>
             if caBundle = [] then False
             else (case Base64Decode m caBundle of Some decoded \<Rightarrow> \<not> validateCABundle m decoded | None \<Rightarrow> True)))"

definition RemoveCABundleFromCRD :: "('r, 'l, 'p, 's, 'c) manager \<Rightarrow> 'c object \<Rightarrow> 'c object" where
  "RemoveCABundleFromCRD m ob = (if isCRDWithInvalidCABundle m ob then RemoveNestedField m ob caBundlePath else ob)"

definition shouldForceApply ::
  "('r, 'l, 'p, 's, 'c) manager \<Rightarrow> 'c object \<Rightarrow> 'c object \<Rightarrow> ApplyOptions \<Rightarrow> apierror \<Rightarrow> bool" where
  "shouldForceApply m desired existing opts err =
     (if IsImmutableError err then
        (if Force opts \<or> AnyInMetadata (folding m) desired (ForceSelector opts) \<or>
            AnyInMetadata (folding m) existing (ForceSelector opts) then True else False)
      else False)"

definition shouldSkipApply ::
  "('r, 'l, 'p, 's, 'c) manager \<Rightarrow> 'c object \<Rightarrow> 'c object \<Rightarrow> ApplyOptions \<Rightarrow> ChangeSetEntry option" where
  "shouldSkipApply m desired existing opts =
     (let source = (if uUID existing \<noteq> [] then existing else desired) in
      if AnyInMetadata (folding m) desired (ExclusionSelector opts) \<or> AnyInMetadata (folding m) existing (ExclusionSelector opts)
      then Some (changeSetEntry source SkippedAction)
      else if uUID existing \<noteq> [] \<and> AnyInMetadata (folding m) desired (IfNotPresentSelector opts)
      then Some (changeSetEntry source SkippedAction)
      else None)"

definition migrateAPIVersion ::
  "('r, 'l, 'p, 's, 'c) manager \<Rightarrow> 'c object \<Rightarrow> string \<Rightarrow> ('c log, 'c failure + bool \<times> 'c object) state" where
  "migrateAPIVersion m existing desiredAPIVersion =
     (case PatchMigrateToVersion existing desiredAPIVersion of
        Inl e \<Rightarrow> State_Monad.return (Inl (Failed (''failed to create patch for migrating managed fields API version: '' @ e)))
      | Inr patch \<Rightarrow>
          if length patch = 0 then State_Monad.return (Inr (False, existing))
          else do {
            r \<leftarrow> patchObject m existing patch;
            State_Monad.return (case r of
              Inl e \<Rightarrow> Inl (Failed (''failed to migrate managed fields API version to '' @ desiredAPIVersion @ '': '' @ eMessage e))
            | Inr x \<Rightarrow> Inr (True, x))
          })"

definition cleanupPatches ::
  "('r, 'l, 'p, 's, 'c) manager \<Rightarrow> 'c object \<Rightarrow> ApplyCleanupOptions \<Rightarrow> string + string JSONPatch list" where
  "cleanupPatches m ob opts =
     (let patches = (if length (cAnnotations opts) > 0 then PatchRemoveAnnotations ob (cAnnotations opts) else []) @
                    (if length (cLabels opts) > 0 then PatchRemoveLabels ob (cLabels opts) else [])
      in if length (cFieldManagers opts) > 0 then
           (case PatchReplaceFieldsManagers (fieldsets m) ob (cFieldManagers opts) (Field (owner m)) of
              Inl e \<Rightarrow> Inl e
            | Inr ps \<Rightarrow> Inr (patches @ ps))
         else Inr patches)"

definition cleanupMetadata ::
  "('r, 'l, 'p, 's, 'c) manager \<Rightarrow> 'c object \<Rightarrow> 'c object \<Rightarrow> ApplyCleanupOptions \<Rightarrow>
     ('c log, 'c failure + bool \<times> 'c object) state" where
  "cleanupMetadata m desired ob opts =
     (if AnyInMetadata (folding m) desired (cExclusions opts) \<or> AnyInMetadata (folding m) ob (cExclusions opts)
      then State_Monad.return (Inr (False, ob))
      else
        (case cleanupPatches m ob opts of
           Inl e \<Rightarrow> State_Monad.return (Inl (Failed e))
         | Inr patches \<Rightarrow>
             if length patches = 0 then State_Monad.return (Inr (False, ob))
             else do {
               r \<leftarrow> patchObject m ob patches;
               State_Monad.return (case r of Inl e \<Rightarrow> Inl (Failed (eMessage e)) | Inr x \<Rightarrow> Inr (True, x))
             }))"

definition prepareObjectForDiff :: "('r, 'l, 'p, 's, 'c) manager \<Rightarrow> 'c object \<Rightarrow> 'c object" where
  "prepareObjectForDiff m ob =
     (let deepCopy = RemoveNestedField m (RemoveNestedField m ob [''metadata'']) [''status''] in
      case DryRunUnstructured m deepCopy of Inl _ \<Rightarrow> ob | Inr x \<Rightarrow> x)"

definition hasObjectDrifted :: "('r, 'l, 'p, 's, 'c) manager \<Rightarrow> 'c object \<Rightarrow> 'c object \<Rightarrow> bool" where
  "hasObjectDrifted m existing dryRun \<longleftrightarrow> \<not> EqualObjects m (prepareObjectForDiff m dryRun) (prepareObjectForDiff m existing)"

definition hasDrifted :: "('r, 'l, 'p, 's, 'c) manager \<Rightarrow> 'c object \<Rightarrow> 'c object \<Rightarrow> bool" where
  "hasDrifted m existing dryRun =
     (if uResourceVersion dryRun = [] then True
      else if \<not> EqualMaps m (uLabels dryRun) (uLabels existing) then True
      else if \<not> EqualMaps m (uAnnotations dryRun) (uAnnotations existing) then True
      else hasObjectDrifted m dryRun existing)"

definition hasDriftedWithIgnore ::
  "('r, 'l, 'p, 's, 'c) manager \<Rightarrow> 'c object \<Rightarrow> 'c object \<Rightarrow> ('r, 'l) CompiledIgnoreRules option \<Rightarrow> (string + bool) option" where
  "hasDriftedWithIgnore m existing dryRun compiled =
     (case compiled of
        None \<Rightarrow> Some (Inr (hasDrifted m existing dryRun))
      | Some rules \<Rightarrow>
          (case removeIgnoredFields (driftLib m) dryRun existing rules of
             None \<Rightarrow> None
           | Some (Inl e) \<Rightarrow> Some (Inl e)
           | Some (Inr existingCopy) \<Rightarrow>
               (case removeIgnoredFields (driftLib m) dryRun dryRun rules of
                  None \<Rightarrow> None
                | Some (Inl e) \<Rightarrow> Some (Inl e)
                | Some (Inr dryRunCopy) \<Rightarrow> Some (Inr (hasDrifted m existingCopy dryRunCopy)))))"

section \<open>Applying one object\<close>

definition wrapFailure :: "string \<Rightarrow> ('s, 'c failure + 'a) state \<Rightarrow> ('s, 'c failure + 'a) state" where
  "wrapFailure msg m = do {
     r \<leftarrow> m;
     State_Monad.return (case r of Inl Panic \<Rightarrow> Inl Panic | Inl f \<Rightarrow> Inl (Failed (msg @ '': '' @ failureError f)) | Inr x \<Rightarrow> Inr x)
   }"

definition migrateIfAsked ::
  "('r, 'l, 'p, 's, 'c) manager \<Rightarrow> ApplyOptions \<Rightarrow> apierror option \<Rightarrow> 'c object \<Rightarrow> 'c object \<Rightarrow>
     ('c log, 'c failure + bool \<times> 'c object) state" where
  "migrateIfAsked m opts getError ob existing =
     (if MigrateAPIVersion opts \<and> getError = None
      then wrapFailure (FmtUnstructured existing @ '' failed to migrate API version'') (migrateAPIVersion m existing (uAPIVersion ob))
      else State_Monad.return (Inr (False, existing)))"

definition compileIfAsked :: "('r, 'l, 'p, 's, 'c) manager \<Rightarrow> IgnoreRule list \<Rightarrow> string + ('r, 'l) CompiledIgnoreRules option" where
  "compileIfAsked m rules =
     (if length rules > 0 then (case CompileIgnoreRules (driftLib m) rules of Inl e \<Rightarrow> Inl e | Inr c \<Rightarrow> Inr (Some c)) else Inr None)"

definition driftResult ::
  "('r, 'l, 'p, 's, 'c) manager \<Rightarrow> ('r, 'l) CompiledIgnoreRules option \<Rightarrow> 'c object \<Rightarrow> 'c object \<Rightarrow> driftEntry list option" where
  "driftResult m compiled existing dryRun =
     (case compiled of
        None \<Rightarrow> Some []
      | Some rules \<Rightarrow> computeDriftedPaths (driftLib m) existing dryRun rules (Field (owner m)))"

datatype 'c attempt = Again | Return "'c failure + ChangeSetEntry"

text \<open>Everything after a dry run that succeeded.\<close>

definition applyAfterDryRun ::
  "('r, 'l, 'p, 's, 'c) manager \<Rightarrow> ApplyOptions \<Rightarrow> 'c object \<Rightarrow> 'c object \<Rightarrow> 'c object \<Rightarrow> bool \<Rightarrow>
     ('c log, 'c failure + ChangeSetEntry) state" where
  "applyAfterDryRun m opts ob existing dryRun patched =
     tryS (wrapFailure (FmtUnstructured existing @ '' metadata.managedFields cleanup failed'') (cleanupMetadata m ob existing (Cleanup opts)))
       (\<lambda>(patchedCleanup, existing).
     tryS (liftP (Some (if uResourceVersion existing \<noteq> [] then compileIfAsked m (DriftIgnoreRules opts) else Inr None)))
       (\<lambda>compiled.
     tryS (liftP (hasDriftedWithIgnore m existing dryRun compiled))
       (\<lambda>drifted.
     if \<not> (patched \<or> patchedCleanup) \<and> \<not> drifted then State_Monad.return (Inr (changeSetEntry ob UnchangedAction))
     else
       tryS (liftP (map_option Inr (driftResult m compiled existing dryRun)))
         (\<lambda>dr.
       tryS (liftP (Some (applyDriftResult (driftLib m) ob dr)))
         (\<lambda>applied. do {
           r \<leftarrow> applyObject m applied;
           State_Monad.return (case r of
             Inl e \<Rightarrow> Inl (Failed (FmtUnstructured applied @ '' apply failed: '' @ eMessage e))
           | Inr x \<Rightarrow> Inr (changeSetEntry x (if uResourceVersion dryRun = [] then CreatedAction else ConfiguredAction)))
         })))))"

definition attemptApply ::
  "('r, 'l, 'p, 's, 'c) manager \<Rightarrow> 'c object \<Rightarrow> ApplyOptions \<Rightarrow> ('c log, 'c attempt) state" where
  "attemptApply m ob opts = do {
     (getError, existing) \<leftarrow> getInto m ob (newExisting m ob);
     case shouldSkipApply m ob existing opts of
       Some entry \<Rightarrow> State_Monad.return (Return (Inr entry))
     | None \<Rightarrow> do {
         r \<leftarrow> migrateIfAsked m opts getError ob existing;
         case r of
           Inl f \<Rightarrow> State_Monad.return (Return (Inl f))
         | Inr (patched, existing) \<Rightarrow> do {
             d \<leftarrow> dryRunApply m ob;
             case d of
               Inr dryRun \<Rightarrow> do {
                 x \<leftarrow> applyAfterDryRun m opts ob existing dryRun patched;
                 State_Monad.return (Return x)
               }
             | Inl err \<Rightarrow>
                 if \<not> isNotFound getError \<and> shouldForceApply m ob existing opts err then do {
                   del \<leftarrow> deleteObject m BackgroundPolicy existing;
                   State_Monad.return (case del of
                     Some e \<Rightarrow> if \<not> eNotFound e
                       then Return (Inl (Failed (FmtUnstructured ob @ '' immutable field detected, failed to delete object: '' @ eMessage e)))
                       else Again
                   | None \<Rightarrow> Again)
                 }
                 else State_Monad.return (Return (Inl (DryRunErr err (Some ob))))
           }
       }
   }"

text \<open>The recursion of \<open>Apply\<close> has no bound of its own: \<open>None\<close> is a call that never returns.\<close>

partial_function (option) ApplyOne ::
  "('r, 'l, 'p, 's, 'c) manager \<Rightarrow> 'c object \<Rightarrow> ApplyOptions \<Rightarrow> 'c log \<Rightarrow> (('c failure + ChangeSetEntry) \<times> 'c log) option" where
  "ApplyOne m ob opts calls =
     (case run_state (attemptApply m ob opts) calls of
        (Again, calls') \<Rightarrow> ApplyOne m ob opts calls'
      | (Return r, calls') \<Rightarrow> Some (r, calls'))"

declare ApplyOne.simps [code]

section \<open>Applying many objects\<close>

primrec pollDeleted ::
  "('r, 'l, 'p, 's, 'c) manager \<Rightarrow> 'c object \<Rightarrow> nat \<Rightarrow> 'c object \<Rightarrow> ('c log, string + 'c object) state" where
  "pollDeleted m ob 0 existing = do {
     (err, existing) \<leftarrow> getInto m ob existing;
     calls \<leftarrow> State_Monad.get;
     State_Monad.return (case err of
       None \<Rightarrow> Inl (sContextErr m calls)
     | Some e \<Rightarrow> if eNotFound e then Inr existing else Inl (eMessage e))
   }"
| "pollDeleted m ob (Suc n) existing = do {
     (err, existing) \<leftarrow> getInto m ob existing;
     case err of
       None \<Rightarrow> pollDeleted m ob n existing
     | Some e \<Rightarrow> State_Monad.return (if eNotFound e then Inr existing else Inl (eMessage e))
   }"

text \<open>The dry run, with the recreation of an object that cannot be changed. The target of the \<open>Get\<close> calls keeps the object that was deleted.\<close>

definition dryRunOrRecreate ::
  "('r, 'l, 'p, 's, 'c) manager \<Rightarrow> ApplyOptions \<Rightarrow> apierror option \<Rightarrow> 'c object \<Rightarrow> 'c object \<Rightarrow>
     ('c log, 'c failure + 'c object \<times> 'c object) state" where
  "dryRunOrRecreate m opts getError ob existing = do {
     d \<leftarrow> dryRunApply m ob;
     case d of
       Inr dryRun \<Rightarrow> State_Monad.return (Inr (existing, dryRun))
     | Inl err \<Rightarrow>
         if \<not> isNotFound getError \<and> shouldForceApply m ob existing opts err then do {
           del \<leftarrow> deleteObject m BackgroundPolicy existing;
           if \<not> (case del of None \<Rightarrow> True | Some e \<Rightarrow> eNotFound e) then
             State_Monad.return (Inl (Failed (FmtUnstructured ob @ '' immutable field detected, failed to delete object: '' @ eMessage (the del))))
           else do {
             calls \<leftarrow> State_Monad.get;
             w \<leftarrow> pollDeleted m ob (sPolls m calls) existing;
             case w of
               Inl e \<Rightarrow> State_Monad.return
                 (Inl (Failed (FmtUnstructured ob @ '' immutable field detected, failed to wait for object to be deleted: '' @ e)))
             | Inr existing \<Rightarrow> do {
                 d2 \<leftarrow> dryRunApply m ob;
                 State_Monad.return (case d2 of Inl err2 \<Rightarrow> Inl (DryRunErr err2 (Some ob)) | Inr dryRun \<Rightarrow> Inr (existing, dryRun))
               }
           }
         }
         else State_Monad.return (Inl (DryRunErr err (Some ob)))
   }"

record 'c planned =
  pObject :: "'c object"
  pApply :: bool
  pDrift :: "driftEntry list"
  pChange :: ChangeSetEntry

definition checkAfterDryRun ::
  "('r, 'l, 'p, 's, 'c) manager \<Rightarrow> ApplyOptions \<Rightarrow> ('r, 'l) CompiledIgnoreRules option \<Rightarrow> 'c object \<Rightarrow> bool \<Rightarrow> 'c object \<Rightarrow> 'c object \<Rightarrow>
     ('c log, 'c failure + 'c planned) state" where
  "checkAfterDryRun m opts compiled ob patched existing dryRun =
     tryS (wrapFailure (FmtUnstructured existing @ '' metadata.managedFields cleanup failed'') (cleanupMetadata m ob existing (Cleanup opts)))
       (\<lambda>(patchedCleanup, existing).
     tryS (liftP (hasDriftedWithIgnore m existing dryRun compiled))
       (\<lambda>drifted.
     if (patched \<or> patchedCleanup) \<or> drifted then
       tryS (liftP (map_option Inr (if uResourceVersion existing \<noteq> [] then driftResult m compiled existing dryRun else Some [])))
         (\<lambda>dr. State_Monad.return (Inr \<lparr>pObject = ob, pApply = True, pDrift = dr,
           pChange = changeSetEntry dryRun (if uResourceVersion dryRun = [] then CreatedAction else ConfiguredAction)\<rparr>))
     else
       State_Monad.return (Inr \<lparr>pObject = ob, pApply = False, pDrift = [], pChange = changeSetEntry dryRun UnchangedAction\<rparr>)))"

definition checkObject ::
  "('r, 'l, 'p, 's, 'c) manager \<Rightarrow> ApplyOptions \<Rightarrow> ('r, 'l) CompiledIgnoreRules option \<Rightarrow> 'c object \<Rightarrow>
     ('c log, 'c failure + 'c planned) state" where
  "checkObject m opts compiled ob0 =
     (let ob = RemoveCABundleFromCRD m ob0 in do {
        (getError, existing) \<leftarrow> getInto m ob (newExisting m ob);
        case shouldSkipApply m ob existing opts of
          Some entry \<Rightarrow> State_Monad.return (Inr \<lparr>pObject = ob, pApply = False, pDrift = [], pChange = entry\<rparr>)
        | None \<Rightarrow>
            tryS (migrateIfAsked m opts getError ob existing) (\<lambda>(patched, existing).
            tryS (dryRunOrRecreate m opts getError ob existing) (\<lambda>(existing, dryRun).
            checkAfterDryRun m opts compiled ob patched existing dryRun))
      })"

text \<open>The error group: every check runs, the first error cancels the context and is the one returned.\<close>

primrec checkAll ::
  "('r, 'l, 'p, 's, 'c) manager \<Rightarrow> ApplyOptions \<Rightarrow> ('r, 'l) CompiledIgnoreRules option \<Rightarrow> 'c object list \<Rightarrow> 'c failure option \<Rightarrow>
     'c planned list \<Rightarrow> ('c log, 'c failure + 'c planned list) state" where
  "checkAll m opts compiled [] failed acc =
     State_Monad.return (case failed of Some f \<Rightarrow> Inl f | None \<Rightarrow> Inr acc)"
| "checkAll m opts compiled (ob # obs) failed acc = do {
     r \<leftarrow> checkObject m opts compiled ob;
     case r of
       Inr p \<Rightarrow> checkAll m opts compiled obs failed (acc @ [p])
     | Inl Panic \<Rightarrow> State_Monad.return (Inl Panic)
     | Inl f \<Rightarrow>
         (case failed of
            Some f0 \<Rightarrow> checkAll m opts compiled obs (Some f0) acc
          | None \<Rightarrow> do {
              _ \<leftarrow> askServer CCancel (\<lambda>_. ());
              checkAll m opts compiled obs (Some f) acc
            })
   }"

definition plannedPayload :: "('r, 'l, 'p, 's, 'c) manager \<Rightarrow> 'c planned \<Rightarrow> string + 'c object" where
  "plannedPayload m p =
     (if EAction (pChange p) \<noteq> CreatedAction \<and> length (pDrift p) > 0 then applyDriftResult (driftLib m) (pObject p) (pDrift p)
      else Inr (pObject p))"

primrec applyPlanned ::
  "('r, 'l, 'p, 's, 'c) manager \<Rightarrow> 'c planned list \<Rightarrow> ('c log, 'c failure + unit) state" where
  "applyPlanned m [] = State_Monad.return (Inr ())"
| "applyPlanned m (p # ps) =
     (if \<not> pApply p then applyPlanned m ps
      else
        tryS (liftP (Some (plannedPayload m p))) (\<lambda>applied. do {
          r \<leftarrow> applyObject m applied;
          case r of
            Inl e \<Rightarrow> State_Monad.return (Inl (Failed (FmtUnstructured applied @ '' apply failed: '' @ eMessage e)))
          | Inr _ \<Rightarrow> applyPlanned m ps
        }))"

definition ApplyAll ::
  "('r, 'l, 'p, 's, 'c) manager \<Rightarrow> 'c object list \<Rightarrow> ApplyOptions \<Rightarrow> ('c log, 'c failure + ChangeSet) state" where
  "ApplyAll m objects opts =
     tryS (liftP (Some (compileIfAsked m (DriftIgnoreRules opts)))) (\<lambda>compiled.
     tryS (checkAll m opts compiled (sort_Slice objectLess objects) None []) (\<lambda>ps.
     tryS (applyPlanned m ps) (\<lambda>_.
       State_Monad.return (Inr (ChangeSet_Append (map pChange ps) NewChangeSet)))))"

definition WaitForSet ::
  "('r, 'l, 'p, 's, 'c) manager \<Rightarrow> ObjMetadata list \<Rightarrow> int \<Rightarrow> int \<Rightarrow> ('c log, string option) state" where
  "WaitForSet m ids interval timeout =
     (if length ids = 0 then State_Monad.return None
      else askServer (CWait ids interval timeout) (\<lambda>calls. sWait m calls ids interval timeout))"

datatype apply_stage = DefStage | ClassStage | CustomStage | ResStage

definition stageOf :: "('r, 'l, 'p, 's, 'c) manager \<Rightarrow> ApplyOptions \<Rightarrow> 'c object \<Rightarrow> apply_stage" where
  "stageOf m opts ob =
     (if IsClusterDefinition (tables m) ob then DefStage
      else if IsClassDefinition ob then ClassStage
      else if IsCustomStage ob (CustomStageKinds opts) then CustomStage
      else ResStage)"

text \<open>A stage: apply, append the changes, and for the definitions wait. The error comes with the change set so far.\<close>

definition applyStage ::
  "('r, 'l, 'p, 's, 'c) manager \<Rightarrow> ApplyOptions \<Rightarrow> bool \<Rightarrow> 'c object list \<Rightarrow> ChangeSet \<Rightarrow>
     ('c log, 'c failure option \<times> ChangeSet) state" where
  "applyStage m opts waits objects changeSet = do {
     r \<leftarrow> ApplyAll m objects opts;
     case r of
       Inl f \<Rightarrow> State_Monad.return (Some f, changeSet)
     | Inr cs \<Rightarrow>
         if waits then do {
           w \<leftarrow> WaitForSet m (ToObjMetadataSet cs) (WaitInterval opts) (WaitTimeout opts);
           State_Monad.return (map_option Failed w, ChangeSet_Append cs changeSet)
         }
         else State_Monad.return (None, ChangeSet_Append cs changeSet)
   }"

definition ApplyAllStaged ::
  "('r, 'l, 'p, 's, 'c) manager \<Rightarrow> 'c object list \<Rightarrow> ApplyOptions \<Rightarrow> ('c log, 'c failure option \<times> ChangeSet) state" where
  "ApplyAllStaged m objects opts =
     (let defStage = filter (\<lambda>ob. stageOf m opts ob = DefStage) objects;
          classStage = filter (\<lambda>ob. stageOf m opts ob = ClassStage) objects;
          customStage = filter (\<lambda>ob. stageOf m opts ob = CustomStage) objects;
          resStage = filter (\<lambda>ob. stageOf m opts ob = ResStage) objects
      in do {
        (e1, cs1) \<leftarrow> if length defStage > 0 then applyStage m opts True defStage NewChangeSet else State_Monad.return (None, NewChangeSet);
        if e1 \<noteq> None then State_Monad.return (e1, cs1) else do {
          (e2, cs2) \<leftarrow> if length classStage > 0 then applyStage m opts True classStage cs1 else State_Monad.return (None, cs1);
          if e2 \<noteq> None then State_Monad.return (e2, cs2) else do {
            (e3, cs3) \<leftarrow> if length customStage > 0 then applyStage m opts False customStage cs2 else State_Monad.return (None, cs2);
            if e3 \<noteq> None then State_Monad.return (e3, cs3) else applyStage m opts False resStage cs3
          }
        }
      })"

section \<open>Diff\<close>

definition shouldSkipDiff :: "('r, 'l, 'p, 's, 'c) manager \<Rightarrow> 'c object \<Rightarrow> 'c object \<Rightarrow> DiffOptions \<Rightarrow> bool" where
  "shouldSkipDiff m desired existing opts =
     (if AnyInMetadata (folding m) desired (dExclusions opts) \<or> AnyInMetadata (folding m) existing (dExclusions opts) then True
      else if uUID existing \<noteq> [] \<and> AnyInMetadata (folding m) desired (dIfNotPresentSelector opts) then True
      else False)"

definition stripIgnored ::
  "('r, 'l, 'p, 's, 'c) manager \<Rightarrow> ('r, 'l) CompiledIgnoreRules option \<Rightarrow> 'c object \<Rightarrow> 'c object \<Rightarrow>
     (string + 'c object \<times> 'c object) option" where
  "stripIgnored m compiled existing dryRun =
     (case compiled of
        None \<Rightarrow> Some (Inr (existing, dryRun))
      | Some rules \<Rightarrow>
          (case removeIgnoredFields (driftLib m) dryRun existing rules of
             None \<Rightarrow> None
           | Some (Inl e) \<Rightarrow> Some (Inl e)
           | Some (Inr existing') \<Rightarrow>
               (case removeIgnoredFields (driftLib m) dryRun dryRun rules of
                  None \<Rightarrow> None
                | Some (Inl e) \<Rightarrow> Some (Inl e)
                | Some (Inr dryRun') \<Rightarrow> Some (Inr (existing', dryRun')))))"

definition maskSecret ::
  "('r, 'l, 'p, 's, 'c) manager \<Rightarrow> 'c object \<Rightarrow> 'c object \<Rightarrow> (string + 'c object option \<times> 'c object option) option" where
  "maskSecret m existing dryRun =
     (if IsSecret (tables m) dryRun then SanitizeUnstructuredData (nestedMaps m) (Some existing) (Some dryRun)
      else Some (Inr (Some existing, Some dryRun)))"

definition Diff ::
  "('r, 'l, 'p, 's, 'c) manager \<Rightarrow> 'c object \<Rightarrow> DiffOptions \<Rightarrow>
     ('c log, 'c failure + ChangeSetEntry \<times> 'c object option \<times> 'c object option) state" where
  "Diff m ob0 opts =
     (let ob = RemoveCABundleFromCRD m ob0 in do {
        (_, existing) \<leftarrow> getInto m ob (newExisting m ob);
        if shouldSkipDiff m ob existing opts then State_Monad.return (Inr (changeSetEntry existing SkippedAction, None, None))
        else do {
          d \<leftarrow> dryRunApply m ob;
          case d of
            Inl err \<Rightarrow> State_Monad.return
              (if shouldForceApply m ob existing (emptyApplyOptions\<lparr>Force := dForce opts, ForceSelector := dForceSelector opts\<rparr>) err
               then Inr (changeSetEntry ob CreatedAction, None, None)
               else Inl (DryRunErr err (Some ob)))
          | Inr dryRun \<Rightarrow>
              if uResourceVersion dryRun = [] then State_Monad.return (Inr (changeSetEntry dryRun CreatedAction, None, None))
              else
                tryS (liftP (Some (compileIfAsked m (dDriftIgnoreRules opts)))) (\<lambda>compiled.
                tryS (liftP (hasDriftedWithIgnore m existing dryRun compiled)) (\<lambda>drifted.
                if drifted then
                  tryS (liftP (stripIgnored m compiled (RemoveNestedField m existing [''metadata'', ''managedFields''])
                    (RemoveNestedField m dryRun [''metadata'', ''managedFields'']))) (\<lambda>(existing', dryRun').
                  tryS (liftP (maskSecret m existing' dryRun')) (\<lambda>(e, d).
                    State_Monad.return (Inr (changeSetEntry ob ConfiguredAction, e, d))))
                else State_Monad.return (Inr (changeSetEntry dryRun UnchangedAction, None, None))))
        }
      })"

section \<open>Deleting\<close>

definition DeleteOb ::
  "('r, 'l, 'p, 's, 'c) manager \<Rightarrow> 'c object \<Rightarrow> DeleteOptions \<Rightarrow> ('c log, ChangeSetEntry \<times> string option) state" where
  "DeleteOb m ob opts = do {
     (err, existing) \<leftarrow> getInto m ob (newExisting m ob);
     case err of
       Some e \<Rightarrow> State_Monad.return
         (if \<not> eNotFound e then (changeSetEntry ob UnknownAction, Some (FmtUnstructured ob @ '' query failed: '' @ eMessage e))
          else (changeSetEntry ob DeletedAction, None))
     | None \<Rightarrow>
         (case SelectorMatches m (Inclusions opts) (uLabels existing) of
            Inl e \<Rightarrow> State_Monad.return (changeSetEntry ob UnknownAction, Some (FmtUnstructured ob @ '' label selector failed: '' @ e))
          | Inr False \<Rightarrow> State_Monad.return (changeSetEntry ob SkippedAction, None)
          | Inr True \<Rightarrow>
              if AnyInMetadata (folding m) existing (Exclusions opts) then State_Monad.return (changeSetEntry ob SkippedAction, None)
              else do {
                d \<leftarrow> deleteObject m (PropagationPolicy opts) existing;
                State_Monad.return (case d of
                  Some e \<Rightarrow> (changeSetEntry ob UnknownAction, Some (FmtUnstructured ob @ '' delete failed: '' @ eMessage e))
                | None \<Rightarrow> (changeSetEntry ob DeletedAction, None))
              })
   }"

primrec deleteLoop ::
  "('r, 'l, 'p, 's, 'c) manager \<Rightarrow> DeleteOptions \<Rightarrow> 'c object list \<Rightarrow> ChangeSet \<Rightarrow> string \<Rightarrow> ('c log, ChangeSet \<times> string) state" where
  "deleteLoop m opts [] changeSet errs = State_Monad.return (changeSet, errs)"
| "deleteLoop m opts (ob # obs) changeSet errs = do {
     (cse, err) \<leftarrow> DeleteOb m ob opts;
     deleteLoop m opts obs (ChangeSet_Add cse changeSet) (case err of Some e \<Rightarrow> errs @ e @ '';'' | None \<Rightarrow> errs)
   }"

definition DeleteAll ::
  "('r, 'l, 'p, 's, 'c) manager \<Rightarrow> 'c object list \<Rightarrow> DeleteOptions \<Rightarrow> ('c log, ChangeSet \<times> string option) state" where
  "DeleteAll m objects opts = do {
     (changeSet, errs) \<leftarrow> deleteLoop m opts (sort_Slice (\<lambda>a b. objectLess b a) objects) NewChangeSet [];
     State_Monad.return (changeSet, if errs \<noteq> [] then Some (''delete failed, errors: '' @ errs) else None)
   }"

section \<open>Waiting for termination\<close>

primrec pollTerminated :: "('r, 'l, 'p, 's, 'c) manager \<Rightarrow> 'c object \<Rightarrow> nat \<Rightarrow> ('c log, string option) state" where
  "pollTerminated m ob 0 = do {
     (err, _) \<leftarrow> getInto m ob ob;
     calls \<leftarrow> State_Monad.get;
     State_Monad.return (if isNotFound err then None else case err of Some e \<Rightarrow> Some (eMessage e) | None \<Rightarrow> Some (sContextErr m calls))
   }"
| "pollTerminated m ob (Suc n) = do {
     (err, _) \<leftarrow> getInto m ob ob;
     if isNotFound err then State_Monad.return None
     else case err of Some e \<Rightarrow> State_Monad.return (Some (eMessage e)) | None \<Rightarrow> pollTerminated m ob n
   }"

primrec WaitForTermination :: "('r, 'l, 'p, 's, 'c) manager \<Rightarrow> 'c object list \<Rightarrow> ('c log, string option) state" where
  "WaitForTermination m [] = State_Monad.return None"
| "WaitForTermination m (ob # obs) = do {
     calls \<leftarrow> State_Monad.get;
     r \<leftarrow> pollTerminated m ob (sPolls m calls);
     case r of
       Some e \<Rightarrow> State_Monad.return (Some (FmtUnstructured ob @ '' termination timeout: '' @ e))
     | None \<Rightarrow> WaitForTermination m obs
   }"

definition terminationTarget :: "('r, 'l, 'p, 's, 'c) manager \<Rightarrow> ChangeSetEntry \<Rightarrow> 'c object" where
  "terminationTarget m entry =
     (let md = EObjMetadata entry; g = Group (GroupKind md) in
      \<lparr>uAPIVersion = (if g = [] then GroupVersion entry else g @ ''/'' @ GroupVersion entry), uKind = Kind (GroupKind md),
       uGVK = (g, GroupVersion entry, Kind (GroupKind md)), uNamespace = Namespace md, uName = Name md,
       uUID = [], uResourceVersion = [], uLabels = [], uAnnotations = [], uManagedFields = [], uContent = zeroContent m\<rparr>)"

definition WaitForSetTermination ::
  "('r, 'l, 'p, 's, 'c) manager \<Rightarrow> ChangeSet option \<Rightarrow> ('c log, string option) state" where
  "WaitForSetTermination m cs =
     (case cs of
        None \<Rightarrow> State_Monad.return None
      | Some es \<Rightarrow>
          if length es = 0 then State_Monad.return None
          else
            let objects = map (terminationTarget m) (filter (\<lambda>e. EAction e = DeletedAction) es) in
            if length objects = 0 then State_Monad.return None else WaitForTermination m objects)"

end
