(* ===== verification/Ssa_Calls.thy ===== *)
theory Ssa_Calls
  imports Ssa_Apply
begin

text \<open>
  Which calls the resource manager makes, and when. \<open>safe J f\<close> says that \<open>f\<close> only adds calls to the log and that \<open>J\<close> holds of each with the log
  before it; the rules for it go through the operations of the manager one by one.
\<close>

named_theorems safe_intros

definition safe_at :: "('c log \<Rightarrow> 'c call \<Rightarrow> bool) \<Rightarrow> ('c log, 'a) state \<Rightarrow> 'c log \<Rightarrow> bool" where
  "safe_at J f l \<longleftrightarrow> (\<exists>new. snd (run_state f l) = l @ new \<and> (\<forall>pre c post. new = pre @ c # post \<longrightarrow> J (l @ pre) c))"

definition safe :: "('c log \<Rightarrow> 'c call \<Rightarrow> bool) \<Rightarrow> ('c log, 'a) state \<Rightarrow> bool" where
  "safe J f \<longleftrightarrow> (\<forall>l. safe_at J f l)"

lemma run_return [simp]: "run_state (State_Monad.return x) l = (x, l)"
  by (simp add: State_Monad.return_def)

lemma run_get [simp]: "run_state State_Monad.get l = (l, l)"
  by (simp add: State_Monad.get_def)

lemma run_bind [simp]: "run_state (State_Monad.bind f g) l = (let (x, l') = run_state f l in run_state (g x) l')"
  by (simp add: State_Monad.bind_def case_prod_beta Let_def)

lemma run_request [simp]: "run_state (askServer c answer) l = (answer l, l @ [c])"
  by (simp add: askServer_def)

lemma run_tryS: "run_state (tryS f g) l =
    (case run_state f l of (Inl e, l') \<Rightarrow> (Inl e, l') | (Inr x, l') \<Rightarrow> run_state (g x) l')"
  by (simp add: tryS_def Let_def case_prod_beta split: sum.split)

lemma run_liftP [simp]:
  "run_state (liftP r) l = (case r of None \<Rightarrow> Inl Panic | Some (Inl e) \<Rightarrow> Inl (Failed e) | Some (Inr x) \<Rightarrow> Inr x, l)"
  by (simp add: liftP_def)

lemma safe_return [safe_intros]: "safe J (State_Monad.return x)"
  by (simp add: safe_def safe_at_def)

lemma safe_liftP [safe_intros]: "safe J (liftP r)"
  by (simp add: safe_def safe_at_def)

lemma safe_at_request: "J l c \<Longrightarrow> safe_at J (askServer c answer) l"
  by (auto simp: safe_at_def Cons_eq_append_conv)

lemma safe_request [safe_intros]: "(\<And>l. J l c) \<Longrightarrow> safe J (askServer c answer)"
  by (simp add: safe_def safe_at_request)

lemma split_at_boundary:
  assumes "xs @ ys = pre @ c # post"
  shows "(\<exists>post'. xs = pre @ c # post') \<or> (\<exists>pre'. pre = xs @ pre' \<and> ys = pre' @ c # post)"
  using assms by (auto simp: append_eq_append_conv2 append_eq_Cons_conv Cons_eq_append_conv)

lemma safe_at_bind:
  assumes "safe_at J f l" "\<And>x l'. run_state f l = (x, l') \<Longrightarrow> safe_at J (g x) l'"
  shows "safe_at J (State_Monad.bind f g) l"
proof -
  obtain x l' where r: "run_state f l = (x, l')" by fastforce
  obtain n1 where n1: "l' = l @ n1" "\<And>pre c post. n1 = pre @ c # post \<Longrightarrow> J (l @ pre) c"
    using assms(1) r unfolding safe_at_def by auto
  obtain n2 where n2: "snd (run_state (g x) l') = l' @ n2" "\<And>pre c post. n2 = pre @ c # post \<Longrightarrow> J (l' @ pre) c"
    using assms(2) [OF r] unfolding safe_at_def by auto
  have "J (l @ pre) c" if "n1 @ n2 = pre @ c # post" for pre c post
    using split_at_boundary [OF that] n1 n2(2) by auto
  then show ?thesis using r n1(1) n2(1) unfolding safe_at_def by (intro exI [of _ "n1 @ n2"]) simp
qed

lemma safe_bind [safe_intros]: "safe J f \<Longrightarrow> (\<And>x. safe J (g x)) \<Longrightarrow> safe J (State_Monad.bind f g)"
  unfolding safe_def by (intro allI safe_at_bind) simp_all

lemma safe_bind_at: "safe J f \<Longrightarrow> (\<And>l x l'. run_state f l = (x, l') \<Longrightarrow> safe_at J (g x) l') \<Longrightarrow> safe J (State_Monad.bind f g)"
  unfolding safe_def by (intro allI safe_at_bind) simp_all

lemma safe_D: "safe J f \<Longrightarrow> safe_at J f l"
  by (simp add: safe_def)

lemma safe_get [safe_intros]: "safe J State_Monad.get"
  by (simp add: safe_def safe_at_def)

lemma safe_tryS [safe_intros]: "safe J f \<Longrightarrow> (\<And>x. safe J (g x)) \<Longrightarrow> safe J (tryS f g)"
  unfolding tryS_def by (intro safe_intros) (auto split: sum.split intro: safe_intros)

lemma safe_wrap [safe_intros]: "safe J f \<Longrightarrow> safe J (wrapFailure msg f)"
  unfolding wrapFailure_def by (intro safe_intros)

lemma safe_if [safe_intros]: "(b \<Longrightarrow> safe J f) \<Longrightarrow> (\<not> b \<Longrightarrow> safe J g) \<Longrightarrow> safe J (if b then f else g)"
  by simp

lemma safe_option [safe_intros]:
  "(x = None \<Longrightarrow> safe J f) \<Longrightarrow> (\<And>y. x = Some y \<Longrightarrow> safe J (g y)) \<Longrightarrow> safe J (case x of None \<Rightarrow> f | Some y \<Rightarrow> g y)"
  by (cases x) auto

lemma safe_sum [safe_intros]:
  "(\<And>y. x = Inl y \<Longrightarrow> safe J (f y)) \<Longrightarrow> (\<And>y. x = Inr y \<Longrightarrow> safe J (g y)) \<Longrightarrow> safe J (case x of Inl y \<Rightarrow> f y | Inr y \<Rightarrow> g y)"
  by (cases x) auto

lemma safe_prod [safe_intros]: "(\<And>a b. x = (a, b) \<Longrightarrow> safe J (f a b)) \<Longrightarrow> safe J (case x of (a, b) \<Rightarrow> f a b)"
  by (cases x) auto

lemma safe_Let [safe_intros]: "(\<And>y. y = x \<Longrightarrow> safe J (f y)) \<Longrightarrow> safe J (let y = x in f y)"
  by simp

lemma safe_mono: "safe J f \<Longrightarrow> (\<And>l c. J l c \<Longrightarrow> K l c) \<Longrightarrow> safe K f"
  unfolding safe_def safe_at_def by meson

section \<open>The operations\<close>

definition kind_read :: "'c call \<Rightarrow> bool" where
  "kind_read c = (case c of CGet _ \<Rightarrow> True | CDryRun _ _ \<Rightarrow> True | _ \<Rightarrow> False)"

lemma safe_getInto [safe_intros]: "(\<And>l. J l (CGet (objectKey ob))) \<Longrightarrow> safe J (getInto m ob existing)"
  unfolding getInto_def by (intro safe_intros)

lemma safe_dryRunApply [safe_intros]: "(\<And>l. J l (CDryRun (Field (owner m)) ob)) \<Longrightarrow> safe J (dryRunApply m ob)"
  unfolding dryRunApply_def by (intro safe_intros)

lemma safe_applyObject [safe_intros]: "(\<And>l. J l (CApply (Field (owner m)) ob)) \<Longrightarrow> safe J (applyObject m ob)"
  unfolding applyObject_def by (intro safe_intros)

lemma safe_pollDeleted [safe_intros]: "(\<And>l. J l (CGet (objectKey ob))) \<Longrightarrow> safe J (pollDeleted m ob n existing)"
  by (induction n arbitrary: existing) (auto intro!: safe_intros)


section \<open>What applying may do\<close>

text \<open>The calls that a check may make: reads and dry runs, JSON patches of metadata, and the deletion of an object whose dry run has just been
  refused as an immutable change, if the options force its recreation.\<close>

definition mayCheck :: "('r, 'l, 'p, 's, 'c) manager \<Rightarrow> ApplyOptions \<Rightarrow> 'c log \<Rightarrow> 'c call \<Rightarrow> bool" where
  "mayCheck m opts pre c =
     (case c of
        CApply _ _ \<Rightarrow> False
      | CPatch ow _ ps \<Rightarrow> ow = Field (owner m) \<and> (\<forall>p \<in> set ps. HasPrefix (pPath p) ''/metadata/'')
      | CDelete policy ob \<Rightarrow>
          \<exists>pre' x err. pre = pre' @ [CDryRun (Field (owner m)) x] \<and> sDryRun m pre' (Field (owner m)) x = Inl err \<and> IsImmutableError err \<and>
            (Force opts \<or> AnyInMetadata (folding m) x (ForceSelector opts) \<or> AnyInMetadata (folding m) ob (ForceSelector opts))
      | _ \<Rightarrow> True)"

definition is_apply :: "'c call \<Rightarrow> bool" where
  "is_apply c = (case c of CApply _ _ \<Rightarrow> True | _ \<Rightarrow> False)"

definition mayCall :: "('r, 'l, 'p, 's, 'c) manager \<Rightarrow> ApplyOptions \<Rightarrow> 'c log \<Rightarrow> 'c call \<Rightarrow> bool" where
  "mayCall m opts pre c \<longleftrightarrow> mayCheck m opts pre c \<or> is_apply c"

lemma mayCheck_simps [simp]:
  "mayCheck m opts l (CGet k)" "mayCheck m opts l (CDryRun ow ob)" "mayCheck m opts l CCancel" "mayCheck m opts l (CWait ids i t)"
  "\<not> mayCheck m opts l (CApply ow ob)"
  "mayCheck m opts l (CPatch ow ob ps) \<longleftrightarrow> ow = Field (owner m) \<and> (\<forall>p \<in> set ps. HasPrefix (pPath p) ''/metadata/'')"
  by (simp_all add: mayCheck_def)

lemma mayCall_simps [simp]: "mayCheck m opts l c \<Longrightarrow> mayCall m opts l c" "mayCall m opts l (CApply ow ob)"
  by (simp_all add: mayCall_def is_apply_def)

lemma mayCheck_delete:
  "sDryRun m l (Field (owner m)) ob = Inl err \<Longrightarrow> shouldForceApply m ob existing opts err \<Longrightarrow>
    mayCheck m opts (l @ [CDryRun (Field (owner m)) ob]) (CDelete policy existing)"
  by (auto simp: mayCheck_def shouldForceApply_def split: if_splits)

lemma managedFields_metadata: "HasPrefix managedFieldsPath ''/metadata/''"
  by code_simp

lemma PatchMigrateToVersion_metadata:
  "PatchMigrateToVersion ob v = Inr ps \<Longrightarrow> p \<in> set ps \<Longrightarrow> HasPrefix (pPath p) ''/metadata/''"
  using managedFields_metadata by (auto simp: PatchMigrateToVersion_eq NewPatchReplace_def split: if_splits)

lemma cleanupPatches_metadata:
  assumes "cleanupPatches m ob opts = Inr ps" "p \<in> set ps"
  shows "HasPrefix (pPath p) ''/metadata/''"
proof -
  have "HasPrefix (pPath p) ''/metadata/''" if "p \<in> set (PatchRemoveAnnotations ob ks)" for ks
    using that by (auto simp: PatchRemoveAnnotations_def NewPatchRemove_def HasPrefix_def)
  moreover have "HasPrefix (pPath p) ''/metadata/''" if "p \<in> set (PatchRemoveLabels ob ks)" for ks
    using that by (auto simp: PatchRemoveLabels_def NewPatchRemove_def HasPrefix_def)
  moreover have "HasPrefix (pPath p) ''/metadata/''"
    if "PatchReplaceFieldsManagers lib ob ms name = Inr qs" "p \<in> set qs" for lib :: "(string, 's) fieldset_lib" and ms name qs
    using that managedFields_metadata
    by (auto simp: PatchReplaceFieldsManagers_def Let_def NewPatchReplace_def split: sum.splits if_splits)
  ultimately show ?thesis using assms by (auto simp: cleanupPatches_def Let_def split: if_splits sum.splits)
qed

lemma safe_patchObject [safe_intros]:
  "(\<And>l. J l (CPatch (Field (owner m)) ob ps)) \<Longrightarrow> safe J (patchObject m ob ps)"
  unfolding patchObject_def by (intro safe_intros)

lemma safe_migrate [safe_intros]: "safe (mayCheck m opts) (migrateIfAsked m opts' getError ob existing)"
  unfolding migrateIfAsked_def migrateAPIVersion_def
  by (intro safe_intros) (auto intro: PatchMigrateToVersion_metadata)

lemma safe_cleanup [safe_intros]: "safe (mayCheck m opts) (cleanupMetadata m ob existing c)"
  unfolding cleanupMetadata_def by (intro safe_intros) (auto intro: cleanupPatches_metadata)

lemma safe_delete_at:
  "J l (CDelete policy ob) \<Longrightarrow> (\<And>x. safe J (g x)) \<Longrightarrow> safe_at J (State_Monad.bind (deleteObject m policy ob) g) l"
  unfolding deleteObject_def by (intro safe_at_bind safe_at_request) (simp_all add: safe_D)

lemma safe_dryRunOrRecreate [safe_intros]: "safe (mayCheck m opts) (dryRunOrRecreate m opts getError ob existing)"
proof -
  have "safe_at (mayCheck m opts) (case d of
       Inr dryRun \<Rightarrow> State_Monad.return (Inr (existing, dryRun))
     | Inl err \<Rightarrow>
         if \<not> isNotFound getError \<and> shouldForceApply m ob existing opts err then do {
           del \<leftarrow> deleteObject m BackgroundPolicy existing;
           g del
         }
         else State_Monad.return (Inl (DryRunErr err (Some ob)))) l'"
    if "run_state (dryRunApply m ob) l = (d, l')" "\<And>x. safe (mayCheck m opts) (g x)" for d l l' g
    using that by (auto simp: dryRunApply_def intro!: safe_delete_at mayCheck_delete safe_D [OF safe_return] split: sum.split)
  note step = this
  show ?thesis
    unfolding dryRunOrRecreate_def
    by (intro safe_bind_at safe_dryRunApply step) (auto intro!: safe_intros)
qed

lemma safe_checkAfterDryRun [safe_intros]: "safe (mayCheck m opts) (checkAfterDryRun m opts compiled ob patched existing dryRun)"
  unfolding checkAfterDryRun_def by (intro safe_intros)

lemma safe_checkObject [safe_intros]: "safe (mayCheck m opts) (checkObject m opts compiled ob)"
  unfolding checkObject_def by (intro safe_intros) auto

lemma safe_checkAll [safe_intros]: "safe (mayCheck m opts) (checkAll m opts compiled obs failed acc)"
  by (induction obs arbitrary: failed acc) (auto intro!: safe_intros split: failure.split)

lemma safe_applyPlanned: "safe (\<lambda>_. is_apply) (applyPlanned m ps)"
  by (induction ps) (auto simp: is_apply_def intro!: safe_intros)

lemma safe_ApplyAll [safe_intros]: "safe (mayCall m opts) (ApplyAll m objects opts)"
  unfolding ApplyAll_def
  by (intro safe_intros safe_mono [OF safe_checkAll] safe_mono [OF safe_applyPlanned]) (simp_all add: mayCall_def)

lemma safe_ApplyAllStaged [safe_intros]: "safe (mayCall m opts) (ApplyAllStaged m objects opts)"
  unfolding ApplyAllStaged_def applyStage_def WaitForSet_def by (intro safe_intros) auto

end
