(* ===== verification/Ssa_Cluster.thy ===== *)
theory Ssa_Cluster
  imports Ssa_Calls
begin

text \<open>
  A small API server as an instance of the parameters of the resource manager: its objects are what the log of calls leaves of the initial ones, the field
  \<open>immutable\<close> of an object cannot change, and a deletion takes effect at once unless a finalizer keeps the object.
\<close>

type_synonym cluster = "(key, jmap object) gomap"

definition storedObject :: "jmap object \<Rightarrow> jmap object" where
  "storedObject ob = ob\<lparr>uUID := ''uid'', uResourceVersion := ''1''\<rparr>"

definition afterCall :: "bool \<Rightarrow> jmap call \<Rightarrow> cluster \<Rightarrow> cluster" where
  "afterCall finalizer c st =
     (case c of
        CApply _ ob \<Rightarrow> AList.update (objectKey ob) (storedObject ob) st
      | CDelete _ ob \<Rightarrow> if finalizer then st else AList.delete (objectKey ob) st
      | _ \<Rightarrow> st)"

definition notFoundError :: apierror where
  "notFoundError = \<lparr>eMessage = ''not found'', eNotFound = True, eConflict = False, eInvalid = False, eReason = ''NotFound'', eCauses = []\<rparr>"

definition invalidError :: apierror where
  "invalidError = \<lparr>eMessage = ''field is immutable'', eNotFound = False, eConflict = False, eInvalid = True, eReason = ''Invalid'', eCauses = []\<rparr>"

definition clusterGet :: "bool \<Rightarrow> cluster \<Rightarrow> jmap log \<Rightarrow> key \<Rightarrow> apierror + jmap object" where
  "clusterGet finalizer st calls k =
     (case map_of (fold (afterCall finalizer) calls st) k of None \<Rightarrow> Inl notFoundError | Some ob \<Rightarrow> Inr ob)"

text \<open>An object whose content has the key \<open>invalid\<close> is refused as invalid, also as a new one.\<close>

definition clusterDryRun :: "bool \<Rightarrow> cluster \<Rightarrow> jmap log \<Rightarrow> string \<Rightarrow> jmap object \<Rightarrow> apierror + jmap object" where
  "clusterDryRun finalizer st calls ow ob =
     (if map_of (uContent ob) ''invalid'' \<noteq> None then Inl invalidError
      else
        (case clusterGet finalizer st calls (objectKey ob) of
           Inl _ \<Rightarrow> Inr ob
         | Inr ex \<Rightarrow>
             if map_of (uContent ex) ''immutable'' \<noteq> map_of (uContent ob) ''immutable'' then Inl invalidError
             else Inr (ob\<lparr>uUID := uUID ex, uResourceVersion := uResourceVersion ex\<rparr>)))"

definition clusterPatch :: "bool \<Rightarrow> cluster \<Rightarrow> jmap log \<Rightarrow> jmap object \<Rightarrow> apierror + jmap object" where
  "clusterPatch finalizer st calls ob =
     (case clusterGet finalizer st calls (objectKey ob) of Inl e \<Rightarrow> Inl e | Inr _ \<Rightarrow> Inr (ob\<lparr>uAnnotations := []\<rparr>))"

definition text_sets :: "(string, string) fieldset_lib" where
  "text_sets = \<lparr>FromJSON = Inr, SetUnion = (@), ToJSON = Inr\<rparr>"

text \<open>A Go map has no duplicate keys; a list that has some is no map.\<close>

definition content_maps :: "jmap object nested_lib" where
  "content_maps = \<lparr>
     NestedMap = (\<lambda>ob k. case map_of (uContent ob) k of
         None \<Rightarrow> Inr None
       | Some (JObject d) \<Rightarrow> if distinct (map fst d) then Inr (Some d) else Inl ''not a map''
       | Some _ \<Rightarrow> Inl ''not a map''),
     SetNestedMap = (\<lambda>ob d k.
       if distinct (map fst d) then Inr (ob\<lparr>uContent := AList.update k (JObject d) (uContent ob)\<rparr>) else Inl ''not a map'')\<rparr>"

definition sampleManager :: "bool \<Rightarrow> cluster \<Rightarrow> (string, string, string list, string, jmap) manager" where
  "sampleManager finalizer st = \<lparr>
     owner = \<lparr>Field = ''flux'', OGroup = ''fluxcd''\<rparr>, driftLib = plain_lib, fieldsets = text_sets, folding = (\<lambda>r. r), tables = ascii_only,
     zeroContent = [],
     NestedString = (\<lambda>ob p. case walkFieldsV1 (uContent ob) (butlast p) of
       None \<Rightarrow> Inr None | Some d \<Rightarrow> (case map_of d (last p) of Some (JString s) \<Rightarrow> Inr (Some s) | None \<Rightarrow> Inr None | Some _ \<Rightarrow> Inl ''not a string'')),
     Base64Decode = (\<lambda>s. None), TLSConfigFor = (\<lambda>s. True),
     RemoveNestedField = (\<lambda>ob p. case p of [k] \<Rightarrow> ob\<lparr>uContent := AList.delete k (uContent ob)\<rparr> | _ \<Rightarrow> ob),
     DryRunUnstructured = Inr, EqualMaps = mapEqual, EqualObjects = (\<lambda>a b. uContent a = uContent b), nestedMaps = content_maps,
     SelectorMatches = (\<lambda>sel ls. Inr (list_all (\<lambda>(k, v). map_of ls k = Some v) sel)),
     sGet = clusterGet finalizer st, sDryRun = clusterDryRun finalizer st, sApply = (\<lambda>_ _ ob. Inr (storedObject ob)),
     sPatch = (\<lambda>calls _ ob _. clusterPatch finalizer st calls ob), sDelete = (\<lambda>_ _ _. None), sWait = (\<lambda>_ _ _ _. None), sPolls = (\<lambda>_. 2),
     sContextErr = (\<lambda>_. ''context deadline exceeded'')\<rparr>"

definition sampleOb :: "string \<Rightarrow> string \<Rightarrow> jmap \<Rightarrow> jmap object" where
  "sampleOb kind name c =
     \<lparr>uAPIVersion = ''v1'', uKind = kind, uGVK = ([], ''v1'', kind), uNamespace = (if kind = ''Namespace'' then [] else ''apps''), uName = name,
      uUID = [], uResourceVersion = [], uLabels = [], uAnnotations = [], uManagedFields = [], uContent = c\<rparr>"

definition stored :: "jmap object \<Rightarrow> key \<times> jmap object" where
  "stored ob = (objectKey ob, storedObject ob)"

lemma sampleManager_simps [simp]:
  "owner (sampleManager f st) = \<lparr>Field = ''flux'', OGroup = ''fluxcd''\<rparr>"
  "sGet (sampleManager f st) = clusterGet f st" "sDryRun (sampleManager f st) = clusterDryRun f st"
  "sApply (sampleManager f st) = (\<lambda>_ _ ob. Inr (storedObject ob))" "sDelete (sampleManager f st) = (\<lambda>_ _ _. None)"
  "sPatch (sampleManager f st) = (\<lambda>calls _ ob _. clusterPatch f st calls ob)" "sWait (sampleManager f st) = (\<lambda>_ _ _ _. None)"
  "sPolls (sampleManager f st) = (\<lambda>_. 2)" "tables (sampleManager f st) = ascii_only" "folding (sampleManager f st) = (\<lambda>r. r)"
  by (simp_all add: sampleManager_def)

lemma sampleOb_simps [simp]:
  "uLabels (sampleOb k n c) = []" "uAnnotations (sampleOb k n c) = []" "uUID (sampleOb k n c) = []" "uContent (sampleOb k n c) = c"
  "uResourceVersion (sampleOb k n c) = []" "uManagedFields (sampleOb k n c) = []" "uKind (sampleOb k n c) = k"
  "objectKey (sampleOb k n c) = (([], ''v1'', k), (if k = ''Namespace'' then [] else ''apps''), n)"
  by (simp_all add: sampleOb_def objectKey_def)

lemma lower_kinds [simp]:
  "ToLower ascii_only ''ConfigMap'' = ''configmap''" "ToLower ascii_only ''Namespace'' = ''namespace''" "ToLower ascii_only ''Secret'' = ''secret''"
  by (simp_all add: ToLower_def runes_ascii ascii_def ascii_only_def isUpper_def encodeRunes_def encodeRune_def char_of_eq_iff)

lemma sampleOb_not_CRD [simp]:
  "k \<in> {''ConfigMap'', ''Namespace'', ''Secret''} \<Longrightarrow> RemoveCABundleFromCRD (sampleManager f st) (sampleOb k n c) = sampleOb k n c"
  by (auto simp: RemoveCABundleFromCRD_def isCRDWithInvalidCABundle_def IsCRD_def)

lemma AnyInMetadata_Nil [simp]: "\<not> AnyInMetadata f ob []"
  by (simp add: AnyInMetadata_def)

lemmas run_defs = ApplyAll_def checkObject_def compileIfAsked_def getInto_def run_tryS Let_def shouldSkipApply_def migrateIfAsked_def
  dryRunOrRecreate_def checkAfterDryRun_def applyObject_def dryRunApply_def deleteObject_def cleanupMetadata_def cleanupPatches_def
  wrapFailure_def hasDriftedWithIgnore_def hasDrifted_def plannedPayload_def driftResult_def ChangeSet_Append_def NewChangeSet_def newExisting_def

lemmas cluster_defs = emptyApplyOptions_def emptyCleanup_def clusterGet_def clusterDryRun_def afterCall_def

text \<open>Applying a new config map on an empty cluster.\<close>

abbreviation sampleConfigMap :: "jmap object" where
  "sampleConfigMap \<equiv> sampleOb ''ConfigMap'' ''cm'' [(''a'', JInt 1)]"

lemma ApplyAll_new:
  "run_state (ApplyAll (sampleManager False []) [sampleConfigMap] emptyApplyOptions) [] =
     (Inr [changeSetEntry sampleConfigMap CreatedAction],
      [CGet (objectKey sampleConfigMap), CDryRun ''flux'' sampleConfigMap, CApply ''flux'' sampleConfigMap])"
  by (simp add: run_defs cluster_defs)

end
