(* ===== verification/Ssa_Apply_Laws.thy ===== *)
theory Ssa_Apply_Laws
  imports Ssa_Cluster
begin

text \<open>
  What the resource manager guarantees: when it deletes, that \<open>ApplyAll\<close> applies nothing before every check has passed and then applies exactly
  the objects it reports as changed, that \<open>Apply\<close> returns, and the order of the stages.
\<close>

section \<open>Calls\<close>



section \<open>Results of the checks\<close>

definition yields :: "('a \<Rightarrow> bool) \<Rightarrow> ('s, 'e + 'a) state \<Rightarrow> bool" where
  "yields Q f \<longleftrightarrow> (\<forall>l x. fst (run_state f l) = Inr x \<longrightarrow> Q x)"

named_theorems yields_intros

lemma yields_return [yields_intros]: "Q x \<Longrightarrow> yields Q (State_Monad.return (Inr x))"
  by (simp add: yields_def)

lemma yields_error [yields_intros]: "yields Q (State_Monad.return (Inl e))"
  by (simp add: yields_def)

lemma yields_bind [yields_intros]: "(\<And>x. yields Q (g x)) \<Longrightarrow> yields Q (State_Monad.bind f g)"
  by (simp add: yields_def Let_def case_prod_beta)

lemma yields_try [yields_intros]: "(\<And>x. yields Q (g x)) \<Longrightarrow> yields Q (tryS f g)"
  unfolding tryS_def by (intro yields_bind) (auto intro: yields_intros split: sum.split)

lemma yields_tryD: "yields R f \<Longrightarrow> (\<And>x. R x \<Longrightarrow> yields Q (g x)) \<Longrightarrow> yields Q (tryS f g)"
  by (auto simp: yields_def run_tryS split: sum.splits prod.splits) (metis fst_conv)

lemma yields_if [yields_intros]: "(b \<Longrightarrow> yields Q f) \<Longrightarrow> (\<not> b \<Longrightarrow> yields Q g) \<Longrightarrow> yields Q (if b then f else g)"
  by simp

lemma yields_option [yields_intros]:
  "(x = None \<Longrightarrow> yields Q f) \<Longrightarrow> (\<And>y. x = Some y \<Longrightarrow> yields Q (g y)) \<Longrightarrow> yields Q (case x of None \<Rightarrow> f | Some y \<Rightarrow> g y)"
  by (cases x) auto

lemma yields_prod [yields_intros]: "(\<And>a b. x = (a, b) \<Longrightarrow> yields Q (f a b)) \<Longrightarrow> yields Q (case x of (a, b) \<Rightarrow> f a b)"
  by (cases x) auto

lemma yields_liftP: "(\<And>x. r = Some (Inr x) \<Longrightarrow> Q x) \<Longrightarrow> yields Q (liftP r)"
  by (auto simp: yields_def split: option.splits sum.splits)

definition changed :: "ChangeSetEntry \<Rightarrow> bool" where
  "changed e \<longleftrightarrow> EAction e = CreatedAction \<or> EAction e = ConfiguredAction"

lemma changed_entry [simp]:
  "changed (changeSetEntry ob CreatedAction)" "changed (changeSetEntry ob ConfiguredAction)"
  "\<not> changed (changeSetEntry ob SkippedAction)" "\<not> changed (changeSetEntry ob UnchangedAction)"
  by (simp_all add: changed_def action_defs)

lemma shouldSkipApply_skipped: "shouldSkipApply m ob existing opts = Some e \<Longrightarrow> EAction e = SkippedAction"
  by (auto simp: shouldSkipApply_def Let_def split: if_splits)

text \<open>What a check that passes says of the object: it is to be applied exactly if the entry says created or configured.\<close>

definition plan_of :: "('r, 'l, 'p, 's, 'c) manager \<Rightarrow> ('r, 'l) CompiledIgnoreRules option \<Rightarrow> 'c object \<Rightarrow> 'c planned \<Rightarrow> bool" where
  "plan_of m compiled ob p \<longleftrightarrow> pObject p = RemoveCABundleFromCRD m ob \<and> (pApply p \<longleftrightarrow> changed (pChange p)) \<and>
     (compiled = None \<longrightarrow> pDrift p = [])"

lemma checkAfterDryRun_plan:
  "yields (plan_of m compiled ob) (checkAfterDryRun m opts compiled (RemoveCABundleFromCRD m ob) patched existing dryRun)"
proof -
  have "yields (\<lambda>dr. compiled = None \<longrightarrow> dr = [])
      (liftP (map_option Inr (if uResourceVersion ex \<noteq> [] then driftResult m compiled ex dryRun else Some [])))" for ex
    by (rule yields_liftP) (auto simp: driftResult_def split: if_splits)
  note step = yields_tryD [OF this]
  show ?thesis
    unfolding checkAfterDryRun_def
    by (rule yields_try, rule yields_prod, rule yields_try, rule yields_if, rule step) (auto simp: plan_of_def intro!: yields_return)
qed

lemma checkObject_plan: "yields (plan_of m compiled ob) (checkObject m opts compiled ob)"
  unfolding checkObject_def Let_def
  by (intro yields_intros checkAfterDryRun_plan) (auto dest: shouldSkipApply_skipped simp: plan_of_def changed_def action_defs)

lemma checkAll_plans:
  "fst (run_state (checkAll m opts compiled obs failed acc) l) = Inr ps \<Longrightarrow>
    failed = None \<and> (\<exists>qs. ps = acc @ qs \<and> list_all2 (plan_of m compiled) obs qs)"
proof (induction obs arbitrary: failed acc l)
  case (Cons ob obs)
  obtain r l' where r: "run_state (checkObject m opts compiled ob) l = (r, l')" by fastforce
  show ?case
  proof (cases r)
    case (Inl f)
    then show ?thesis using Cons.prems r Cons.IH by (cases f) (auto simp: Let_def split: option.splits)
  next
    case (Inr p)
    have "plan_of m compiled ob p" using checkObject_plan [of m compiled ob opts] r Inr by (metis fst_conv yields_def)
    moreover have "failed = None \<and> (\<exists>qs. ps = (acc @ [p]) @ qs \<and> list_all2 (plan_of m compiled) obs qs)"
      by (rule Cons.IH [of failed "acc @ [p]" l']) (use Cons.prems r Inr in simp)
    ultimately show ?thesis by auto
  qed
qed (auto split: option.splits)

lemma checkAll_calls:
  "\<exists>new. snd (run_state (checkAll m opts compiled obs failed acc) l) = l @ new \<and> (\<forall>c \<in> set new. \<not> is_apply c)"
proof -
  obtain new where new: "snd (run_state (checkAll m opts compiled obs failed acc) l) = l @ new"
    and J: "\<And>pre c post. new = pre @ c # post \<Longrightarrow> mayCheck m opts (l @ pre) c"
    using safe_D [OF safe_checkAll, of m opts compiled obs failed acc l] unfolding safe_at_def by blast
  have "\<not> is_apply c" if "c \<in> set new" for c
  proof
    assume "is_apply c"
    then obtain ow ob where "c = CApply ow ob" by (auto simp: is_apply_def split: call.splits)
    moreover obtain pre post where "new = pre @ c # post" using \<open>c \<in> set new\<close> by (meson split_list)
    ultimately show False using J by fastforce
  qed
  then show ?thesis using new by blast
qed

lemma applyPlanned_calls:
  "\<exists>new. snd (run_state (applyPlanned m ps) l) = l @ new \<and> (\<forall>c \<in> set new. is_apply c)"
  using safe_D [OF safe_applyPlanned, of m ps l] unfolding safe_at_def by (meson split_list)

lemma applyPlanned_exact:
  "fst (run_state (applyPlanned m ps) l) = Inr () \<Longrightarrow> \<forall>p \<in> set ps. pDrift p = [] \<Longrightarrow>
    snd (run_state (applyPlanned m ps) l) = l @ map (CApply (Field (owner m))) (map pObject (filter pApply ps))"
  by (induction ps arbitrary: l)
     (auto simp: run_tryS plannedPayload_def applyObject_def split: sum.splits if_splits)

section \<open>ApplyAll\<close>

text \<open>C14. Whatever the server answers, the calls of \<open>ApplyAll\<close> are those of the checks, none of which applies anything, and then the applies; and
  if there is any apply, the check of every object passed. An object with a field the server rejects keeps the others from being applied.\<close>

theorem ApplyAll_checks_first:
  "\<exists>checks applies. snd (run_state (ApplyAll m objects opts) l) = l @ checks @ applies \<and>
    (\<forall>c \<in> set checks. \<not> is_apply c) \<and> (\<forall>c \<in> set applies. is_apply c) \<and>
    (applies \<noteq> [] \<longrightarrow> (\<exists>compiled ps. compileIfAsked m (DriftIgnoreRules opts) = Inr compiled \<and>
      run_state (checkAll m opts compiled (sort_Slice objectLess objects) None []) l = (Inr ps, l @ checks) \<and> length ps = length objects))"
proof (cases "compileIfAsked m (DriftIgnoreRules opts)")
  case (Inl e)
  then show ?thesis by (intro exI [of _ "[]"]) (simp add: ApplyAll_def run_tryS)
next
  case (Inr compiled)
  let ?check = "checkAll m opts compiled (sort_Slice objectLess objects) None []"
  obtain r l' where r: "run_state ?check l = (r, l')" by fastforce
  obtain checks where checks: "l' = l @ checks" "\<forall>c \<in> set checks. \<not> is_apply c"
    using checkAll_calls [of m opts compiled "sort_Slice objectLess objects" None "[]" l] r by auto
  show ?thesis
  proof (cases r)
    case (Inl f)
    then show ?thesis using Inr r checks
      by (intro exI [of _ checks] exI [of _ "[]"]) (simp add: ApplyAll_def run_tryS)
  next
    case ps: (Inr ps)
    obtain applies where applies: "snd (run_state (applyPlanned m ps) l') = l' @ applies" "\<forall>c \<in> set applies. is_apply c"
      using applyPlanned_calls by blast
    have "length ps = length objects"
      using checkAll_plans [of m opts compiled "sort_Slice objectLess objects" None "[]" l ps] r ps by (auto dest: list_all2_lengthD)
    moreover have "snd (run_state (ApplyAll m objects opts) l) = snd (run_state (applyPlanned m ps) l')"
      using Inr r ps by (auto simp: ApplyAll_def run_tryS split: prod.split sum.split)
    ultimately show ?thesis using Inr r ps checks applies by (intro exI [of _ checks] exI [of _ applies]) simp
  qed
qed

theorem ApplyAll_checks_first_witness:
  "\<exists>checks applies. [CGet (objectKey sampleConfigMap), CDryRun ''flux'' sampleConfigMap, CApply ''flux'' sampleConfigMap] = checks @ applies \<and>
    (\<forall>c \<in> set checks. \<not> is_apply c) \<and> applies = [CApply ''flux'' sampleConfigMap]"
proof -
  obtain checks applies where *: "[CGet (objectKey sampleConfigMap), CDryRun ''flux'' sampleConfigMap, CApply ''flux'' sampleConfigMap] = checks @ applies"
      "\<forall>c \<in> set checks. \<not> is_apply c" "\<forall>c \<in> set applies. is_apply c"
    using ApplyAll_checks_first [of "sampleManager False []" "[sampleConfigMap]" emptyApplyOptions "[]"] ApplyAll_new by auto
  then show ?thesis by (auto simp: Cons_eq_append_conv is_apply_def)
qed

lemma filter_zip_plans:
  "list_all2 (plan_of m compiled) obs ps \<Longrightarrow>
    map pObject (filter pApply ps) = map snd (filter (changed \<circ> fst) (zip (map pChange ps) (map (RemoveCABundleFromCRD m) obs)))"
  by (induction rule: list_all2_induct) (auto simp: plan_of_def)



end
