(* ===== verification/Ssa_Apply_Once.thy ===== *)
theory Ssa_Apply_Once
  imports Ssa_Apply_Laws
begin

text \<open>
  \<open>Apply\<close> on one object: what it leaves alone, that it returns once the object it recreates is gone, and that it does not while a
  finalizer keeps that object. Then a small API server, as an instance of the parameters.
\<close>

section \<open>Objects that are left alone\<close>

lemma getInto_run: "run_state (getInto m ob existing) l =
    ((case sGet m l (objectKey ob) of Inl e \<Rightarrow> (Some e, existing) | Inr x \<Rightarrow> (None, x)), l @ [CGet (objectKey ob)])"
  by (simp add: getInto_def)

definition left_alone :: "('r, 'l, 'p, 's, 'c) manager \<Rightarrow> ApplyOptions \<Rightarrow> 'c log \<Rightarrow> 'c object \<Rightarrow> bool" where
  "left_alone m opts l ob \<longleftrightarrow> AnyInMetadata (folding m) ob (ExclusionSelector opts) \<or>
     (\<exists>ex. sGet m l (objectKey ob) = Inr ex \<and>
       (AnyInMetadata (folding m) ex (ExclusionSelector opts) \<or> uUID ex \<noteq> [] \<and> AnyInMetadata (folding m) ob (IfNotPresentSelector opts)))"

lemma left_alone_skip:
  assumes "left_alone m opts l ob"
  obtains e where "shouldSkipApply m ob (snd (fst (run_state (getInto m ob (newExisting m ob)) l))) opts = Some e" "EAction e = SkippedAction"
proof -
  let ?ex = "snd (fst (run_state (getInto m ob (newExisting m ob)) l))"
  have "shouldSkipApply m ob ?ex opts \<noteq> None"
    using assms unfolding left_alone_def by (auto simp: shouldSkipApply_def Let_def getInto_run)
  then show ?thesis using that shouldSkipApply_skipped by blast
qed

text \<open>C21. An object that is excluded, in the manifest or in the cluster, or that exists and is to be left alone if present, is read once and nothing else is
  asked of the server: \<open>Apply\<close> reports it as skipped, and so does the check of \<open>ApplyAll\<close>, which does not plan to apply it.\<close>

theorem Apply_left_alone:
  assumes "left_alone m opts l (RemoveCABundleFromCRD m ob)" "left_alone m opts l ob"
  shows "(\<exists>e. ApplyOne m ob opts l = Some (Inr e, l @ [CGet (objectKey ob)]) \<and> EAction e = SkippedAction) \<and>
    (\<exists>p. run_state (checkObject m opts compiled ob) l = (Inr p, l @ [CGet (objectKey (RemoveCABundleFromCRD m ob))]) \<and>
      \<not> pApply p \<and> EAction (pChange p) = SkippedAction)"
proof
  obtain e where "shouldSkipApply m ob (snd (fst (run_state (getInto m ob (newExisting m ob)) l))) opts = Some e" "EAction e = SkippedAction"
    using left_alone_skip [OF assms(2)] by blast
  then show "\<exists>e. ApplyOne m ob opts l = Some (Inr e, l @ [CGet (objectKey ob)]) \<and> EAction e = SkippedAction"
    by (subst ApplyOne.simps) (auto simp: attemptApply_def getInto_run split: sum.splits)
  obtain e' where "shouldSkipApply m (RemoveCABundleFromCRD m ob)
      (snd (fst (run_state (getInto m (RemoveCABundleFromCRD m ob) (newExisting m (RemoveCABundleFromCRD m ob))) l))) opts = Some e'"
      "EAction e' = SkippedAction"
    using left_alone_skip [OF assms(1)] by blast
  then show "\<exists>p. run_state (checkObject m opts compiled ob) l = (Inr p, l @ [CGet (objectKey (RemoveCABundleFromCRD m ob))]) \<and>
      \<not> pApply p \<and> EAction (pChange p) = SkippedAction"
    by (auto simp: checkObject_def Let_def getInto_run split: sum.splits)
qed

abbreviation excludedConfigMap :: "jmap object" where
  "excludedConfigMap \<equiv> sampleConfigMap\<lparr>uLabels := [(''reconcile'', ''disabled'')]\<rparr>"

theorem Apply_left_alone_witness:
  "(\<exists>e. ApplyOne (sampleManager False []) excludedConfigMap (emptyApplyOptions\<lparr>ExclusionSelector := [(''reconcile'', ''disabled'')]\<rparr>) [] =
      Some (Inr e, [CGet (objectKey sampleConfigMap)]) \<and> EAction e = SkippedAction)"
proof -
  let ?opts = "emptyApplyOptions\<lparr>ExclusionSelector := [(''reconcile'', ''disabled'')]\<rparr>"
  have crd: "RemoveCABundleFromCRD (sampleManager False []) excludedConfigMap = excludedConfigMap"
    by (simp add: RemoveCABundleFromCRD_def isCRDWithInvalidCABundle_def IsCRD_def)
  have l: "left_alone (sampleManager False []) ?opts [] excludedConfigMap"
    by (simp add: left_alone_def AnyInMetadata_def EqualFold_def lookupString_def)
  have k: "objectKey excludedConfigMap = objectKey sampleConfigMap" by (simp add: objectKey_def)
  show ?thesis using Apply_left_alone [of "sampleManager False []" ?opts "[]" excludedConfigMap] l crd unfolding k by simp
qed

section \<open>Whether Apply returns\<close>

definition is_delete :: "'c call \<Rightarrow> bool" where
  "is_delete c = (case c of CDelete _ _ \<Rightarrow> True | _ \<Rightarrow> False)"

definition deletes :: "'c log \<Rightarrow> nat" where
  "deletes l = length (filter is_delete l)"

lemma deletes_append [simp]: "deletes (xs @ ys) = deletes xs + deletes ys"
  by (simp add: deletes_def)

lemma deletes_Cons [simp]: "deletes (c # l) = (if is_delete c then 1 else 0) + deletes l" "deletes [] = 0"
  by (simp_all add: deletes_def)

lemma migrate_extends:
  "run_state (migrateIfAsked m opts ge ob ex) l = (r, l') \<Longrightarrow> \<exists>new. l' = l @ new \<and> (\<forall>c \<in> set new. \<not> is_apply c)"
  unfolding migrateIfAsked_def migrateAPIVersion_def wrapFailure_def patchObject_def
  by (auto simp: Let_def is_apply_def split: if_splits sum.splits)

lemma attempt_again:
  assumes "run_state (attemptApply m ob opts) l = (Again, l')"
  shows "\<not> (\<exists>e. sGet m l (objectKey ob) = Inl e \<and> eNotFound e) \<and>
    (\<exists>new. l' = l @ new \<and> 0 < deletes new \<and> (\<forall>c \<in> set new. \<not> is_apply c))"
proof -
  let ?get = "case sGet m l (objectKey ob) of Inl e \<Rightarrow> (Some e, newExisting m ob) | Inr x \<Rightarrow> (None, x)"
  let ?l = "l @ [CGet (objectKey ob)]"
  obtain ge ex where g: "?get = (ge, ex)" by fastforce
  have skip: "shouldSkipApply m ob ex opts = None"
    using assms g by (auto simp: attemptApply_def getInto_run split: option.splits)
  obtain r l1 where r: "run_state (migrateIfAsked m opts ge ob ex) ?l = (r, l1)" by fastforce
  obtain patched ex' where r': "r = Inr (patched, ex')"
    using assms g skip r by (cases r) (auto simp: attemptApply_def getInto_run)
  obtain new where "l1 = ?l @ new" "\<forall>c \<in> set new. \<not> is_apply c" using migrate_extends [OF r] by blast
  moreover have "\<not> isNotFound ge \<and> l' = l1 @ [CDryRun (Field (owner m)) ob, CDelete BackgroundPolicy ex']"
    using assms g skip r r' by (auto simp: attemptApply_def getInto_run dryRunApply_def deleteObject_def Let_def
      split: sum.splits prod.splits if_splits option.splits)
  ultimately show ?thesis using g by (auto simp: is_delete_def isNotFound_def is_apply_def split: sum.splits)
qed

text \<open>C20. \<open>Apply\<close> returns if recreating succeeds in the end: if there is a number of deletions after which, with nothing applied meanwhile, the server
  no longer finds the object.\<close>

theorem Apply_returns:
  assumes "\<And>new. n \<le> deletes new \<Longrightarrow> \<forall>c \<in> set new. \<not> is_apply c \<Longrightarrow> \<exists>e. sGet m (l @ new) (objectKey ob) = Inl e \<and> eNotFound e"
  shows "\<exists>r l'. ApplyOne m ob opts l = Some (r, l')"
proof -
  have "\<exists>r l'. ApplyOne m ob opts (l @ new) = Some (r, l')" if "\<forall>c \<in> set new. \<not> is_apply c" for new
    using that
  proof (induction "n - deletes new" arbitrary: new rule: less_induct)
    case less
    obtain a l' where a: "run_state (attemptApply m ob opts) (l @ new) = (a, l')" by fastforce
    show ?case
    proof (cases a)
      case Again
      then obtain more where more: "l' = l @ (new @ more)" "0 < deletes more" "\<forall>c \<in> set more. \<not> is_apply c"
        and "\<not> (\<exists>e. sGet m (l @ new) (objectKey ob) = Inl e \<and> eNotFound e)"
        using attempt_again [of m ob opts "l @ new" l'] a by auto
      then have "deletes new < n" using assms less.prems by (meson not_le)
      then have "\<exists>r l''. ApplyOne m ob opts (l @ (new @ more)) = Some (r, l'')" using less more by (intro less.hyps) auto
      then show ?thesis using a Again more(1) by (subst ApplyOne.simps) simp
    qed (use a in \<open>subst ApplyOne.simps, simp\<close>)
  qed
  from this [of "[]"] show ?thesis by simp
qed

theorem Apply_returns_witness:
  "\<exists>r l'. ApplyOne ((sampleManager False [])\<lparr>sGet := \<lambda>l _. if 1 \<le> deletes l then Inl notFoundError else Inr (storedObject sampleConfigMap)\<rparr>)
    sampleConfigMap (emptyApplyOptions\<lparr>Force := True\<rparr>) [] = Some (r, l')"
  by (rule Apply_returns [where n = 1]) (simp add: notFoundError_def)

text \<open>C36. While the server keeps the object, answers each deletion with success and refuses the dry run as an immutable change, a forced \<open>Apply\<close> does
  not return: it deletes and tries again at once, for ever. A finalizer that keeps the object makes a server answer so.\<close>

theorem Apply_spins:
  fixes m :: "('r, 'l, 'p, 's, 'c) manager"
  assumes "Force opts" "ExclusionSelector opts = []" "IfNotPresentSelector opts = []" "\<not> MigrateAPIVersion opts"
    "\<And>l. \<exists>ex. sGet m l (objectKey ob) = Inr ex" "\<And>l. sDelete m l BackgroundPolicy = (\<lambda>_. None)"
    "\<And>l. \<exists>err. sDryRun m l (Field (owner m)) ob = Inl err \<and> IsImmutableError err"
  shows "ApplyOne m ob opts l = None"
proof (rule ccontr)
  assume "ApplyOne m ob opts l \<noteq> None"
  then obtain y where y: "ApplyOne m ob opts l = Some y" by blast
  have again: "fst (run_state (attemptApply m ob opts) l) = Again" for l
  proof -
    obtain ex where ex: "sGet m l (objectKey ob) = Inr ex" using assms(5) by blast
    obtain err where err: "sDryRun m (l @ [CGet (objectKey ob)]) (Field (owner m)) ob = Inl err" "IsImmutableError err" using assms(7) by blast
    have "shouldSkipApply m ob ex opts = None" using assms(2,3) by (simp add: shouldSkipApply_def AnyInMetadata_def)
    then show ?thesis using ex err assms(1,4,6)
      by (simp add: attemptApply_def getInto_run migrateIfAsked_def dryRunApply_def deleteObject_def shouldForceApply_def isNotFound_def)
  qed
  have "m = m \<longrightarrow> ob = ob \<longrightarrow> opts = opts \<longrightarrow> False"
  proof (rule ApplyOne.raw_induct [where P = "\<lambda>m' ob' opts' _ _. m' = m \<longrightarrow> ob' = ob \<longrightarrow> opts' = opts \<longrightarrow> False", OF _ y], intro impI)
    fix f :: "('r, 'l, 'p, 's, 'c) manager \<Rightarrow> 'c object \<Rightarrow> ApplyOptions \<Rightarrow> 'c log \<Rightarrow> (('c failure + ChangeSetEntry) \<times> 'c log) option"
      and m' ob' opts' l y
    assume IH: "\<And>m' ob' opts' l y. f m' ob' opts' l = Some y \<Longrightarrow> m' = m \<longrightarrow> ob' = ob \<longrightarrow> opts' = opts \<longrightarrow> False"
      and step: "(case run_state (attemptApply m' ob' opts') l of (Again, l') \<Rightarrow> f m' ob' opts' l' | (Return r, l') \<Rightarrow> Some (r, l')) = Some y"
      and eqs: "m' = m" "ob' = ob" "opts' = opts"
    have "f m ob opts (snd (run_state (attemptApply m ob opts) l)) = Some y"
      using step again [of l] unfolding eqs by (auto split: prod.splits attempt.splits)
    from IH [OF this] show False by simp
  qed
  then show False by simp
qed

theorem Apply_spins_witness:
  "ApplyOne ((sampleManager True [])\<lparr>sGet := \<lambda>_ _. Inr (storedObject sampleConfigMap), sDryRun := \<lambda>_ _ _. Inl invalidError\<rparr>)
    sampleConfigMap (emptyApplyOptions\<lparr>Force := True\<rparr>) [] = None"
  by (rule Apply_spins) (simp_all add: emptyApplyOptions_def invalidError_def IsImmutableError_def)

end
