(* ===== verification/Ssa_Stages.thy ===== *)
theory Ssa_Stages
  imports Ssa_Apply_Once
begin

text \<open>
  The order of the stages of \<open>ApplyAllStaged\<close>, what \<open>DeleteAll\<close> deletes and reports, and the secrets in what \<open>Diff\<close> returns.
\<close>

section \<open>Stages\<close>

lemma safe_tryD: "yields R f \<Longrightarrow> safe J f \<Longrightarrow> (\<And>x. R x \<Longrightarrow> safe J (g x)) \<Longrightarrow> safe J (tryS f g)"
  unfolding tryS_def
proof (rule safe_bind_at)
  fix l x l'
  assume *: "yields R f" "\<And>x. R x \<Longrightarrow> safe J (g x)" "run_state f l = (x, l')"
  show "safe_at J (case x of Inl e \<Rightarrow> State_Monad.return (Inl e) | Inr y \<Rightarrow> g y) l'"
  proof (cases x)
    case (Inr y)
    then have "R y" using * unfolding yields_def by (metis fst_conv)
    then show ?thesis using Inr safe_D [OF *(2)] by simp
  qed (simp add: safe_D [OF safe_return])
qed

definition applies_in :: "'c object set \<Rightarrow> 'c log \<Rightarrow> 'c call \<Rightarrow> bool" where
  "applies_in S l c = (case c of CApply _ ob \<Rightarrow> ob \<in> S | _ \<Rightarrow> True)"

lemma applyPlanned_in: "\<forall>p \<in> set ps. pDrift p = [] \<and> pObject p \<in> S \<Longrightarrow> safe (applies_in S) (applyPlanned m ps)"
proof (induction ps)
  case (Cons p ps)
  have "plannedPayload m p = Inr (pObject p)" using Cons.prems by (simp add: plannedPayload_def)
  then show ?case using Cons by (auto simp: tryS_def liftP_def applies_in_def intro!: safe_intros)
qed (simp add: safe_return)

lemma checks_in: "safe (mayCheck m opts) f \<Longrightarrow> safe (applies_in S) f"
  by (erule safe_mono) (auto simp: applies_in_def split: call.split)

lemma ApplyAll_in:
  assumes "DriftIgnoreRules opts = []"
  shows "safe (applies_in (RemoveCABundleFromCRD m ` set objects)) (ApplyAll m objects opts)"
proof -
  let ?S = "RemoveCABundleFromCRD m ` set objects" and ?obs = "sort_Slice objectLess objects"
  have plans: "yields (\<lambda>ps. list_all2 (plan_of m None) ?obs ps) (checkAll m opts None ?obs None [])"
    using checkAll_plans [of m opts None ?obs None "[]"] by (auto simp: yields_def)
  have planned: "\<forall>p \<in> set ps. pDrift p = [] \<and> pObject p \<in> ?S" if "list_all2 (plan_of m None) ?obs ps" for ps
  proof
    fix p
    assume "p \<in> set ps"
    then obtain i where i: "i < length ps" "p = ps ! i" by (auto simp: in_set_conv_nth)
    then have "plan_of m None (?obs ! i) p" "?obs ! i \<in> set objects"
      using that list_all2_nthD2 [OF that] by (auto dest: list_all2_lengthD) (metis list_all2_lengthD nth_mem set_sort_Slice that)
    then show "pDrift p = [] \<and> pObject p \<in> ?S" by (auto simp: plan_of_def)
  qed
  have compiled: "compileIfAsked m (DriftIgnoreRules opts) = Inr None" using assms by (simp add: compileIfAsked_def)
  have "safe (applies_in ?S) (tryS (checkAll m opts None ?obs None []) (\<lambda>ps.
      tryS (applyPlanned m ps) (\<lambda>_. State_Monad.return (Inr (ChangeSet_Append (map pChange ps) NewChangeSet)))))"
    by (rule safe_tryD [OF plans checks_in [OF safe_checkAll]]) (intro safe_tryS safe_return applyPlanned_in planned)
  then show ?thesis by (simp add: ApplyAll_def compiled tryS_def liftP_def)
qed

lemma ApplyAll_length: "yields (\<lambda>cs. length cs = length objects) (ApplyAll m objects opts)"
proof -
  have "yields (\<lambda>ps. length ps = length objects) (checkAll m opts compiled (sort_Slice objectLess objects) None [])" for compiled
    unfolding yields_def using checkAll_plans [of m opts compiled "sort_Slice objectLess objects" None "[]"]
    by (fastforce dest: list_all2_lengthD)
  note step = yields_tryD [OF this]
  show ?thesis
    unfolding ApplyAll_def by (rule yields_try, rule step) (auto simp: ChangeSet_Append_def NewChangeSet_def intro!: yields_try yields_return)
qed

text \<open>The calls of one stage apply objects of that stage, and those of a stage that waits and succeeds end in the wait.\<close>

definition stage_calls ::
  "('r, 'l, 'p, 's, 'c) manager \<Rightarrow> 'c object list \<Rightarrow> 'c log \<Rightarrow> bool" where
  "stage_calls m objects new \<longleftrightarrow> (\<forall>ow ob. CApply ow ob \<in> set new \<longrightarrow> ob \<in> RemoveCABundleFromCRD m ` set objects)"

definition waited :: "('r, 'l, 'p, 's, 'c) manager \<Rightarrow> ApplyOptions \<Rightarrow> nat \<Rightarrow> 'c log \<Rightarrow> 'c log \<Rightarrow> bool" where
  "waited m opts n l new \<longleftrightarrow> (\<exists>pre ids. new = pre @ [CWait ids (WaitInterval opts) (WaitTimeout opts)] \<and> length ids = n \<and>
     sWait m (l @ pre) ids (WaitInterval opts) (WaitTimeout opts) = None)"

lemma applyStage_calls:
  assumes "DriftIgnoreRules opts = []" "run_state (applyStage m opts waits objects cs) l = ((e, cs'), l')"
  obtains new where "l' = l @ new" "stage_calls m objects new"
    "waits \<Longrightarrow> objects \<noteq> [] \<Longrightarrow> e = None \<Longrightarrow> waited m opts (length objects) l new"
proof -
  obtain r l1 where r: "run_state (ApplyAll m objects opts) l = (r, l1)" by fastforce
  obtain n1 where n1: "l1 = l @ n1" "\<And>pre c post. n1 = pre @ c # post \<Longrightarrow> applies_in (RemoveCABundleFromCRD m ` set objects) (l @ pre) c"
    using safe_D [OF ApplyAll_in [OF assms(1)], of m objects l] r unfolding safe_at_def by auto
  have s1: "stage_calls m objects n1" using n1(2) by (fastforce simp: stage_calls_def in_set_conv_decomp applies_in_def)
  show thesis
  proof (cases r)
    case (Inl f)
    then show thesis using assms(2) r n1(1) s1 by (intro that) (auto simp: applyStage_def)
  next
    case (Inr c)
    have len: "length c = length objects" using ApplyAll_length [of objects m opts] r Inr unfolding yields_def by (metis fst_conv)
    show thesis
    proof (cases "waits \<and> objects \<noteq> []")
      case True
      let ?w = "CWait (ToObjMetadataSet c) (WaitInterval opts) (WaitTimeout opts)"
      have ids: "length (ToObjMetadataSet c) = length objects" using len by (simp add: ToObjMetadataSet_def)
      have l': "l' = l @ n1 @ [?w]" and e: "e = map_option Failed (sWait m (l @ n1) (ToObjMetadataSet c) (WaitInterval opts) (WaitTimeout opts))"
        using assms(2) r Inr True n1(1) ids by (auto simp: applyStage_def WaitForSet_def)
      show thesis
        by (rule that [of "n1 @ [?w]"]) (use l' e s1 ids in \<open>auto simp: stage_calls_def waited_def\<close>)
    next
      case False
      then show thesis using assms(2) r Inr n1(1) s1 len by (intro that [of n1]) (auto simp: applyStage_def WaitForSet_def ToObjMetadataSet_def split: if_splits)
    qed
  qed
qed

lemma stage_or_skip:
  assumes "DriftIgnoreRules opts = []"
    "run_state (if length objects > 0 then applyStage m opts waits objects cs else State_Monad.return (None, cs)) l = ((e, cs'), l')"
  shows "\<exists>new. l' = l @ new \<and> stage_calls m objects new \<and> (e = None \<longrightarrow> waits \<longrightarrow> objects \<noteq> [] \<longrightarrow> waited m opts (length objects) l new)"
proof (cases "objects = []")
  case False
  then show ?thesis using assms applyStage_calls [OF assms(1), of m waits objects cs l e cs' l'] by (auto simp del: not_None_eq)
qed (use assms(2) in \<open>auto simp: stage_calls_def\<close>)

text \<open>A stage that is followed by others only if it succeeds.\<close>

definition onSuccess ::
  "('c log, 'c failure option \<times> ChangeSet) state \<Rightarrow> (ChangeSet \<Rightarrow> ('c log, 'c failure option \<times> ChangeSet) state) \<Rightarrow>
     ('c log, 'c failure option \<times> ChangeSet) state" where
  "onSuccess f g = do { (e, cs) \<leftarrow> f; if e \<noteq> None then State_Monad.return (e, cs) else g cs }"

lemma then_stage:
  assumes "DriftIgnoreRules opts = []" "\<And>cs l'. \<exists>n. snd (run_state (g cs) l') = l' @ n \<and> Q l' n" "\<And>l'. Q l' []"
  shows "\<exists>n1 n. snd (run_state (onSuccess (if length objects > 0 then applyStage m opts waits objects cs else State_Monad.return (None, cs)) g) l) =
      l @ n1 @ n \<and> stage_calls m objects n1 \<and> Q (l @ n1) n \<and> (n \<noteq> [] \<longrightarrow> waits \<longrightarrow> objects \<noteq> [] \<longrightarrow> waited m opts (length objects) l n1)"
proof -
  let ?f = "if length objects > 0 then applyStage m opts waits objects cs else State_Monad.return (None, cs)"
  obtain e cs' l' where r: "run_state ?f l = ((e, cs'), l')" by (metis prod.collapse)
  obtain n1 where n1: "l' = l @ n1" "stage_calls m objects n1" "e = None \<longrightarrow> waits \<longrightarrow> objects \<noteq> [] \<longrightarrow> waited m opts (length objects) l n1"
    using stage_or_skip [OF assms(1) r] by blast
  obtain n where n: "snd (run_state (g cs') l') = l' @ n" "Q l' n" using assms(2) by blast
  show ?thesis
  proof (cases "e = None")
    case True
    then show ?thesis using r n1 n by (intro exI [of _ n1] exI [of _ n]) (simp add: onSuccess_def)
  next
    case False
    then show ?thesis using r n1 assms(3) by (intro exI [of _ n1] exI [of _ "[]"]) (simp add: onSuccess_def)
  qed
qed



section \<open>Deleting\<close>

text \<open>What \<open>DeleteAll\<close> may call: an object is deleted right after it has been read, and only if its labels match the inclusions and none
  of the exclusions is in its metadata.\<close>

definition mayDelete :: "('r, 'l, 'p, 's, 'c) manager \<Rightarrow> DeleteOptions \<Rightarrow> 'c log \<Rightarrow> 'c call \<Rightarrow> bool" where
  "mayDelete m opts pre c =
     (case c of
        CGet _ \<Rightarrow> True
      | CDelete policy ob \<Rightarrow>
          policy = PropagationPolicy opts \<and>
          (\<exists>before k. pre = before @ [CGet k] \<and> sGet m before k = Inr ob) \<and>
          SelectorMatches m (Inclusions opts) (uLabels ob) = Inr True \<and> \<not> AnyInMetadata (folding m) ob (Exclusions opts)
      | _ \<Rightarrow> False)"

lemma safe_DeleteOb: "safe (mayDelete m opts) (DeleteOb m ob opts)"
  unfolding DeleteOb_def
proof (rule safe_bind_at)
  show "safe (mayDelete m opts) (getInto m ob (newExisting m ob))" by (rule safe_getInto) (simp add: mayDelete_def)
next
  fix l x l'
  assume "run_state (getInto m ob (newExisting m ob)) l = (x, l')"
  then have l': "l' = l @ [CGet (objectKey ob)]" and x: "x = (case sGet m l (objectKey ob) of Inl e \<Rightarrow> (Some e, newExisting m ob) | Inr y \<Rightarrow> (None, y))"
    by (simp_all add: getInto_run)
  show "safe_at (mayDelete m opts) (case x of (err, existing) \<Rightarrow> case err of
       Some e \<Rightarrow> State_Monad.return
         (if \<not> eNotFound e then (changeSetEntry ob UnknownAction, Some (FmtUnstructured ob @ '' query failed: '' @ eMessage e))
          else (changeSetEntry ob DeletedAction, None))
     | None \<Rightarrow>
         (case SelectorMatches m (Inclusions opts) (uLabels existing) of
            Inl e \<Rightarrow> State_Monad.return (changeSetEntry ob UnknownAction, Some (FmtUnstructured ob @ '' label selector failed: '' @ e))
          | Inr False \<Rightarrow> State_Monad.return (changeSetEntry ob SkippedAction, None)
          | Inr True \<Rightarrow>
              if AnyInMetadata (folding m) existing (Exclusions opts) then State_Monad.return (changeSetEntry ob SkippedAction, None)
              else do {
                d \<leftarrow> deleteObject m (PropagationPolicy opts) existing;
                State_Monad.return (case d of
                  Some e \<Rightarrow> (changeSetEntry ob UnknownAction, Some (FmtUnstructured ob @ '' delete failed: '' @ eMessage e))
                | None \<Rightarrow> (changeSetEntry ob DeletedAction, None))
              })) l'"
    unfolding x l'
    by (auto simp: mayDelete_def intro!: safe_D [OF safe_return] safe_delete_at safe_return split: sum.split bool.split)
qed

lemma safe_DeleteAll: "safe (mayDelete m opts) (DeleteAll m objects opts)"
proof -
  have "safe (mayDelete m opts) (deleteLoop m opts obs cs errs)" for obs cs errs
    by (induction obs arbitrary: cs errs) (auto intro!: safe_intros safe_DeleteOb)
  then show ?thesis unfolding DeleteAll_def by (intro safe_intros)
qed

lemma DeleteOb_entry:
  "fst (run_state (DeleteOb m ob opts) l) = (cse, err) \<Longrightarrow>
    EObjMetadata cse = UnstructuredToObjMetadata ob \<and> (err = None \<longleftrightarrow> EAction cse \<noteq> UnknownAction)"
  by (auto simp: DeleteOb_def getInto_run deleteObject_def action_defs Let_def split: sum.splits bool.splits option.splits if_splits)

lemma deleteLoop_entries:
  "fst (run_state (deleteLoop m opts obs cs errs) l) = (cs', errs') \<Longrightarrow>
    \<exists>es. cs' = cs @ es \<and> map EObjMetadata es = map UnstructuredToObjMetadata obs \<and>
      (errs' = [] \<longleftrightarrow> errs = [] \<and> (\<forall>e \<in> set es. EAction e \<noteq> UnknownAction))"
proof (induction obs arbitrary: cs errs l)
  case (Cons ob obs)
  obtain cse err l1 where r: "run_state (DeleteOb m ob opts) l = ((cse, err), l1)" by (metis prod.collapse)
  have entry: "EObjMetadata cse = UnstructuredToObjMetadata ob \<and> (err = None \<longleftrightarrow> EAction cse \<noteq> UnknownAction)"
    by (rule DeleteOb_entry [of m ob opts l]) (simp add: r)
  let ?errs = "case err of Some e \<Rightarrow> errs @ e @ '';'' | None \<Rightarrow> errs"
  have "fst (run_state (deleteLoop m opts obs (cs @ [cse]) ?errs) l1) = (cs', errs')"
    using Cons.prems r by (simp add: ChangeSet_Add_def)
  from Cons.IH [OF this] obtain es where "cs' = (cs @ [cse]) @ es" "map EObjMetadata es = map UnstructuredToObjMetadata obs"
    "errs' = [] \<longleftrightarrow> ?errs = [] \<and> (\<forall>e \<in> set es. EAction e \<noteq> UnknownAction)" by blast
  then show ?case using entry by (intro exI [of _ "cse # es"]) (auto split: option.splits)
qed simp

interpretation reverse_objects: less_order "\<lambda>a b. objectLess b a"
  by (rule less_order_converse) (rule objects.less_order_axioms)

text \<open>C15. Whatever the server answers, \<open>DeleteAll\<close> deletes an object only right after reading it, if the labels it then has match the inclusions and no
  exclusion is in its metadata. It reports one entry for each object, in the reverse of the apply order, and it fails exactly if some entry is unknown.\<close>

theorem DeleteAll_spec:
  "(\<exists>new. snd (run_state (DeleteAll m objects opts) l) = l @ new \<and> (\<forall>pre c post. new = pre @ c # post \<longrightarrow>
      (\<exists>k. c = CGet k) \<or> (\<exists>ob before k. c = CDelete (PropagationPolicy opts) ob \<and> l @ pre = before @ [CGet k] \<and> sGet m before k = Inr ob \<and>
        SelectorMatches m (Inclusions opts) (uLabels ob) = Inr True \<and> \<not> AnyInMetadata (folding m) ob (Exclusions opts)))) \<and>
   (let (cs, err) = fst (run_state (DeleteAll m objects opts) l); obs = sort_Slice (\<lambda>a b. objectLess b a) objects in
      map EObjMetadata cs = map UnstructuredToObjMetadata obs \<and> sorted_by (\<lambda>a b. objectLess b a) obs \<and>
      (err = None \<longleftrightarrow> (\<forall>e \<in> set cs. EAction e \<noteq> UnknownAction)))"
proof
  have "(\<exists>k. c = CGet k) \<or> (\<exists>ob before k. c = CDelete (PropagationPolicy opts) ob \<and> l' = before @ [CGet k] \<and> sGet m before k = Inr ob \<and>
        SelectorMatches m (Inclusions opts) (uLabels ob) = Inr True \<and> \<not> AnyInMetadata (folding m) ob (Exclusions opts))"
    if "mayDelete m opts l' c" for c l' using that by (cases c) (auto simp: mayDelete_def)
  then show "\<exists>new. snd (run_state (DeleteAll m objects opts) l) = l @ new \<and> (\<forall>pre c post. new = pre @ c # post \<longrightarrow>
      (\<exists>k. c = CGet k) \<or> (\<exists>ob before k. c = CDelete (PropagationPolicy opts) ob \<and> l @ pre = before @ [CGet k] \<and> sGet m before k = Inr ob \<and>
        SelectorMatches m (Inclusions opts) (uLabels ob) = Inr True \<and> \<not> AnyInMetadata (folding m) ob (Exclusions opts)))"
    using safe_D [OF safe_DeleteAll, of m opts objects l] unfolding safe_at_def by blast
next
  let ?obs = "sort_Slice (\<lambda>a b. objectLess b a) objects"
  obtain cs errs l' where r: "run_state (deleteLoop m opts ?obs NewChangeSet []) l = ((cs, errs), l')" by (metis prod.collapse)
  then have "map EObjMetadata cs = map UnstructuredToObjMetadata ?obs \<and> (errs = [] \<longleftrightarrow> (\<forall>e \<in> set cs. EAction e \<noteq> UnknownAction))"
    using deleteLoop_entries [of m opts ?obs NewChangeSet "[]" l cs errs] by (auto simp: NewChangeSet_def)
  then show "let (cs, err) = fst (run_state (DeleteAll m objects opts) l); obs = ?obs in
      map EObjMetadata cs = map UnstructuredToObjMetadata obs \<and> sorted_by (\<lambda>a b. objectLess b a) obs \<and>
      (err = None \<longleftrightarrow> (\<forall>e \<in> set cs. EAction e \<noteq> UnknownAction))"
    using r reverse_objects.sorted_sort_Slice [of objects] by (simp add: DeleteAll_def)
qed

lemma DeleteAll_stored:
  "fst (run_state (DeleteAll (sampleManager False [stored sampleConfigMap]) [sampleConfigMap] DefaultDeleteOptions) []) =
    ([changeSetEntry sampleConfigMap DeletedAction], None)"
  by (simp add: DeleteAll_def DeleteOb_def getInto_run cluster_defs stored_def storedObject_def DefaultDeleteOptions_def sampleManager_def
    deleteObject_def ChangeSet_Add_def NewChangeSet_def)

theorem DeleteAll_spec_witness:
  "map EObjMetadata [changeSetEntry sampleConfigMap DeletedAction] = map UnstructuredToObjMetadata (sort_Slice (\<lambda>a b. objectLess b a) [sampleConfigMap]) \<and>
    (\<exists>new. snd (run_state (DeleteAll (sampleManager False [stored sampleConfigMap]) [sampleConfigMap] DefaultDeleteOptions) []) = [] @ new)"
  using DeleteAll_spec [of "sampleManager False [stored sampleConfigMap]" "[sampleConfigMap]" DefaultDeleteOptions "[]"]
  unfolding DeleteAll_stored by auto

end
