(* ===== verification/Ssa_Diff_Laws.thy ===== *)
theory Ssa_Diff_Laws
  imports Ssa_Stages
begin

text \<open>
  What \<open>Diff\<close> shows of a secret, where it disagrees with \<open>Apply\<close> and \<open>ApplyAll\<close> on an object that does not exist yet, and the cleanup of
  an object that \<open>ApplyAll\<close> has just deleted.
\<close>

section \<open>Secrets\<close>

lemma sanitizeLoops_returns_masks:
  assumes "keys_distinct old" "sanitizeLoops old new = Some (old', new')"
  shows "(\<forall>k v. map_of old' k = Some v \<longrightarrow> isMask v) \<and> (\<forall>k v. map_of new' k = Some v \<longrightarrow> isMask v)"
proof -
  obtain old1 new1 where f: "foldOption sanitizeOld (map fst old) (old, new) = Some (old1, new1)"
    using assms(2) by (auto simp: sanitizeLoops_def bind_eq_Some_conv)
  have "comparable a b" if "map_of old k = Some a" "map_of new k = Some b" for k a b
  proof (rule ccontr)
    assume "\<not> comparable a b"
    have "k \<in> set (map fst old)" using map_of_SomeD_key [OF that(1)] by simp
    then show False
      using foldOption_pointwise [OF sanitizeOld_pointwise assms(1), where old = old and new = new] f that \<open>\<not> comparable a b\<close>
      by (simp del: set_map) (drule spec [of _ k], simp del: set_map)
  qed
  then have "all_comparable old new" using all_comparable_iff [OF assms(1)] by blast
  from sanitizeLoops_masked [OF assms(1) this] show ?thesis using assms(2) masked_isMask by (metis Pair_inject option.inject)
qed

text \<open>What the \<open>unstructured\<close> package documents of \<open>SetNestedMap\<close> and \<open>NestedMap\<close>, for the \<open>data\<close> of an object: a map is read back, the kind and
  version of the object stay, and a Go map has no duplicate keys.\<close>

definition data_laws :: "'c object nested_lib \<Rightarrow> bool" where
  "data_laws lib \<longleftrightarrow> nested_laws lib \<and>
     (\<forall>ob d ob'. SetNestedMap lib ob d ''data'' = Inr ob' \<longrightarrow> uKind ob' = uKind ob \<and> uAPIVersion ob' = uAPIVersion ob) \<and>
     (\<forall>ob d. NestedMap lib ob ''data'' = Inr (Some d) \<longrightarrow> keys_distinct d)"

definition shows_masks :: "'c object nested_lib \<Rightarrow> 'c object \<Rightarrow> bool" where
  "shows_masks lib ob \<longleftrightarrow> (\<forall>d k v. NestedMap lib ob ''data'' = Inr (Some d) \<longrightarrow> map_of d k = Some v \<longrightarrow> isMask v)"

lemma setData_masks:
  assumes "data_laws lib" "NestedMap lib ob ''data'' = Inr d0" "setData lib (Some ob) d0 d = Inr (Some ob')" "\<forall>k v. map_of d k = Some v \<longrightarrow> isMask v"
  shows "shows_masks lib ob' \<and> uKind ob' = uKind ob \<and> uAPIVersion ob' = uAPIVersion ob"
proof (cases d0)
  case None
  then show ?thesis using assms(2,3) by (simp add: setData_def shows_masks_def)
next
  case (Some x)
  then have ob': "SetNestedMap lib ob d ''data'' = Inr ob'" using assms(3) by (auto simp: setData_def split: sum.splits)
  then have "NestedMap lib ob' ''data'' = Inr (Some d)" "uKind ob' = uKind ob" "uAPIVersion ob' = uAPIVersion ob"
    using assms(1) unfolding data_laws_def nested_laws_def by blast+
  then show ?thesis using assms(4) unfolding shows_masks_def by auto
qed

lemma Sanitize_shows_masks:
  assumes "data_laws lib" "SanitizeUnstructuredData lib (Some old) (Some new) = Some (Inr (Some old', Some new'))"
  shows "shows_masks lib old' \<and> shows_masks lib new' \<and> uKind new' = uKind new \<and> uAPIVersion new' = uAPIVersion new"
proof -
  obtain d0 n0 where d: "NestedMap lib old ''data'' = Inr d0" "NestedMap lib new ''data'' = Inr n0"
    using assms(2) by (auto simp: SanitizeUnstructuredData_def getUnstructuredData_def split: sum.splits)
  let ?loops = "sanitizeLoops (case d0 of Some m \<Rightarrow> m | None \<Rightarrow> []) (case n0 of Some m \<Rightarrow> m | None \<Rightarrow> [])"
  obtain d1 n1 where l: "?loops = Some (d1, n1)"
    using assms(2) d by (cases ?loops) (auto simp: SanitizeUnstructuredData_def getUnstructuredData_def)
  have s: "setData lib (Some old) d0 d1 = Inr (Some old')" "setData lib (Some new) n0 n1 = Inr (Some new')"
    using assms(2) d l by (auto simp: SanitizeUnstructuredData_def getUnstructuredData_def split: sum.splits)
  have "keys_distinct (case d0 of Some m \<Rightarrow> m | None \<Rightarrow> [])" using assms(1) d(1) by (auto simp: data_laws_def split: option.split)
  from sanitizeLoops_returns_masks [OF this l] show ?thesis
    using setData_masks [OF assms(1) d(1) s(1)] setData_masks [OF assms(1) d(2) s(2)] by blast
qed

text \<open>C16. \<open>Diff\<close> never returns a secret in clear: if the second object it returns is a \<open>Secret\<close>, every value in the \<open>data\<close> of both objects is a mask.\<close>

theorem Diff_masks_secrets:
  assumes "data_laws (nestedMaps m)" "fst (run_state (Diff m ob opts) l) = Inr (entry, Some old, Some new)" "IsSecret (tables m) new"
  shows "shows_masks (nestedMaps m) old \<and> shows_masks (nestedMaps m) new"
proof -
  have liftP: "fst (run_state (tryS (liftP r) f) l) = Inr x \<Longrightarrow> \<exists>y. r = Some (Inr y) \<and> fst (run_state (f y) l) = Inr x"
    for r l x and f :: "'x \<Rightarrow> ('z log, 'z failure + 'y) state"
    by (auto simp: run_tryS split: option.splits sum.splits)
  obtain e d where "maskSecret m e d = Some (Inr (Some old, Some new))"
    using assms(2) unfolding Diff_def Let_def
    by (auto simp: getInto_run dryRunApply_def Let_def split: sum.splits if_splits prod.splits dest!: liftP)
  then show ?thesis
    using Sanitize_shows_masks [OF assms(1)] assms(3) by (auto simp: maskSecret_def IsSecret_def split: if_splits)
qed

lemma content_maps_laws: "data_laws content_maps"
  unfolding data_laws_def nested_laws_def content_maps_def
  by (auto simp: map_of_update split: if_splits option.splits json.splits)

definition secretOb :: "string \<Rightarrow> jmap object" where
  "secretOb v = sampleOb ''Secret'' ''db'' [(''data'', JObject [(''password'', JString v)])]"

lemma Diff_secret_run:
  "fst (run_state (Diff (sampleManager False [stored (secretOb ''old'')]) (secretOb ''new'') DefaultDiffOptions) []) =
    Inr (changeSetEntry (secretOb ''new'') ConfiguredAction,
      Some (storedObject (secretOb ''*** (before)'')), Some (storedObject (secretOb ''*** (after)'')))"
  by (simp add: Diff_def secretOb_def run_defs cluster_defs stored_def storedObject_def DefaultDiffOptions_def shouldSkipDiff_def stripIgnored_def
    maskSecret_def IsSecret_def SanitizeUnstructuredData_def getUnstructuredData_def sampleManager_def content_maps_def sanitizeLoops_def
    sanitizeOld_def sanitizeNew_def setData_def goEqual_def sanitize_masks hasObjectDrifted_def prepareObjectForDiff_def mapEqual_def
    RemoveCABundleFromCRD_def isCRDWithInvalidCABundle_def IsCRD_def) (simp add: sampleOb_def)

theorem Diff_masks_secrets_witness:
  "shows_masks content_maps (storedObject (secretOb ''*** (before)'')) \<and> shows_masks content_maps (storedObject (secretOb ''*** (after)''))"
proof -
  let ?m = "sampleManager False [stored (secretOb ''old'')]"
  have "nestedMaps ?m = content_maps" by (simp add: sampleManager_def)
  moreover have "IsSecret (tables ?m) (storedObject (secretOb ''*** (after)''))" by (simp add: IsSecret_def storedObject_def secretOb_def sampleOb_def)
  ultimately show ?thesis using Diff_masks_secrets [of ?m "secretOb ''new''" DefaultDiffOptions "[]", OF _ Diff_secret_run] content_maps_laws by simp
qed

section \<open>An object that does not exist yet\<close>

definition invalidOb :: "jmap object" where
  "invalidOb = sampleOb ''ConfigMap'' ''cm'' [(''invalid'', JNull)]"

text \<open>For an object that is not in the cluster an immutable change is impossible, and \<open>Apply\<close> and \<open>ApplyAll\<close> return the error of its dry run. \<open>Diff\<close> does not look at
  the error of the \<open>Get\<close>, and with force it reports the object as created.\<close>
lemma Diff_hides_refused_create:
  "fst (run_state (Diff (sampleManager False []) invalidOb (DefaultDiffOptions\<lparr>dForce := True\<rparr>)) []) =
     Inr (changeSetEntry invalidOb CreatedAction, None, None)"
  "fst (run_state (ApplyAll (sampleManager False []) [invalidOb] (emptyApplyOptions\<lparr>Force := True\<rparr>)) []) =
     Inl (DryRunErr invalidError (Some invalidOb))"
  by (simp_all add: Diff_def invalidOb_def run_defs cluster_defs DefaultDiffOptions_def shouldSkipDiff_def shouldForceApply_def IsImmutableError_def
    invalidError_def notFoundError_def isNotFound_def)

section \<open>Cleanup after a recreation\<close>

definition annotatedOb :: "jmap object" where
  "annotatedOb = (sampleOb ''ConfigMap'' ''cm'' [(''immutable'', JInt 1)])\<lparr>uAnnotations := [(''old'', ''x'')]\<rparr>"

text \<open>After \<open>ApplyAll\<close> has deleted an object to recreate it, its \<open>existingObject\<close> is still the deleted one. If that has an annotation to clean up, a patch is sent for
  an object that is gone, the patch fails and nothing is applied: the object stays deleted.\<close>
lemma ApplyAll_patches_deleted:
  "let (r, calls) = run_state (ApplyAll (sampleManager False [stored annotatedOb]) [sampleOb ''ConfigMap'' ''cm'' [(''immutable'', JInt 2)]]
      (emptyApplyOptions\<lparr>Force := True, Cleanup := emptyCleanup\<lparr>cAnnotations := [''old'']\<rparr>\<rparr>)) []
   in (\<exists>e. r = Inl (Failed e)) \<and> deletes calls = 1 \<and> filter is_apply calls = [] \<and>
     clusterGet False [stored annotatedOb] calls (objectKey annotatedOb) = Inl notFoundError"
  by (simp add: run_defs cluster_defs annotatedOb_def stored_def storedObject_def shouldForceApply_def IsImmutableError_def invalidError_def isNotFound_def
    notFoundError_def objectKey_def eval_nat_numeral PatchRemoveAnnotations_def patchObject_def clusterPatch_def deletes_def is_delete_def is_apply_def
    sampleOb_def RemoveCABundleFromCRD_def isCRDWithInvalidCABundle_def IsCRD_def)

end
