(* ===== verification/Spec2Isabelle.thy ===== *)
theory Spec2Isabelle
  imports
    LRU_Store Expiring_Properties Janitor Token_Cache
    Condition_Patch Reconcile_Result
    Envsubst_Trim Envsubst_Template
    Dependency_Sort Resource_Order History Git_Revision
    Tar_Confinement
    Ssa_Diff_Laws
begin

text \<open>
  Verification of parts of the Flux Go SDK (fluxcd/pkg): the libraries that the Flux controllers share.

  \<^bold>\<open>Conventions.\<close> A Go string is its list of bytes, a map an association list (\<open>gomap\<close>), a struct a record,
  an error a value of a sum or option type, and a panic the value \<open>None\<close>. Times and durations are integers;
  where 64-bit arithmetic can overflow it is written out (\<open>wrap64\<close>). \<open>Go_Prelude\<close> holds this vocabulary with the shared lemmas
  and the locale \<open>less_order\<close> of comparisons that sorting may rely on; \<open>Go_Utf8\<close> has UTF-8, the \<open>strings\<close> and \<open>strconv\<close>
  functions in use, and the Unicode tables as a parameter; \<open>Go_Filepath\<close> has the operations on paths.

  \<^bold>\<open>Caches\<close> (\<open>cache/\<close>). \<open>Cache_Metrics\<close>, \<open>LRU_Cache\<close> (the doubly linked list with sentinels as cells in a heap,
  and the index), \<open>Expiring_Cache\<close> (index, slice and sorted flag), \<open>Janitor\<close> (\<open>Close\<close> against the clean-up loop as a step
  relation) and \<open>Token_Cache\<close>, which is a client of the LRU cache. \<open>LRU_Refinement\<close> and \<open>LRU_Store\<close> show that the linked
  list implements a list of entries by recency; \<open>Expiring_Invariant\<close> and \<open>Expiring_Properties\<close> have the invariant of the
  expiring cache and when its clean-up is exact. \<open>Store_Contract\<close> states what every \<open>Store\<close> promises as the
  locale \<open>cache_store\<close>, which both caches interpret. Token lifetimes are bounded on both clocks.

  \<^bold>\<open>Conditions\<close> (\<open>runtime/conditions/\<close>). \<open>Condition_Core\<close> has the getters and setters, \<open>Condition_Laws\<close> the contract of
  \<open>Set\<close>, \<open>Condition_Merge\<close> and \<open>Merge_Properties\<close> the summary of several conditions and its priority, and \<open>Condition_Patch\<close>
  the three-way merge. The locale \<open>condition_store\<close> has the laws that \<open>Reconcile_Result\<close> (\<open>runtime/reconcile/\<close>) builds on to
  show which conditions a finished reconciliation leaves.

  \<^bold>\<open>Substitution\<close> (\<open>envsubst/\<close>). \<open>Envsubst_Path\<close> (glob patterns against a specification), \<open>Envsubst_Scan\<close>, \<open>Envsubst_Parse\<close>,
  \<open>Envsubst_Eval\<close>. The parser recurses under a fuel of the length of the input plus 2; \<open>Envsubst_Progress\<close> shows that this is
  enough for every input, since each round consumes some. \<open>Envsubst_Trim\<close> has the trimming and substring functions and
  \<open>Envsubst_Template\<close> the meaning of whole templates, parser and evaluation together.

  \<^bold>\<open>Ordering and history.\<close> \<open>Dependency_Sort\<close> (\<open>runtime/dependency/sort.go\<close>, \<open>apis/meta\<close> references) shows that the depth-first
  search ends with one unit of fuel per reference and yields a topological order or a cycle. \<open>Resource_Order\<close>
  (\<open>ssa/sort.go\<close>, \<open>ssa/changeset.go\<close>) has the order in which resources are applied, \<open>History\<close> (\<open>apis/meta/history.go\<close>) the
  bounded history, \<open>Git_Revision\<close> (\<open>git/git.go\<close>, \<open>git/utils.go\<close>) commits and revisions.

  \<^bold>\<open>Server-side apply\<close> (\<open>ssa/\<close>). \<open>Json\<close> and \<open>Ssa_Object\<close> have values and objects, with the helpers of \<open>ssa/utils\<close>; \<open>Secret_Masking\<close>
  (\<open>sanitize.go\<close>, \<open>jsondiff/mask.go\<close>) what is shown of a secret; \<open>Ssa_Patch\<close> (\<open>patch.go\<close>) the patches of managed fields, of which replacing
  managers keeps every owned path; \<open>Ssa_Drift\<close> the ignore rules and the ownership of drifted fields. \<open>Ssa_Apply\<close> is the resource manager:
  \<open>Apply\<close>, \<open>ApplyAll\<close>, \<open>ApplyAllStaged\<close>, \<open>Diff\<close>, \<open>Delete\<close> and \<open>DeleteAll\<close> in the state monad over a log of calls, against a server
  that answers each call from the log before it. \<open>Ssa_Calls\<close> has the rules to reason about such logs; \<open>Ssa_Apply_Laws\<close>, \<open>Ssa_Apply_Once\<close>,
  \<open>Ssa_Stages\<close> and \<open>Ssa_Diff_Laws\<close> show, for every server, when an object is deleted, applied, left alone or shown, that all checks come before
  all applies, and when \<open>Apply\<close> returns; its recursion has no bound, so it is a \<open>partial_function\<close> whose \<open>None\<close> is not returning. A poll is bounded by
  the number of rounds the server parameter gives until the context ends. \<open>Ssa_Cluster\<close> is a server for the examples.

  \<^bold>\<open>Archives\<close> (\<open>tar/\<close>). \<open>Tar_Untar\<close> runs an extraction against an operating system whose answers may depend on all
  effects so far; \<open>Tar_Confinement\<close> bounds the paths it touches and the bytes it writes for every such system.

  \<^bold>\<open>Not modelled.\<close> Code that consists of calls to a cluster, a cloud provider, a registry or a repository, where what matters is
  the behaviour of the libraries behind (\<open>kustomize\<close>, \<open>git/gogit\<close>, \<open>auth\<close>, \<open>oci\<close>, \<open>http\<close>, \<open>artifact\<close>, \<open>ssh\<close>);
  signature verification, which is cryptography; file locks (\<open>lockedfile\<close>); the creation of archives and the resolution of symbolic links,
  which walk a file system; test servers; generated deep copies; metrics registries and logging. \<open>sourceignore\<close>, \<open>chartutil\<close>,
  \<open>version\<close> and \<open>masktoken\<close> are not covered yet. The status poller behind \<open>WaitForSet\<close> and the normalization of objects through a scheme are parameters, and
  the checks of \<open>ApplyAll\<close> run one at a time. Locks are taken for whole operations and are left out except in \<open>Janitor\<close>.
\<close>

end
